(* ===== verification/Prelude.thy ===== *)
theory Prelude
  imports Main "HOL-Library.Word"
begin

text \<open>
  Shared vocabulary of the development: the machine integers of the Rust sources, results as
  sums (\<open>Inl\<close> is \<open>Err\<close>, \<open>Inr\<close> is \<open>Ok\<close>), what an asynchronous stream has ready when it is
  polled, and the generic list, option, map and word lemmas the component theories use.
\<close>

section \<open>Machine integers\<close>

type_synonym byte = "8 word"
type_synonym u8 = "8 word"
type_synonym u16 = "16 word"
type_synonym u32 = "32 word"
type_synonym u64 = "64 word"

text \<open>
  A signed \<open>i32\<close> or \<open>i64\<close> is the word with its bit pattern; \<open>sint\<close> reads it. Rust's
  \<open>as u32\<close> on an \<open>i32\<close> keeps the bits, so it is the identity on the model's words.
\<close>

type_synonym i32 = "32 word"
type_synonym i64 = "64 word"
type_synonym bytes = "8 word list"

named_theorems wire_simps \<open>rewrite rules of the byte-level parsers and printers\<close>
named_theorems proto_simps \<open>unfolding of the protocol message constructors\<close>
named_theorems state_simps \<open>unfolding of the state-changing operations\<close>

section \<open>Results\<close>

type_synonym ('e, 'a) res = "'e + 'a"

definition map_err :: "('e \<Rightarrow> 'f) \<Rightarrow> ('e, 'a) res \<Rightarrow> ('f, 'a) res" where
  "map_err f r = (case r of Inl e \<Rightarrow> Inl (f e) | Inr a \<Rightarrow> Inr a)"

definition bind_res :: "('e, 'a) res \<Rightarrow> ('a \<Rightarrow> ('e, 'b) res) \<Rightarrow> ('e, 'b) res" where
  "bind_res r f = (case r of Inl e \<Rightarrow> Inl e | Inr a \<Rightarrow> f a)"

definition is_ok :: "('e, 'a) res \<Rightarrow> bool" where
  "is_ok r = (case r of Inl _ \<Rightarrow> False | Inr _ \<Rightarrow> True)"

lemma map_err_simps [simp]:
  "map_err f (Inl e) = Inl (f e)"
  "map_err f (Inr a) = Inr a"
  by (simp_all add: map_err_def)

lemma bind_res_simps [simp]:
  "bind_res (Inl e) f = Inl e"
  "bind_res (Inr a) f = f a"
  by (simp_all add: bind_res_def)

lemma is_ok_simps [simp]:
  "\<not> is_ok (Inl e)"
  "is_ok (Inr a)"
  by (simp_all add: is_ok_def)

lemma bind_res_Inr_iff: "bind_res r f = Inr b \<longleftrightarrow> (\<exists>a. r = Inr a \<and> f a = Inr b)"
  by (cases r) auto

lemma map_err_Inr_iff [simp]: "map_err f r = Inr a \<longleftrightarrow> r = Inr a"
  by (cases r) auto

text \<open>
  \<open>try_join_all\<close> on futures: \<open>None\<close> is a future that has not finished. One error is enough for
  the whole to fail; of several errors the first in the list stands for the first to arrive.
\<close>

fun first_error :: "('e, 'a) res option list \<Rightarrow> 'e option" where
  "first_error [] = None"
| "first_error (Some (Inl e) # rs) = Some e"
| "first_error (Some (Inr a) # rs) = first_error rs"
| "first_error (None # rs) = first_error rs"

definition try_join_all :: "('e, 'a) res option list \<Rightarrow> ('e, 'a list) res option" where
  "try_join_all rs =
     (case first_error rs of
        Some e \<Rightarrow> Some (Inl e)
      | None \<Rightarrow> if None \<in> set rs then None else Some (Inr (map (\<lambda>r. projr (the r)) rs)))"

lemma first_error_None: "first_error (map (\<lambda>x. Some (Inr (f x))) xs) = None"
  by (induction xs) simp_all

lemma try_join_all_ok: "try_join_all (map (\<lambda>x. Some (Inr (f x))) xs) = Some (Inr (map f xs))"
  by (auto simp: try_join_all_def first_error_None)

lemma first_error_in: "first_error rs = Some e \<Longrightarrow> Some (Inl e) \<in> set rs"
  by (induction rs rule: first_error.induct) auto

lemma first_error_NoneD: "first_error rs = None \<Longrightarrow> r \<in> set rs \<Longrightarrow> r = None \<or> (\<exists>a. r = Some (Inr a))"
  by (induction rs rule: first_error.induct) auto

lemma try_join_all_Inr:
  assumes "try_join_all rs = Some (Inr xs)"
  shows "rs = map (\<lambda>x. Some (Inr x)) xs"
proof -
  from assms have "first_error rs = None" "None \<notin> set rs" "xs = map (\<lambda>r. projr (the r)) rs"
    by (auto simp: try_join_all_def split: option.splits if_splits)
  moreover from this(1,2) have "Some (Inr (projr (the r))) = r" if "r \<in> set rs" for r
    using first_error_NoneD [OF _ that] that by fastforce
  ultimately show ?thesis by (simp add: comp_def map_idI)
qed

section \<open>Options\<close>

text \<open>The alternatives of a Rust or-pattern are tried from left to right.\<close>

fun first_some :: "'a option list \<Rightarrow> 'a option" where
  "first_some [] = None"
| "first_some (Some x # xs) = Some x"
| "first_some (None # xs) = first_some xs"

lemma first_some_None_iff: "first_some xs = None \<longleftrightarrow> set xs \<subseteq> {None}"
  by (induction xs rule: first_some.induct) auto

lemma first_some_in: "first_some xs = Some x \<Longrightarrow> Some x \<in> set xs"
  by (induction xs rule: first_some.induct) auto

section \<open>What a polled stream has ready\<close>

datatype 'a poll = Pending | Ready 'a

text \<open>
  Polling a stream returns the items it has ready one after the other; then \<open>Pending\<close>, or
  the end of the stream when it is finished.
\<close>

record 'a feed =
  ready :: "'a list"
  finished :: bool

section \<open>Runs\<close>

text \<open>A run of a system, with its labels.\<close>

inductive runs :: "('s \<Rightarrow> 'l \<Rightarrow> 's \<Rightarrow> bool) \<Rightarrow> 's \<Rightarrow> 'l list \<Rightarrow> 's \<Rightarrow> bool"
  for step :: "'s \<Rightarrow> 'l \<Rightarrow> 's \<Rightarrow> bool" where
  runs_Nil: "runs step s [] s"
| runs_snoc: "runs step s ls s' \<Longrightarrow> step s' l s'' \<Longrightarrow> runs step s (ls @ [l]) s''"

lemma runs_trans: "runs step t ls' u \<Longrightarrow> runs step s ls t \<Longrightarrow> runs step s (ls @ ls') u"
proof (induction rule: runs.induct)
  case (runs_snoc t ls' u l u')
  then have "runs step s ((ls @ ls') @ [l]) u'" by (blast intro: runs.runs_snoc)
  then show ?case by simp
qed simp

lemma runs_one: "step s l s' \<Longrightarrow> runs step s [l] s'"
  using runs.runs_snoc [OF runs.runs_Nil] by fastforce

section \<open>Lists\<close>

lemma take_append_exact [simp, wire_simps]:
  "length xs = n \<Longrightarrow> take n (xs @ ys) = xs"
  "length xs = n \<Longrightarrow> drop n (xs @ ys) = ys"
  by simp_all

lemma concat_map_snoc: "concat (map f (xs @ [x])) = concat (map f xs) @ f x"
  by simp

lemma map_add_new: "g k = None \<Longrightarrow> [k \<mapsto> v] ++ g = g(k \<mapsto> v)"
  by (rule ext) (simp add: map_add_def split: option.split)

section \<open>Decimal numbers\<close>

text \<open>The text \<open>format!\<close> gives an unsigned number.\<close>

fun show_nat :: "nat \<Rightarrow> string" where
  "show_nat n =
     (if n < 10 then [char_of (48 + n)] else show_nat (n div 10) @ [char_of (48 + n mod 10)])"

declare show_nat.simps [simp del]

lemma show_nat_nonempty [simp]: "show_nat n \<noteq> []"
  by (subst show_nat.simps) simp

lemma digit_char_inject:
  "a < 10 \<Longrightarrow> b < 10 \<Longrightarrow> (char_of (48 + a) :: char) = char_of (48 + b) \<longleftrightarrow> a = (b :: nat)"
  by (simp add: char_of_eq_iff take_bit_nat_eq_self)

lemma show_nat_inject: "show_nat m = show_nat n \<Longrightarrow> m = n"
proof (induction m arbitrary: n rule: show_nat.induct)
  case (1 m)
  have m: "show_nat m = (if m < 10 then [char_of (48 + m)]
      else show_nat (m div 10) @ [char_of (48 + m mod 10)])"
    by (rule show_nat.simps)
  have n: "show_nat n = (if n < 10 then [char_of (48 + n)]
      else show_nat (n div 10) @ [char_of (48 + n mod 10)])"
    by (rule show_nat.simps)
  have last: "m mod 10 = n mod 10"
    using "1.prems" m n by (auto simp: digit_char_inject split: if_splits)
  show ?case
  proof (cases "m < 10")
    case True
    with "1.prems" m n last show ?thesis by (auto split: if_splits)
  next
    case False
    with "1.prems" m n have "\<not> n < 10" and "show_nat (m div 10) = show_nat (n div 10)"
      by (auto split: if_splits)
    with False "1.IH" have "m div 10 = n div 10" by blast
    with last show ?thesis by (metis div_mult_mod_eq)
  qed
qed

section \<open>Casts\<close>

lemma unat_of_nat_u32 [simp]:
  assumes "n < 2 ^ 32"
  shows "unat (of_nat n :: u32) = n"
  using assms by (simp add: unat_of_nat take_bit_nat_eq_self)

lemma unat_Suc_below:
  fixes n k :: u32
  assumes "unat n < unat k"
  shows "unat (n + 1) = unat n + 1"
proof -
  have "unat k < 2 ^ 32" using unsigned_less [of k, where ?'a = nat] by simp
  with assms have "unat n + 1 < 2 ^ 32" by linarith
  then show ?thesis by (simp add: unat_word_ariths)
qed

lemma i32_sign_bit: "bit (w :: i32) 31 \<longleftrightarrow> odd (unat w div 2 ^ 31)"
  by (metis bit_iff_odd bit_unsigned_iff possible_bit_nat possible_bit_word bit_imp_possible_bit)

lemma sint_nonneg_iff: "0 \<le> sint (w :: i32) \<longleftrightarrow> unat w < 2 ^ 31"
proof -
  have "0 \<le> sint w \<longleftrightarrow> \<not> bit w 31"
    using bit_last_iff [of w] by (simp add: not_less)
  moreover have "unat w < 4294967296"
    using unsigned_less [of w, where ?'a = nat] by simp
  then have "unat w div 2147483648 = (if unat w < 2147483648 then 0 else 1)"
    by (auto simp: div_if)
  ultimately show ?thesis by (simp add: i32_sign_bit)
qed

end
