(* ===== verification/Proto.thy ===== *)
theory Proto
  imports Prelude
begin

text \<open>
  The protocol messages of \<open>PulsarApi.proto\<close> as far as the client builds or inspects them:
  the message identifier, the two kinds of message metadata, the commands, and
  \<open>BaseCommand\<close>, the union every frame carries. A protobuf message is a record with one field
  per proto field; an optional field is an option, a repeated one a list, and \<open>Default\<close> is
  the record with every optional field \<open>None\<close> and every repeated one empty.

  Fields that no line of the client names are kept out of the records of the commands they
  belong to, with one exception: \<open>BaseCommand\<close> keeps the proto tags of the commands above 35
  (authentication challenge, transactions, ...) that a frame may carry, since such a frame is
  one the client receives and does not understand.
\<close>

section \<open>Enumerations\<close>

datatype server_error =
    UnknownError | MetadataError | PersistenceError | ServerAuthenticationError | AuthorizationError
  | ConsumerBusy | ServiceNotReady | ProducerBlockedQuotaExceededError
  | ProducerBlockedQuotaExceededException | ChecksumError | UnsupportedVersionError
  | TopicNotFound | SubscriptionNotFound | ConsumerNotFound | TooManyRequests
  | TopicTerminatedError | ProducerBusy | InvalidTopicName | IncompatibleSchema
  | ConsumerAssignError | TransactionCoordinatorNotFound | InvalidTxnStatus | NotAllowedError
  | TransactionConflict | TransactionNotFound | ProducerFenced

datatype compression_type = CNone | Lz4 | Zlib | Zstd | Snappy

datatype sub_type = Exclusive | Shared | Failover | KeyShared

datatype topics_mode = ModePersistent | ModeNonPersistent | ModeAll

text \<open>The number of an enumeration value in the proto file, which \<open>as i32\<close> reads.\<close>

fun sub_type_code :: "sub_type \<Rightarrow> i32" where
  "sub_type_code Exclusive = 0"
| "sub_type_code Shared = 1"
| "sub_type_code Failover = 2"
| "sub_type_code KeyShared = 3"

fun topics_mode_code :: "topics_mode \<Rightarrow> i32" where
  "topics_mode_code ModePersistent = 0"
| "topics_mode_code ModeNonPersistent = 1"
| "topics_mode_code ModeAll = 2"

text \<open>\<open>base_command::Type\<close>, the values the client knows.\<close>

datatype command_type =
    TConnect | TConnected | TSubscribe | TProducer | TSend | TSendReceipt | TSendError | TMessage
  | TAck | TFlow | TUnsubscribe | TSuccess | TError | TCloseProducer | TCloseConsumer
  | TProducerSuccess | TPing | TPong | TRedeliverUnacknowledgedMessages | TPartitionedMetadata
  | TPartitionedMetadataResponse | TLookup | TLookupResponse | TConsumerStats
  | TConsumerStatsResponse | TReachedEndOfTopic | TSeek | TGetLastMessageId
  | TGetLastMessageIdResponse | TActiveConsumerChange | TGetTopicsOfNamespace
  | TGetTopicsOfNamespaceResponse | TGetSchema | TGetSchemaResponse

fun command_type_code :: "command_type \<Rightarrow> i32" where
  "command_type_code TConnect = 2"
| "command_type_code TConnected = 3"
| "command_type_code TSubscribe = 4"
| "command_type_code TProducer = 5"
| "command_type_code TSend = 6"
| "command_type_code TSendReceipt = 7"
| "command_type_code TSendError = 8"
| "command_type_code TMessage = 9"
| "command_type_code TAck = 10"
| "command_type_code TFlow = 11"
| "command_type_code TUnsubscribe = 12"
| "command_type_code TSuccess = 13"
| "command_type_code TError = 14"
| "command_type_code TCloseProducer = 15"
| "command_type_code TCloseConsumer = 16"
| "command_type_code TProducerSuccess = 17"
| "command_type_code TPing = 18"
| "command_type_code TPong = 19"
| "command_type_code TRedeliverUnacknowledgedMessages = 20"
| "command_type_code TPartitionedMetadata = 21"
| "command_type_code TPartitionedMetadataResponse = 22"
| "command_type_code TLookup = 23"
| "command_type_code TLookupResponse = 24"
| "command_type_code TConsumerStats = 25"
| "command_type_code TConsumerStatsResponse = 26"
| "command_type_code TReachedEndOfTopic = 27"
| "command_type_code TSeek = 28"
| "command_type_code TGetLastMessageId = 29"
| "command_type_code TGetLastMessageIdResponse = 30"
| "command_type_code TActiveConsumerChange = 31"
| "command_type_code TGetTopicsOfNamespace = 32"
| "command_type_code TGetTopicsOfNamespaceResponse = 33"
| "command_type_code TGetSchema = 34"
| "command_type_code TGetSchemaResponse = 35"

section \<open>Message identifiers and metadata\<close>

datatype message_id_data = MessageIdData
  (ledger_id: u64) (entry_id: u64) (partition: "i32 option") (batch_index: "i32 option")
  (ack_set: "i64 list") (id_batch_size: "i32 option")
  (first_chunk_message_id: "message_id_data option")

definition with_batch_index :: "message_id_data \<Rightarrow> i32 option \<Rightarrow> message_id_data" where
  "with_batch_index m i =
     MessageIdData (ledger_id m) (entry_id m) (partition m) i (ack_set m) (id_batch_size m)
       (first_chunk_message_id m)"

type_synonym key_value = "string \<times> string"

record schema =
  schema_name :: string
  schema_data :: bytes
  schema_type :: i32
  schema_properties :: "key_value list"

record encryption_keys =
  ek_key :: string
  ek_value :: bytes
  ek_metadata :: "key_value list"

record message_metadata =
  producer_name :: string
  sequence_id :: u64
  publish_time :: u64
  properties :: "key_value list"
  replicated_from :: "string option"
  partition_key :: "string option"
  replicate_to :: "string list"
  compression :: "i32 option"
  uncompressed_size :: "u32 option"
  num_messages_in_batch :: "i32 option"
  event_time :: "u64 option"
  md_encryption_keys :: "encryption_keys list"
  encryption_algo :: "string option"
  encryption_param :: "bytes option"
  schema_version :: "bytes option"
  ordering_key :: "bytes option"
  deliver_at_time :: "i64 option"

definition default_message_metadata :: message_metadata where
  "default_message_metadata =
     \<lparr>producer_name = '''', sequence_id = 0, publish_time = 0, properties = [],
      replicated_from = None, partition_key = None, replicate_to = [], compression = None,
      uncompressed_size = None, num_messages_in_batch = None, event_time = None,
      md_encryption_keys = [], encryption_algo = None, encryption_param = None,
      schema_version = None, ordering_key = None, deliver_at_time = None\<rparr>"

record single_message_metadata =
  sm_properties :: "key_value list"
  sm_partition_key :: "string option"
  sm_payload_size :: i32
  sm_event_time :: "u64 option"
  sm_ordering_key :: "bytes option"
  sm_sequence_id :: "u64 option"

definition default_single_message_metadata :: single_message_metadata where
  "default_single_message_metadata =
     \<lparr>sm_properties = [], sm_partition_key = None, sm_payload_size = 0, sm_event_time = None,
      sm_ordering_key = None, sm_sequence_id = None\<rparr>"

section \<open>Commands\<close>

record command_connect =
  client_version :: string
  auth_method_name :: "string option"
  auth_data :: "bytes option"
  protocol_version :: "i32 option"
  proxy_to_broker_url :: "string option"

datatype command_connected = CommandConnected (server_version: string)

record command_subscribe =
  sub_topic :: string
  sub_subscription :: string
  sub_sub_type :: i32
  sub_consumer_id :: u64
  sub_request_id :: u64
  sub_consumer_name :: "string option"
  sub_priority_level :: "i32 option"
  sub_durable :: "bool option"
  sub_start_message_id :: "message_id_data option"
  sub_metadata :: "key_value list"
  sub_read_compacted :: "bool option"
  sub_schema :: "schema option"
  sub_initial_position :: "i32 option"

record command_producer =
  prod_topic :: string
  prod_producer_id :: u64
  prod_request_id :: u64
  prod_producer_name :: "string option"
  prod_encrypted :: "bool option"
  prod_metadata :: "key_value list"
  prod_schema :: "schema option"
  prod_access_mode :: "i32 option"

datatype command_send = CommandSend
  (send_producer_id: u64) (send_sequence_id: u64) (send_num_messages: "i32 option")

datatype command_send_receipt = CommandSendReceipt
  (rcpt_producer_id: u64) (rcpt_sequence_id: u64) (rcpt_message_id: "message_id_data option")

datatype command_send_error = CommandSendError
  (serr_producer_id: u64) (serr_sequence_id: u64) (serr_error: i32) (serr_message: string)

datatype command_message = CommandMessage
  (msg_consumer_id: u64) (msg_message_id: message_id_data) (msg_redelivery_count: "u32 option")

datatype command_ack = CommandAck
  (ack_consumer_id: u64) (ack_ack_type: i32) (ack_message_id: "message_id_data list")
  (ack_validation_error: "i32 option") (ack_properties: "(string \<times> u64) list")

datatype command_flow = CommandFlow (flow_consumer_id: u64) (flow_message_permits: u32)

datatype command_unsubscribe = CommandUnsubscribe (unsub_consumer_id: u64) (unsub_request_id: u64)

datatype command_success = CommandSuccess (succ_request_id: u64)

datatype command_error = CommandError (err_request_id: u64) (err_error: i32) (err_message: string)

datatype command_close_producer = CommandCloseProducer
  (cprod_producer_id: u64) (cprod_request_id: u64)

datatype command_close_consumer = CommandCloseConsumer
  (ccons_consumer_id: u64) (ccons_request_id: u64)

datatype command_producer_success = CommandProducerSuccess
  (psucc_request_id: u64) (psucc_producer_name: string) (psucc_producer_ready: "bool option")

datatype command_redeliver = CommandRedeliverUnacknowledgedMessages
  (redel_consumer_id: u64) (redel_message_ids: "message_id_data list")

datatype command_partition_metadata = CommandPartitionedTopicMetadata
  (pm_topic: string) (pm_request_id: u64)

datatype command_partition_metadata_response = CommandPartitionedTopicMetadataResponse
  (pmr_partitions: "u32 option") (pmr_request_id: u64) (pmr_response: "i32 option")
  (pmr_error: "i32 option") (pmr_message: "string option")

datatype command_lookup_topic = CommandLookupTopic
  (lt_topic: string) (lt_request_id: u64) (lt_authoritative: "bool option")

record command_lookup_topic_response =
  ltr_broker_service_url :: "string option"
  ltr_broker_service_url_tls :: "string option"
  ltr_response :: "i32 option"
  ltr_request_id :: u64
  ltr_authoritative :: "bool option"
  ltr_error :: "i32 option"
  ltr_message :: "string option"
  ltr_proxy_through_service_url :: "bool option"

datatype command_consumer_stats = CommandConsumerStats
  (cs_request_id: u64) (cs_consumer_id: u64)

datatype command_consumer_stats_response = CommandConsumerStatsResponse (csr_request_id: u64)

datatype command_reached_end_of_topic = CommandReachedEndOfTopic (reot_consumer_id: u64)

datatype command_seek = CommandSeek
  (seek_consumer_id: u64) (seek_request_id: u64) (seek_message_id: "message_id_data option")
  (seek_message_publish_time: "u64 option")

datatype command_get_last_message_id = CommandGetLastMessageId
  (glm_consumer_id: u64) (glm_request_id: u64)

datatype command_get_last_message_id_response = CommandGetLastMessageIdResponse
  (glmr_last_message_id: message_id_data) (glmr_request_id: u64)

datatype command_active_consumer_change = CommandActiveConsumerChange
  (acc_consumer_id: u64) (acc_is_active: "bool option")

datatype command_get_topics = CommandGetTopicsOfNamespace
  (gt_request_id: u64) (gt_namespace: string) (gt_mode: "i32 option")

datatype command_get_topics_response = CommandGetTopicsOfNamespaceResponse
  (gtr_request_id: u64) (gtr_topics: "string list")

datatype command_get_schema = CommandGetSchema (gs_request_id: u64)

datatype command_get_schema_response = CommandGetSchemaResponse (gsr_request_id: u64)

section \<open>The command union\<close>

record base_command =
  command_type :: i32
  connect :: "command_connect option"
  connected :: "command_connected option"
  subscribe :: "command_subscribe option"
  producer :: "command_producer option"
  send :: "command_send option"
  send_receipt :: "command_send_receipt option"
  send_error :: "command_send_error option"
  message :: "command_message option"
  ack :: "command_ack option"
  flow :: "command_flow option"
  unsubscribe :: "command_unsubscribe option"
  success :: "command_success option"
  error :: "command_error option"
  close_producer :: "command_close_producer option"
  close_consumer :: "command_close_consumer option"
  producer_success :: "command_producer_success option"
  ping :: "unit option"
  pong :: "unit option"
  redeliver_unacknowledged_messages :: "command_redeliver option"
  partition_metadata :: "command_partition_metadata option"
  partition_metadata_response :: "command_partition_metadata_response option"
  lookup_topic :: "command_lookup_topic option"
  lookup_topic_response :: "command_lookup_topic_response option"
  consumer_stats :: "command_consumer_stats option"
  consumer_stats_response :: "command_consumer_stats_response option"
  reached_end_of_topic :: "command_reached_end_of_topic option"
  seek :: "command_seek option"
  get_last_message_id :: "command_get_last_message_id option"
  get_last_message_id_response :: "command_get_last_message_id_response option"
  active_consumer_change :: "command_active_consumer_change option"
  get_topics_of_namespace :: "command_get_topics option"
  get_topics_of_namespace_response :: "command_get_topics_response option"
  get_schema :: "command_get_schema option"
  get_schema_response :: "command_get_schema_response option"
  other_commands :: "nat list"

text \<open>\<open>BaseCommand::default()\<close>: the first value of the enumeration and no command.\<close>

definition default_base_command :: base_command where
  "default_base_command =
     \<lparr>command_type = 2, connect = None, connected = None, subscribe = None, producer = None,
      send = None, send_receipt = None, send_error = None, message = None, ack = None,
      flow = None, unsubscribe = None, success = None, error = None, close_producer = None,
      close_consumer = None, producer_success = None, ping = None, pong = None,
      redeliver_unacknowledged_messages = None, partition_metadata = None,
      partition_metadata_response = None, lookup_topic = None, lookup_topic_response = None,
      consumer_stats = None, consumer_stats_response = None, reached_end_of_topic = None,
      seek = None, get_last_message_id = None, get_last_message_id_response = None,
      active_consumer_change = None, get_topics_of_namespace = None,
      get_topics_of_namespace_response = None, get_schema = None, get_schema_response = None,
      other_commands = []\<rparr>"

declare default_base_command_def [proto_simps]

end
