(* ===== verification/Errors.thy ===== *)
theory Errors
  imports Proto
begin

text \<open>
  \<open>src/error.rs\<close>: the error enumerations and the conversions between them, the decoding of the
  broker's error numbers, the texts errors print, and \<open>SharedError\<close>, the flag and cell every
  owner of a connection shares. A send future is named by the number of its one-shot channel.
\<close>

section \<open>Error types\<close>

text \<open>
  \<open>io::Error\<close> is read through its kind and its text; the two kinds the client tests have a
  constructor. A TLS error is carried and printed, never inspected.
\<close>

datatype io_kind = ConnectionRefused | TimedOut | OtherKind

datatype io_error = IoError (io_kind: io_kind) (io_text: string)

datatype authentication_error = AuthCustom string

datatype connection_error =
    Io io_error
  | Disconnected
  | PulsarError "server_error option" "string option"
  | Unexpected string
  | Decoding string
  | Encoding string
  | SocketAddr string
  | UnexpectedResponse string
  | Tls string
  | ConnAuthentication authentication_error
  | NotFound
  | Canceled
  | Shutdown

datatype consumer_error =
    ConsConnection connection_error
  | MissingPayload string
  | ConsIo io_error
  | ChannelFull
  | Closed
  | BuildError

datatype service_discovery_error =
    SdConnection connection_error
  | Query "server_error option" "string option"
  | SdNotFound
  | DnsLookupError
  | SdCanceled
  | SdShutdown
  | Dummy

type_synonym send_future = nat

text \<open>\<open>ProducerError\<close> and \<open>Error\<close> refer to each other in the source; the parameter \<open>'e\<close> is the
  place of \<open>Error\<close>, which is put in by the datatype after it.\<close>

datatype 'e producer_error =
    ProdConnection connection_error
  | ProdCustom string
  | ProdIo io_error
  | PartialSend "('e + nat) list"
  | Batch 'e
  | Fenced

datatype pulsar_error =
    EConnection connection_error
  | EConsumer consumer_error
  | EProducer "pulsar_error producer_error"
  | EServiceDiscovery service_discovery_error
  | EAuthentication authentication_error
  | ECustom string
  | EExecutor

section \<open>Conversions\<close>

definition connection_error_from_io :: "io_error \<Rightarrow> connection_error" where
  "connection_error_from_io err = Io err"

definition connection_error_from_auth :: "authentication_error \<Rightarrow> connection_error" where
  "connection_error_from_auth err = ConnAuthentication err"

text \<open>A failed send on a futures channel is either because it is full or because it is closed.\<close>

definition consumer_error_from_send :: "bool \<Rightarrow> consumer_error" where
  "consumer_error_from_send is_full = (if is_full then ChannelFull else Closed)"

fun server_error :: "i32 \<Rightarrow> server_error option" where
  "server_error i =
     (if i = 0 then Some UnknownError
      else if i = 1 then Some MetadataError
      else if i = 2 then Some PersistenceError
      else if i = 3 then Some ServerAuthenticationError
      else if i = 4 then Some AuthorizationError
      else if i = 5 then Some ConsumerBusy
      else if i = 6 then Some ServiceNotReady
      else if i = 7 then Some ProducerBlockedQuotaExceededError
      else if i = 8 then Some ProducerBlockedQuotaExceededException
      else if i = 9 then Some ChecksumError
      else if i = 10 then Some UnsupportedVersionError
      else if i = 11 then Some TopicNotFound
      else if i = 12 then Some SubscriptionNotFound
      else if i = 13 then Some ConsumerNotFound
      else if i = 14 then Some TooManyRequests
      else if i = 15 then Some TopicTerminatedError
      else if i = 16 then Some ProducerBusy
      else if i = 17 then Some InvalidTopicName
      else if i = 18 then Some IncompatibleSchema
      else if i = 19 then Some ConsumerAssignError
      else if i = 20 then Some TransactionCoordinatorNotFound
      else if i = 21 then Some InvalidTxnStatus
      else if i = 22 then Some NotAllowedError
      else if i = 23 then Some TransactionConflict
      else if i = 24 then Some TransactionNotFound
      else if i = 25 then Some ProducerFenced
      else None)"

text \<open>The numbers of the enumeration in the proto file.\<close>

fun server_error_code :: "server_error \<Rightarrow> i32" where
  "server_error_code UnknownError = 0"
| "server_error_code MetadataError = 1"
| "server_error_code PersistenceError = 2"
| "server_error_code ServerAuthenticationError = 3"
| "server_error_code AuthorizationError = 4"
| "server_error_code ConsumerBusy = 5"
| "server_error_code ServiceNotReady = 6"
| "server_error_code ProducerBlockedQuotaExceededError = 7"
| "server_error_code ProducerBlockedQuotaExceededException = 8"
| "server_error_code ChecksumError = 9"
| "server_error_code UnsupportedVersionError = 10"
| "server_error_code TopicNotFound = 11"
| "server_error_code SubscriptionNotFound = 12"
| "server_error_code ConsumerNotFound = 13"
| "server_error_code TooManyRequests = 14"
| "server_error_code TopicTerminatedError = 15"
| "server_error_code ProducerBusy = 16"
| "server_error_code InvalidTopicName = 17"
| "server_error_code IncompatibleSchema = 18"
| "server_error_code ConsumerAssignError = 19"
| "server_error_code TransactionCoordinatorNotFound = 20"
| "server_error_code InvalidTxnStatus = 21"
| "server_error_code NotAllowedError = 22"
| "server_error_code TransactionConflict = 23"
| "server_error_code TransactionNotFound = 24"
| "server_error_code ProducerFenced = 25"

section \<open>Sources of errors\<close>

datatype error_source =
    SourceIo io_error
  | SourceConnection connection_error
  | SourceError pulsar_error

fun connection_error_source :: "connection_error \<Rightarrow> error_source option" where
  "connection_error_source (Io e) = Some (SourceIo e)"
| "connection_error_source _ = None"

fun consumer_error_source :: "consumer_error \<Rightarrow> error_source option" where
  "consumer_error_source (ConsConnection e) = Some (SourceConnection e)"
| "consumer_error_source _ = None"

fun service_discovery_error_source :: "service_discovery_error \<Rightarrow> error_source option" where
  "service_discovery_error_source (SdConnection e) = Some (SourceConnection e)"
| "service_discovery_error_source _ = None"

fun producer_error_source :: "pulsar_error producer_error \<Rightarrow> error_source option" where
  "producer_error_source (ProdConnection e) = Some (SourceConnection e)"
| "producer_error_source (ProdIo e) = Some (SourceIo e)"
| "producer_error_source (Batch e) = Some (SourceError e)"
| "producer_error_source (PartialSend parts) =
     (case filter (\<lambda>r. \<not> is_ok r) parts of
        Inl e # _ \<Rightarrow> Some (SourceError e)
      | _ \<Rightarrow> None)"
| "producer_error_source (ProdCustom _) = None"
| "producer_error_source Fenced = None"

fun pulsar_error_source :: "pulsar_error \<Rightarrow> error_source option" where
  "pulsar_error_source (EConnection e) = connection_error_source e"
| "pulsar_error_source (EConsumer e) = consumer_error_source e"
| "pulsar_error_source (EProducer e) = producer_error_source e"
| "pulsar_error_source (EServiceDiscovery e) = service_discovery_error_source e"
| "pulsar_error_source (EAuthentication e) = None"
| "pulsar_error_source (ECustom _) = None"
| "pulsar_error_source EExecutor = None"

section \<open>Error texts\<close>

text \<open>
  \<open>Display\<close> of the error types. The argument \<open>dbg\<close> is the \<open>Debug\<close> text of the generated
  \<open>ServerError\<close> enumeration.
\<close>

definition show_authentication_error :: "authentication_error \<Rightarrow> string" where
  "show_authentication_error e =
     (case e of AuthCustom m \<Rightarrow> ''authentication error ['' @ m @ '']'')"

fun show_connection_error :: "(server_error option \<Rightarrow> string) \<Rightarrow> connection_error \<Rightarrow> string" where
  "show_connection_error dbg (Io e) = io_text e"
| "show_connection_error dbg Disconnected = ''Disconnected''"
| "show_connection_error dbg (PulsarError e s) =
     ''Server error ('' @ dbg e @ ''): '' @ (case s of None \<Rightarrow> '''' | Some t \<Rightarrow> t)"
| "show_connection_error dbg (Unexpected e) = e"
| "show_connection_error dbg (Decoding e) = ''Error decoding message: '' @ e"
| "show_connection_error dbg (Encoding e) = ''Error encoding message: '' @ e"
| "show_connection_error dbg (SocketAddr e) = ''Error obtaining socket address: '' @ e"
| "show_connection_error dbg (Tls e) = ''Error connecting TLS stream: '' @ e"
| "show_connection_error dbg (ConnAuthentication e) =
     ''Error authentication: '' @ show_authentication_error e"
| "show_connection_error dbg (UnexpectedResponse e) = ''Unexpected response from pulsar: '' @ e"
| "show_connection_error dbg NotFound = ''error looking up URL''"
| "show_connection_error dbg Canceled = ''canceled request''"
| "show_connection_error dbg Shutdown = ''The connection was shut down''"

fun show_consumer_error :: "(server_error option \<Rightarrow> string) \<Rightarrow> consumer_error \<Rightarrow> string" where
  "show_consumer_error dbg (ConsConnection e) =
     ''Connection error: '' @ show_connection_error dbg e"
| "show_consumer_error dbg (MissingPayload s) = ''Missing payload: '' @ s"
| "show_consumer_error dbg (ConsIo e) = ''Decompression error: '' @ io_text e"
| "show_consumer_error dbg ChannelFull =
     ''cannot send message to the consumer engine: the channel is full''"
| "show_consumer_error dbg Closed =
     ''cannot send message to the consumer engine: the channel is closed''"
| "show_consumer_error dbg BuildError = ''Error while building the consumer.''"

fun show_service_discovery_error ::
  "(server_error option \<Rightarrow> string) \<Rightarrow> service_discovery_error \<Rightarrow> string" where
  "show_service_discovery_error dbg (SdConnection e) =
     ''Connection error: '' @ show_connection_error dbg e"
| "show_service_discovery_error dbg (Query e s) =
     ''Query error ('' @ dbg e @ ''): '' @ (case s of None \<Rightarrow> '''' | Some t \<Rightarrow> t)"
| "show_service_discovery_error dbg SdNotFound = ''cannot find topic''"
| "show_service_discovery_error dbg DnsLookupError = ''cannot lookup broker address''"
| "show_service_discovery_error dbg SdCanceled = ''canceled request''"
| "show_service_discovery_error dbg SdShutdown = ''service discovery engine not responding''"
| "show_service_discovery_error dbg Dummy = ''placeholder error''"

text \<open>The fold of the partial send's text: how many sends succeeded and how many failed.\<close>

definition partial_send_counts :: "('e + 'a) list \<Rightarrow> nat \<times> nat" where
  "partial_send_counts parts =
     fold (\<lambda>r (s, f). case r of Inr _ \<Rightarrow> (s + 1, f) | Inl _ \<Rightarrow> (s, f + 1)) parts (0, 0)"

function (sequential) show_error :: "(server_error option \<Rightarrow> string) \<Rightarrow> pulsar_error \<Rightarrow> string"
  and show_producer_error :: "(server_error option \<Rightarrow> string) \<Rightarrow> pulsar_error producer_error \<Rightarrow> string"
where
  "show_error dbg (EConnection e) = ''Connection error: '' @ show_connection_error dbg e"
| "show_error dbg (EConsumer e) = ''consumer error: '' @ show_consumer_error dbg e"
| "show_error dbg (EProducer e) = ''producer error: '' @ show_producer_error dbg e"
| "show_error dbg (EServiceDiscovery e) =
     ''service discovery error: '' @ show_service_discovery_error dbg e"
| "show_error dbg (EAuthentication e) =
     ''authentication error: '' @ show_authentication_error e"
| "show_error dbg (ECustom e) = ''error: '' @ e"
| "show_error dbg EExecutor = ''could not spawn task''"
| "show_producer_error dbg (ProdConnection e) =
     ''Connection error: '' @ show_connection_error dbg e"
| "show_producer_error dbg (ProdIo e) = ''Compression error: '' @ io_text e"
| "show_producer_error dbg (ProdCustom s) = ''Custom error: '' @ s"
| "show_producer_error dbg (Batch e) = ''Batch error: '' @ show_error dbg e"
| "show_producer_error dbg (PartialSend parts) =
     (case partial_send_counts parts of (successes, failures) \<Rightarrow>
        ''Partial send error - '' @ show_nat successes @ '' successful, ''
        @ show_nat failures @ '' failed''
        @ (if failures > 0
           then ''first error: ''
                @ hd (concat (map (\<lambda>r. case r of Inl e \<Rightarrow> [show_error dbg e] | Inr _ \<Rightarrow> []) parts))
           else ''''))"
| "show_producer_error dbg Fenced = ''Producer is fenced''"
  by pat_completeness auto

text \<open>The texts of nested errors are those of smaller errors, the ones in the list of a partial send
  too.\<close>

termination
proof (relation "measure (case_sum (\<lambda>(_, e). 2 * size e)
    (\<lambda>(_, p). 2 * size_producer_error size p + 1))", goal_cases)
  case (4 dbg parts x y r a)
  then have "Inl a \<in> set parts"
    by simp
  then have "size a < size_list (size_sum size (\<lambda>_. 0)) parts"
    by (rule size_list_estimation) simp
  then show ?case
    by simp
qed simp_all

text \<open>The debug texts. Those of strings and of the types that derive \<open>Debug\<close> over library types are given;
  \<open>ProducerError\<close> writes its own, and \<open>Error\<close> derives one around it.\<close>

record debug_texts =
  dt_string :: "string \<Rightarrow> string"
  dt_io :: "io_error \<Rightarrow> string"
  dt_connection :: "connection_error \<Rightarrow> string"
  dt_consumer :: "consumer_error \<Rightarrow> string"
  dt_discovery :: "service_discovery_error \<Rightarrow> string"
  dt_authentication :: "authentication_error \<Rightarrow> string"

fun commas :: "string list \<Rightarrow> string" where
  "commas [] = []"
| "commas [x] = x"
| "commas (x # y # xs) = x @ '', '' @ commas (y # xs)"

function (sequential) debug_error :: "debug_texts \<Rightarrow> pulsar_error \<Rightarrow> string"
  and debug_producer_error :: "debug_texts \<Rightarrow> pulsar_error producer_error \<Rightarrow> string"
where
  "debug_error D (EConnection e) = ''Connection('' @ dt_connection D e @ '')''"
| "debug_error D (EConsumer e) = ''Consumer('' @ dt_consumer D e @ '')''"
| "debug_error D (EProducer e) = ''Producer('' @ debug_producer_error D e @ '')''"
| "debug_error D (EServiceDiscovery e) = ''ServiceDiscovery('' @ dt_discovery D e @ '')''"
| "debug_error D (EAuthentication e) = ''Authentication('' @ dt_authentication D e @ '')''"
| "debug_error D (ECustom e) = ''Custom('' @ dt_string D e @ '')''"
| "debug_error D EExecutor = ''Executor''"
| "debug_producer_error D (ProdConnection e) = ''Connection('' @ dt_connection D e @ '')''"
| "debug_producer_error D (ProdCustom s) = ''Custom('' @ dt_string D s @ '')''"
| "debug_producer_error D (ProdIo e) = ''Connection('' @ dt_io D e @ '')''"
| "debug_producer_error D (Batch e) = ''Connection('' @ debug_error D e @ '')''"
| "debug_producer_error D (PartialSend parts) =
     ''PartialSend('' @
     commas (map (\<lambda>r. case r of Inr _ \<Rightarrow> ''Ok(SendFuture)'' | Inl e \<Rightarrow> ''Err('' @ debug_error D e @ '')'') parts) @
     '')''"
| "debug_producer_error D Fenced = ''Producer is fenced''"
  by pat_completeness auto

termination
proof (relation "measure (case_sum (\<lambda>(_, e). 2 * size e)
    (\<lambda>(_, p). 2 * size_producer_error size p + 1))", goal_cases)
  case (4 D parts r a)
  then have "Inl a \<in> set parts" by simp
  then have "size a < size_list (size_sum size (\<lambda>_. 0)) parts"
    by (rule size_list_estimation) simp
  then show ?case by simp
qed simp_all

text \<open>Three different errors of a producer are called a connection error in its debug text; the display text
  tells them apart.\<close>

lemma debug_names_connection:
  "take 11 (debug_producer_error D e) = ''Connection('' \<longleftrightarrow>
     (\<exists>c. e = ProdConnection c) \<or> (\<exists>i. e = ProdIo i) \<or> (\<exists>b. e = Batch b)"
  by (cases e) simp_all

lemma display_names_batch:
  "take 11 (show_producer_error dbg e) = ''Batch error'' \<longleftrightarrow> (\<exists>b. e = Batch b)"
  by (cases e) (simp_all split: prod.split)

section \<open>The shared error cell\<close>

record shared_error =
  error_set :: bool
  shared_cell :: "connection_error option"

definition shared_error_new :: shared_error where
  "shared_error_new = \<lparr>error_set = False, shared_cell = None\<rparr>"

definition shared_error_is_set :: "shared_error \<Rightarrow> bool" where
  "shared_error_is_set s = error_set s"

definition shared_error_remove :: "shared_error \<Rightarrow> connection_error option \<times> shared_error" where
  "shared_error_remove s = (shared_cell s, s\<lparr>shared_cell := None, error_set := False\<rparr>)"

definition shared_error_set :: "connection_error \<Rightarrow> shared_error \<Rightarrow> shared_error" where
  "shared_error_set e s = s\<lparr>shared_cell := Some e, error_set := True\<rparr>"

text \<open>Outside the critical sections of \<open>set\<close> and \<open>remove\<close> the flag says whether the cell is full.\<close>

definition shared_error_inv :: "shared_error \<Rightarrow> bool" where
  "shared_error_inv s \<longleftrightarrow> (error_set s \<longleftrightarrow> shared_cell s \<noteq> None)"

lemmas shared_error_defs [state_simps] =
  shared_error_new_def shared_error_is_set_def shared_error_remove_def shared_error_set_def

section \<open>Lemmas\<close>

lemma server_error_code_inverse: "server_error (server_error_code e) = Some e"
  by (cases e) simp_all

lemma server_error_SomeD: "server_error i = Some e \<Longrightarrow> server_error_code e = i"
  by (auto split: if_splits)

lemma shared_error_inv_new: "shared_error_inv shared_error_new"
  by (simp add: shared_error_inv_def state_simps)

lemma shared_error_inv_set: "shared_error_inv (shared_error_set e s)"
  by (simp add: shared_error_inv_def state_simps)

lemma shared_error_inv_remove: "shared_error_inv (snd (shared_error_remove s))"
  by (simp add: shared_error_inv_def state_simps)

lemma shared_error_set_is_set [simp]: "shared_error_is_set (shared_error_set e s)"
  by (simp add: state_simps)

lemma shared_error_removed [simp]: "\<not> shared_error_is_set (snd (shared_error_remove s))"
  by (simp add: state_simps)

text \<open>Decoding the broker's error numbers is exact. The number of every server error of the
  proto file decodes to that error, and a number decodes to an error only if it is its number; so
  unknown numbers, and only they, decode to nothing.\<close>

theorem server_error_exact: "server_error i = Some e \<longleftrightarrow> i = server_error_code e"
  using server_error_code_inverse server_error_SomeD by blast

end
