(* ===== verification/Message.thy ===== *)
theory Message
  imports Errors
begin

text \<open>
  The first part of \<open>src/message.rs\<close>: a message (command and optional payload), the request key
  that correlates a response with its request, the decoding of command numbers, and the fields
  that the hash of a message identifier reads. The byte level is in the theory \<open>Codec\<close>.
\<close>

section \<open>Messages\<close>

record payload =
  metadata :: message_metadata
  data :: bytes

record pulsar_message =
  command :: base_command
  payload :: "payload option"

section \<open>Request keys\<close>

datatype RequestKey =
    RequestId u64
  | ProducerSend (key_producer_id: u64) (key_sequence_id: u64)
  | Consumer (key_consumer_id: u64)
  | CloseConsumer (key_close_consumer_id: u64) (key_close_request_id: u64)

text \<open>The alternatives of the first arm, in the order of the source.\<close>

definition request_ids :: "base_command \<Rightarrow> u64 option list" where
  "request_ids c =
     [map_option sub_request_id (subscribe c),
      map_option pm_request_id (partition_metadata c),
      map_option pmr_request_id (partition_metadata_response c),
      map_option lt_request_id (lookup_topic c),
      map_option ltr_request_id (lookup_topic_response c),
      map_option prod_request_id (producer c),
      map_option psucc_request_id (producer_success c),
      map_option unsub_request_id (unsubscribe c),
      map_option seek_request_id (seek c),
      map_option cprod_request_id (close_producer c),
      map_option succ_request_id (success c),
      map_option err_request_id (error c),
      map_option cs_request_id (consumer_stats c),
      map_option csr_request_id (consumer_stats_response c),
      map_option glm_request_id (get_last_message_id c),
      map_option glmr_request_id (get_last_message_id_response c),
      map_option gt_request_id (get_topics_of_namespace c),
      map_option gtr_request_id (get_topics_of_namespace_response c),
      map_option gs_request_id (get_schema c),
      map_option gsr_request_id (get_schema_response c)]"

definition producer_keys :: "base_command \<Rightarrow> (u64 \<times> u64) option list" where
  "producer_keys c =
     [map_option (\<lambda>s. (send_producer_id s, send_sequence_id s)) (send c),
      map_option (\<lambda>s. (serr_producer_id s, serr_sequence_id s)) (send_error c),
      map_option (\<lambda>s. (rcpt_producer_id s, rcpt_sequence_id s)) (send_receipt c)]"

definition consumer_keys :: "base_command \<Rightarrow> u64 option list" where
  "consumer_keys c =
     [map_option acc_consumer_id (active_consumer_change c),
      map_option msg_consumer_id (message c),
      map_option flow_consumer_id (flow c),
      map_option redel_consumer_id (redeliver_unacknowledged_messages c),
      map_option reot_consumer_id (reached_end_of_topic c),
      map_option ack_consumer_id (ack c)]"

definition request_key :: "pulsar_message \<Rightarrow> RequestKey option" where
  "request_key m =
     (let c = command m in
      case first_some (request_ids c) of
        Some request_id \<Rightarrow> Some (RequestId request_id)
      | None \<Rightarrow>
        (case first_some (producer_keys c) of
           Some (producer_id, seq_id) \<Rightarrow> Some (ProducerSend producer_id seq_id)
         | None \<Rightarrow>
           (case first_some (consumer_keys c) of
              Some consumer_id \<Rightarrow> Some (Consumer consumer_id)
            | None \<Rightarrow>
              (case close_consumer c of
                 Some (CommandCloseConsumer consumer_id request_id) \<Rightarrow>
                   Some (CloseConsumer consumer_id request_id)
               | None \<Rightarrow> None))))"

lemmas request_key_defs = request_key_def request_ids_def producer_keys_def consumer_keys_def

section \<open>Command numbers\<close>

definition command_type_try_from :: "i32 \<Rightarrow> (unit, command_type) res" where
  "command_type_try_from v =
     (if v = 2 then Inr TConnect
      else if v = 3 then Inr TConnected
      else if v = 4 then Inr TSubscribe
      else if v = 5 then Inr TProducer
      else if v = 6 then Inr TSend
      else if v = 7 then Inr TSendReceipt
      else if v = 8 then Inr TSendError
      else if v = 9 then Inr TMessage
      else if v = 10 then Inr TAck
      else if v = 11 then Inr TFlow
      else if v = 12 then Inr TUnsubscribe
      else if v = 13 then Inr TSuccess
      else if v = 14 then Inr TError
      else if v = 15 then Inr TCloseProducer
      else if v = 16 then Inr TCloseConsumer
      else if v = 17 then Inr TProducerSuccess
      else if v = 18 then Inr TPing
      else if v = 19 then Inr TPong
      else if v = 20 then Inr TRedeliverUnacknowledgedMessages
      else if v = 21 then Inr TPartitionedMetadata
      else if v = 22 then Inr TPartitionedMetadataResponse
      else if v = 23 then Inr TLookup
      else if v = 24 then Inr TLookupResponse
      else if v = 25 then Inr TConsumerStats
      else if v = 26 then Inr TConsumerStatsResponse
      else if v = 27 then Inr TReachedEndOfTopic
      else if v = 28 then Inr TSeek
      else if v = 29 then Inr TGetLastMessageId
      else if v = 30 then Inr TGetLastMessageIdResponse
      else if v = 31 then Inr TActiveConsumerChange
      else if v = 32 then Inr TGetTopicsOfNamespace
      else if v = 33 then Inr TGetTopicsOfNamespaceResponse
      else if v = 34 then Inr TGetSchema
      else if v = 35 then Inr TGetSchemaResponse
      else Inl ())"

text \<open>What \<open>Hash for MessageIdData\<close> feeds to the hasher.\<close>

definition message_id_hash_input ::
  "message_id_data \<Rightarrow> u64 \<times> u64 \<times> i32 option \<times> i32 option \<times> i64 list \<times> i32 option" where
  "message_id_hash_input m =
     (ledger_id m, entry_id m, partition m, batch_index m, ack_set m, id_batch_size m)"

definition encode_error_from :: "string \<Rightarrow> connection_error" where
  "encode_error_from e = Encoding e"

definition decode_error_from :: "string \<Rightarrow> connection_error" where
  "decode_error_from e = Decoding e"

section \<open>Lemmas\<close>

lemma command_type_try_from_code: "command_type_try_from (command_type_code t) = Inr t"
  by (cases t) (simp_all add: command_type_try_from_def)

lemma command_type_try_from_InrD: "command_type_try_from v = Inr t \<Longrightarrow> v = command_type_code t"
  by (auto simp: command_type_try_from_def split: if_splits)

text \<open>A command number is accepted exactly when it is the number the proto file gives to one
  of the 34 commands the client knows, and it is decoded to that command.\<close>

theorem command_type_try_from_exact:
  "command_type_try_from v = Inr t \<longleftrightarrow> v = command_type_code t"
  using command_type_try_from_code command_type_try_from_InrD by blast

text \<open>A message that only carries a close-consumer command has that command's key.\<close>

lemma request_key_CloseConsumer_iff:
  "request_key m = Some (CloseConsumer c r) \<longleftrightarrow>
     close_consumer (command m) = Some (CommandCloseConsumer c r) \<and>
     first_some (request_ids (command m)) = None \<and>
     first_some (producer_keys (command m)) = None \<and>
     first_some (consumer_keys (command m)) = None"
  by (auto simp: request_key_def Let_def
      split: option.splits command_close_consumer.splits prod.splits)

end
