(* ===== verification/Wire.thy ===== *)
theory Wire
  imports Prelude
begin

text \<open>
  The byte-level primitives the codec calls: the streaming parsers \<open>be_u16\<close>, \<open>be_u32\<close> and
  \<open>take\<close> of the crate nom, \<open>get_u32\<close>, \<open>put_u16\<close> and \<open>put_u32\<close> of the crate bytes, the CRC of
  the crate crc, and \<open>encoded_len\<close>, \<open>encode\<close> and \<open>decode\<close> of the prost-generated messages.
  They are parameters: the two records below. What the codec relies on is the locale
  \<open>wire_format\<close>, the documented behaviour of the byte primitives, and the predicate
  \<open>prost_inverse\<close>. The instance \<open>be_wire\<close> shows that the contract can be met.
\<close>

section \<open>Parameters\<close>

datatype nom_error = Incomplete | ErrMapRes | ErrVerify

record wire =
  w_be_u16 :: "bytes \<Rightarrow> (nom_error, bytes \<times> u16) res"
  w_be_u32 :: "bytes \<Rightarrow> (nom_error, bytes \<times> u32) res"
  w_take :: "nat \<Rightarrow> bytes \<Rightarrow> (nom_error, bytes \<times> bytes) res"
  w_get_u32 :: "bytes \<Rightarrow> u32"
  w_put_u16 :: "u16 \<Rightarrow> bytes"
  w_put_u32 :: "u32 \<Rightarrow> bytes"
  w_checksum :: "bytes \<Rightarrow> u32"
  w_debug :: "nom_error \<Rightarrow> string"

record 'm prost =
  encoded_len :: "'m \<Rightarrow> nat"
  p_encode :: "'m \<Rightarrow> (string, bytes) res"
  p_decode :: "bytes \<Rightarrow> (string, 'm) res"

text \<open>
  What prost documents for a message it encodes into a growing buffer: it succeeds, writes
  \<open>encoded_len\<close> bytes, and decoding them gives the message back.
\<close>

definition prost_inverse :: "'m prost \<Rightarrow> 'm \<Rightarrow> bool" where
  "prost_inverse P m \<longleftrightarrow>
     (case p_encode P m of
        Inl _ \<Rightarrow> False
      | Inr bs \<Rightarrow> length bs = encoded_len P m \<and> p_decode P bs = Inr m)"

lemma prost_inverseE:
  assumes "prost_inverse P m"
  obtains bs where "p_encode P m = Inr bs" "length bs = encoded_len P m" "p_decode P bs = Inr m"
  using assms by (auto simp: prost_inverse_def split: sum.splits)

section \<open>The contract of the byte primitives\<close>

locale wire_format =
  fixes W :: wire
  assumes be_u16_put: "w_be_u16 W (w_put_u16 W a @ r) = Inr (r, a)"
    and be_u16_short: "length i < 2 \<Longrightarrow> w_be_u16 W i = Inl Incomplete"
    and be_u32_put: "w_be_u32 W (w_put_u32 W n @ r) = Inr (r, n)"
    and be_u32_short: "length i < 4 \<Longrightarrow> w_be_u32 W i = Inl Incomplete"
    and take_enough: "k \<le> length i \<Longrightarrow> w_take W k i = Inr (drop k i, take k i)"
    and take_short: "length i < k \<Longrightarrow> w_take W k i = Inl Incomplete"
    and get_u32_put: "w_get_u32 W (w_put_u32 W n @ r) = n"
    and length_put_u16: "length (w_put_u16 W a) = 2"
    and length_put_u32: "length (w_put_u32 W n) = 4"
    and put_u16_onto: "length i = 2 \<Longrightarrow> \<exists>a. i = w_put_u16 W a"
    and put_u32_onto: "length i = 4 \<Longrightarrow> \<exists>n. i = w_put_u32 W n"
begin

lemmas wire_laws = be_u16_put be_u16_short be_u32_put be_u32_short take_enough take_short
  get_u32_put length_put_u16 length_put_u32

lemma put_u32_split:
  assumes "4 \<le> length i"
  obtains n where "i = w_put_u32 W n @ drop 4 i"
proof -
  from assms have "length (take 4 i) = 4" by simp
  then obtain n where "take 4 i = w_put_u32 W n" using put_u32_onto by blast
  then have "i = w_put_u32 W n @ drop 4 i" by (metis append_take_drop_id)
  then show ?thesis by (rule that)
qed

lemma put_u16_split:
  assumes "2 \<le> length i"
  obtains a where "i = w_put_u16 W a @ drop 2 i"
proof -
  from assms have "length (take 2 i) = 2" by simp
  then obtain a where "take 2 i = w_put_u16 W a" using put_u16_onto by blast
  then have "i = w_put_u16 W a @ drop 2 i" by (metis append_take_drop_id)
  then show ?thesis by (rule that)
qed

lemma take_printed: "w_take W (length xs) (xs @ r) = Inr (r, xs)"
  by (simp add: take_enough)

end

section \<open>Big-endian numbers\<close>

fun to_be :: "nat \<Rightarrow> nat \<Rightarrow> bytes" where
  "to_be 0 n = []"
| "to_be (Suc k) n = to_be k (n div 256) @ [of_nat (n mod 256)]"

lemma to_be_2: "to_be 2 n = [of_nat (n div 256 mod 256), of_nat (n mod 256)]"
proof -
  have two: "(2 :: nat) = Suc (Suc 0)" by simp
  show ?thesis unfolding two to_be.simps by simp
qed

lemma to_be_4:
  "to_be 4 n =
     [of_nat (n div 16777216 mod 256), of_nat (n div 65536 mod 256), of_nat (n div 256 mod 256),
      of_nat (n mod 256)]"
proof -
  have four: "(4 :: nat) = Suc (Suc (Suc (Suc 0)))" by simp
  have "n div 256 div 256 = n div 65536" "n div 65536 div 256 = n div 16777216"
    by (simp_all flip: div_mult2_eq)
  then show ?thesis unfolding four to_be.simps by simp
qed

definition from_be :: "bytes \<Rightarrow> nat" where
  "from_be bs = foldl (\<lambda>a b. a * 256 + unat b) 0 bs"

lemma length_to_be [simp]: "length (to_be k n) = k"
  by (induction k arbitrary: n) simp_all

lemma from_be_snoc: "from_be (bs @ [b]) = from_be bs * 256 + unat b"
  by (simp add: from_be_def)

lemma unat_byte_mod: "unat (of_nat (n mod 256) :: byte) = n mod 256"
  by (simp add: unat_of_nat take_bit_nat_def)

lemma from_be_to_be: "from_be (to_be k n) = n mod 256 ^ k"
proof (induction k arbitrary: n)
  case 0
  show ?case by (simp add: from_be_def)
next
  case (Suc k)
  show ?case
    by (simp add: from_be_snoc Suc.IH unat_byte_mod mod_mult2_eq mult.commute)
qed

lemma to_be_from_be: "length bs = k \<Longrightarrow> to_be k (from_be bs) = bs"
proof (induction bs arbitrary: k rule: rev_induct)
  case Nil
  then show ?case by simp
next
  case (snoc b bs)
  have "unat b < 256" using unsigned_less [of b] by simp
  with snoc show ?case by (cases k) (simp_all add: from_be_snoc)
qed

lemma from_be_less: "from_be bs < 256 ^ length bs"
proof (induction bs rule: rev_induct)
  case Nil
  then show ?case by (simp add: from_be_def)
next
  case (snoc b bs)
  have "unat b < 256" using unsigned_less [of b] by simp
  with snoc show ?case by (simp add: from_be_snoc)
qed

section \<open>An instance\<close>

definition be_wire :: wire where
  "be_wire =
     \<lparr>w_be_u16 = (\<lambda>i. if length i < 2 then Inl Incomplete
                      else Inr (drop 2 i, of_nat (from_be (take 2 i)))),
      w_be_u32 = (\<lambda>i. if length i < 4 then Inl Incomplete
                      else Inr (drop 4 i, of_nat (from_be (take 4 i)))),
      w_take = (\<lambda>n i. if length i < n then Inl Incomplete else Inr (drop n i, take n i)),
      w_get_u32 = (\<lambda>i. of_nat (from_be (take 4 i))),
      w_put_u16 = (\<lambda>n. to_be 2 (unat n)),
      w_put_u32 = (\<lambda>n. to_be 4 (unat n)),
      w_checksum = (\<lambda>bs. of_nat (from_be bs)),
      w_debug = (\<lambda>e. '''')\<rparr>"

lemma unat_mod_u16: "unat (n :: u16) mod 65536 = unat n"
  using unsigned_less [of n, where ?'a = nat] by simp

lemma unat_mod_u32: "unat (n :: u32) mod 4294967296 = unat n"
  using unsigned_less [of n, where ?'a = nat] by simp

interpretation be: wire_format be_wire
proof
  fix i :: bytes
  assume len: "length i = 2"
  have "unat (of_nat (from_be i) :: u16) = from_be i"
    using from_be_less [of i] len by (simp add: unat_of_nat take_bit_nat_eq_self)
  with len have "i = w_put_u16 be_wire (of_nat (from_be i))"
    by (simp add: be_wire_def to_be_from_be)
  then show "\<exists>a. i = w_put_u16 be_wire a" by blast
next
  fix i :: bytes
  assume len: "length i = 4"
  have "unat (of_nat (from_be i) :: u32) = from_be i"
    using from_be_less [of i] len by (simp add: unat_of_nat take_bit_nat_eq_self)
  with len have "i = w_put_u32 be_wire (of_nat (from_be i))"
    by (simp add: be_wire_def to_be_from_be)
  then show "\<exists>n. i = w_put_u32 be_wire n" by blast
qed (simp_all add: be_wire_def from_be_to_be unat_mod_u16 unat_mod_u32)

end
