(* ===== verification/Codec.thy ===== *)
theory Codec
  imports Message Wire
begin

text \<open>
  The second part of \<open>src/message.rs\<close>: the frame codec (\<open>Encoder\<close> and \<open>Decoder\<close> for the tokio
  and for the async-std runtime), the frame parsers, and the batch format in which a producer
  packs several messages into one payload and from which a consumer unpacks them. The
  combinators \<open>map_res\<close>, \<open>verify\<close> and \<open>count\<close> of nom are written out.
\<close>

section \<open>Frames\<close>

record CommandFrame =
  total_size :: u32
  command_size :: u32
  frame_command :: bytes

definition command_frame :: "wire \<Rightarrow> bytes \<Rightarrow> (nom_error, bytes \<times> CommandFrame) res" where
  "command_frame W i =
     bind_res (w_be_u32 W i) (\<lambda>(i, total).
     bind_res (w_be_u32 W i) (\<lambda>(i, size).
     bind_res (w_take W (unat size) i) (\<lambda>(i, cmd).
       Inr (i, \<lparr>total_size = total, command_size = size, frame_command = cmd\<rparr>))))"

record PayloadFrame =
  magic_number :: u16
  checksum :: u32
  metadata_size :: u32
  frame_metadata :: bytes

definition payload_frame :: "wire \<Rightarrow> bytes \<Rightarrow> (nom_error, bytes \<times> PayloadFrame) res" where
  "payload_frame W i =
     bind_res (w_be_u16 W i) (\<lambda>(i, magic).
     bind_res (w_be_u32 W i) (\<lambda>(i, crc).
     bind_res (w_be_u32 W i) (\<lambda>(i, size).
     bind_res (w_take W (unat size) i) (\<lambda>(i, md).
       Inr (i, \<lparr>magic_number = magic, checksum = crc, metadata_size = size,
                frame_metadata = md\<rparr>)))))"

section \<open>Encoder and decoder\<close>

text \<open>The encoder appends the frame to the destination buffer.\<close>

definition encode ::
  "wire \<Rightarrow> base_command prost \<Rightarrow> message_metadata prost \<Rightarrow> pulsar_message \<Rightarrow> bytes
     \<Rightarrow> (connection_error, bytes) res" where
  "encode W P M item dst =
     (let cmd_size = encoded_len P (command item);
          md_size = (case payload item of None \<Rightarrow> 0 | Some p \<Rightarrow> encoded_len M (metadata p));
          payload_size = (case payload item of None \<Rightarrow> 0 | Some p \<Rightarrow> length (data p));
          header_size = (if payload item \<noteq> None then 18 else 8);
          total = cmd_size + md_size + payload_size + header_size - 4;
          buf = w_put_u32 W (of_nat total) @ w_put_u32 W (of_nat cmd_size)
      in bind_res (map_err encode_error_from (p_encode P (command item))) (\<lambda>cmd.
         let buf = buf @ cmd in
         case payload item of
           None \<Rightarrow> Inr (dst @ buf)
         | Some p \<Rightarrow>
             (let buf = buf @ w_put_u16 W 0x0e01;
                  crc_offset = length buf;
                  buf = buf @ w_put_u32 W 0;
                  metadata_offset = length buf;
                  buf = buf @ w_put_u32 W (of_nat md_size)
              in bind_res (map_err encode_error_from (p_encode M (metadata p))) (\<lambda>md.
                 let buf = buf @ md @ data p;
                     crc = w_checksum W (drop metadata_offset buf);
                     buf = take crc_offset buf @ w_put_u32 W crc @ drop metadata_offset buf
                 in Inr (dst @ buf)))))"

text \<open>The decoder returns its result and what is left in the source buffer.\<close>

definition decode ::
  "wire \<Rightarrow> base_command prost \<Rightarrow> message_metadata prost \<Rightarrow> bytes
     \<Rightarrow> (connection_error, pulsar_message option) res \<times> bytes" where
  "decode W P M src =
     (if length src \<ge> 4 then
        let message_size = unat (w_get_u32 W src) + 4 in
        if length src \<ge> message_size then
          let msg =
            bind_res (map_err (\<lambda>err. Decoding (''Error decoding command frame: '' @ w_debug W err))
                        (command_frame W (take message_size src))) (\<lambda>(buf, frame).
            bind_res (map_err decode_error_from (p_decode P (frame_command frame))) (\<lambda>cmd.
            if buf \<noteq> [] then
              bind_res (map_err (\<lambda>err. Decoding (''Error decoding payload frame: '' @ w_debug W err))
                          (payload_frame W buf)) (\<lambda>(buf, frame).
              bind_res (map_err decode_error_from (p_decode M (frame_metadata frame))) (\<lambda>md.
                Inr \<lparr>command = cmd, payload = Some \<lparr>metadata = md, data = buf\<rparr>\<rparr>))
            else Inr \<lparr>command = cmd, payload = None\<rparr>))
          in (case msg of
                Inl e \<Rightarrow> (Inl e, src)
              | Inr m \<Rightarrow> (Inr (Some m), drop message_size src))
        else (Inr None, src)
      else (Inr None, src))"

text \<open>The codec of the async-std runtime is a second implementation of the same two traits.\<close>

definition async_std_encode ::
  "wire \<Rightarrow> base_command prost \<Rightarrow> message_metadata prost \<Rightarrow> pulsar_message \<Rightarrow> bytes
     \<Rightarrow> (connection_error, bytes) res" where
  "async_std_encode W P M item dst =
     (let cmd_size = encoded_len P (command item);
          md_size = (case payload item of None \<Rightarrow> 0 | Some p \<Rightarrow> encoded_len M (metadata p));
          payload_size = (case payload item of None \<Rightarrow> 0 | Some p \<Rightarrow> length (data p));
          header_size = (if payload item \<noteq> None then 18 else 8);
          total = cmd_size + md_size + payload_size + header_size - 4
      in case p_encode P (command item) of
           Inl e \<Rightarrow> Inl (encode_error_from e)
         | Inr cmd \<Rightarrow>
             (let buf = w_put_u32 W (of_nat total) @ w_put_u32 W (of_nat cmd_size) @ cmd in
              case payload item of
                None \<Rightarrow> Inr (dst @ buf)
              | Some p \<Rightarrow>
                  (let crc_offset = length (buf @ w_put_u16 W 0x0e01);
                       metadata_offset = length (buf @ w_put_u16 W 0x0e01 @ w_put_u32 W 0)
                   in case p_encode M (metadata p) of
                        Inl e \<Rightarrow> Inl (encode_error_from e)
                      | Inr md \<Rightarrow>
                          (let buf = buf @ w_put_u16 W 0x0e01 @ w_put_u32 W 0
                                 @ w_put_u32 W (of_nat md_size) @ md @ data p;
                               crc = w_checksum W (drop metadata_offset buf)
                           in Inr (dst @ take crc_offset buf @ w_put_u32 W crc
                                     @ drop metadata_offset buf)))))"

definition async_std_decode ::
  "wire \<Rightarrow> base_command prost \<Rightarrow> message_metadata prost \<Rightarrow> bytes
     \<Rightarrow> (connection_error, pulsar_message option) res \<times> bytes" where
  "async_std_decode W P M src =
     (if length src < 4 \<or> length src < unat (w_get_u32 W src) + 4 then (Inr None, src)
      else
        let message_size = unat (w_get_u32 W src) + 4 in
        case command_frame W (take message_size src) of
          Inl err \<Rightarrow> (Inl (Decoding (''Error decoding command frame: '' @ w_debug W err)), src)
        | Inr (buf, frame) \<Rightarrow>
            (case p_decode P (frame_command frame) of
               Inl e \<Rightarrow> (Inl (decode_error_from e), src)
             | Inr cmd \<Rightarrow>
                 (if buf = [] then
                    (Inr (Some \<lparr>command = cmd, payload = None\<rparr>), drop message_size src)
                  else case payload_frame W buf of
                    Inl err \<Rightarrow>
                      (Inl (Decoding (''Error decoding payload frame: '' @ w_debug W err)), src)
                  | Inr (rest, frame) \<Rightarrow>
                      (case p_decode M (frame_metadata frame) of
                         Inl e \<Rightarrow> (Inl (decode_error_from e), src)
                       | Inr md \<Rightarrow>
                           (Inr (Some \<lparr>command = cmd,
                                       payload = Some \<lparr>metadata = md, data = rest\<rparr>\<rparr>),
                            drop message_size src)))))"

section \<open>Batches\<close>

record BatchedMessage =
  bm_metadata :: single_message_metadata
  bm_payload :: bytes

definition batched_message ::
  "wire \<Rightarrow> single_message_metadata prost \<Rightarrow> bytes \<Rightarrow> (nom_error, bytes \<times> BatchedMessage) res"
where
  "batched_message W S i =
     bind_res (w_be_u32 W i) (\<lambda>(i, size).
     bind_res (w_take W (unat size) i) (\<lambda>(i, md_bytes).
     case p_decode S md_bytes of
       Inl _ \<Rightarrow> Inl ErrMapRes
     | Inr md \<Rightarrow>
         if 0 \<le> sint (sm_payload_size md) then
           bind_res (w_take W (unat (sm_payload_size md)) i) (\<lambda>(i, pl).
             Inr (i, \<lparr>bm_metadata = md, bm_payload = pl\<rparr>))
         else Inl ErrVerify))"

text \<open>\<open>nom::multi::count\<close> on \<open>batched_message\<close>.\<close>

fun count_batched ::
  "wire \<Rightarrow> single_message_metadata prost \<Rightarrow> nat \<Rightarrow> bytes
     \<Rightarrow> (nom_error, bytes \<times> BatchedMessage list) res" where
  "count_batched W S 0 i = Inr (i, [])"
| "count_batched W S (Suc n) i =
     (case batched_message W S i of
        Inl e \<Rightarrow> Inl e
      | Inr (i, m) \<Rightarrow>
          (case count_batched W S n i of
             Inl e \<Rightarrow> Inl e
           | Inr (i, ms) \<Rightarrow> Inr (i, m # ms)))"

definition parse_batched_message ::
  "wire \<Rightarrow> single_message_metadata prost \<Rightarrow> u32 \<Rightarrow> bytes
     \<Rightarrow> (connection_error, BatchedMessage list) res" where
  "parse_batched_message W S n bs =
     (case count_batched W S (unat n) bs of
        Inl err \<Rightarrow> Inl (Decoding (''Error decoding batched messages: '' @ w_debug W err))
      | Inr (_, ms) \<Rightarrow> Inr ms)"

text \<open>\<open>serialize\<close> appends to the vector; a failing \<open>encode\<close> is ignored and appends nothing.\<close>

definition serialize ::
  "wire \<Rightarrow> single_message_metadata prost \<Rightarrow> BatchedMessage \<Rightarrow> bytes \<Rightarrow> bytes" where
  "serialize W S m w =
     w @ w_put_u32 W (of_nat (encoded_len S (bm_metadata m)))
       @ (case p_encode S (bm_metadata m) of Inl _ \<Rightarrow> [] | Inr bs \<Rightarrow> bs)
       @ bm_payload m"

section \<open>The frame format\<close>

text \<open>
  The specification side: the size field of a frame, the bytes of a frame whose checksum field
  holds \<open>x\<close>, and when a message fits the format at all.
\<close>

definition frame_size :: "base_command prost \<Rightarrow> message_metadata prost \<Rightarrow> pulsar_message \<Rightarrow> nat" where
  "frame_size P M m =
     encoded_len P (command m)
     + (case payload m of None \<Rightarrow> 4 | Some p \<Rightarrow> encoded_len M (metadata p) + length (data p) + 14)"

definition checksummed :: "wire \<Rightarrow> message_metadata prost \<Rightarrow> payload \<Rightarrow> bytes" where
  "checksummed W M p =
     w_put_u32 W (of_nat (encoded_len M (metadata p))) @ projr (p_encode M (metadata p)) @ data p"

definition frame_bytes ::
  "wire \<Rightarrow> base_command prost \<Rightarrow> message_metadata prost \<Rightarrow> u32 \<Rightarrow> pulsar_message \<Rightarrow> bytes" where
  "frame_bytes W P M x m =
     w_put_u32 W (of_nat (frame_size P M m))
     @ w_put_u32 W (of_nat (encoded_len P (command m)))
     @ projr (p_encode P (command m))
     @ (case payload m of
          None \<Rightarrow> []
        | Some p \<Rightarrow> w_put_u16 W 0x0e01 @ w_put_u32 W x @ checksummed W M p)"

definition frame_checksum :: "wire \<Rightarrow> message_metadata prost \<Rightarrow> pulsar_message \<Rightarrow> u32" where
  "frame_checksum W M m =
     (case payload m of None \<Rightarrow> 0 | Some p \<Rightarrow> w_checksum W (checksummed W M p))"

definition encodable :: "base_command prost \<Rightarrow> message_metadata prost \<Rightarrow> pulsar_message \<Rightarrow> bool" where
  "encodable P M m \<longleftrightarrow>
     prost_inverse P (command m) \<and>
     (case payload m of None \<Rightarrow> True | Some p \<Rightarrow> prost_inverse M (metadata p)) \<and>
     frame_size P M m < 2 ^ 32"

lemma encodableE:
  assumes "encodable P M m"
  obtains cmd where "p_encode P (command m) = Inr cmd" "length cmd = encoded_len P (command m)"
    "p_decode P cmd = Inr (command m)" "encoded_len P (command m) < 2 ^ 32"
    "frame_size P M m < 2 ^ 32"
  using assms by (auto simp: encodable_def frame_size_def split: option.splits elim!: prost_inverseE)

lemma encodable_payloadE:
  assumes "encodable P M m" and "payload m = Some p"
  obtains md where "p_encode M (metadata p) = Inr md" "length md = encoded_len M (metadata p)"
    "p_decode M md = Inr (metadata p)" "encoded_len M (metadata p) < 2 ^ 32"
  using assms by (auto simp: encodable_def frame_size_def elim!: prost_inverseE)

lemma async_std_encode_eq: "async_std_encode W P M item dst = encode W P M item dst"
  by (simp add: async_std_encode_def encode_def Let_def split: option.split sum.split)

lemma async_std_decode_eq: "async_std_decode W P M src = decode W P M src"
  by (auto simp: async_std_decode_def decode_def Let_def not_le split: sum.split prod.split)

text \<open>
  The successive calls a framed transport makes: encoding messages one after the other into one
  buffer, and calling the decoder \<open>n\<close> times on what it leaves.
\<close>

fun encode_all ::
  "wire \<Rightarrow> base_command prost \<Rightarrow> message_metadata prost \<Rightarrow> pulsar_message list \<Rightarrow> bytes
     \<Rightarrow> (connection_error, bytes) res" where
  "encode_all W P M [] dst = Inr dst"
| "encode_all W P M (m # ms) dst = bind_res (encode W P M m dst) (encode_all W P M ms)"

fun decode_calls ::
  "wire \<Rightarrow> base_command prost \<Rightarrow> message_metadata prost \<Rightarrow> nat \<Rightarrow> bytes
     \<Rightarrow> (connection_error, pulsar_message option) res list \<times> bytes" where
  "decode_calls W P M 0 src = ([], src)"
| "decode_calls W P M (Suc n) src =
     (case decode W P M src of (r, src) \<Rightarrow>
        case decode_calls W P M n src of (rs, src) \<Rightarrow> (r # rs, src))"

text \<open>When a batched message fits the batch format.\<close>

definition batchable :: "single_message_metadata prost \<Rightarrow> BatchedMessage \<Rightarrow> bool" where
  "batchable S m \<longleftrightarrow>
     prost_inverse S (bm_metadata m) \<and> encoded_len S (bm_metadata m) < 2 ^ 32 \<and>
     unat (sm_payload_size (bm_metadata m)) = length (bm_payload m) \<and>
     length (bm_payload m) < 2 ^ 31"

lemma serialize_append: "serialize W S m w = w @ serialize W S m []"
  by (simp add: serialize_def)

lemma fold_serialize: "fold (serialize W S) ms w = w @ concat (map (\<lambda>m. serialize W S m []) ms)"
proof (induction ms arbitrary: w)
  case Nil
  show ?case by simp
next
  case (Cons m ms)
  have "fold (serialize W S) (m # ms) w = fold (serialize W S) ms (w @ serialize W S m [])"
    by (simp add: serialize_append [of W S m w])
  with Cons.IH show ?case by simp
qed

context wire_format
begin

lemma command_frame_printed:
  assumes "length cmd = unat n"
  shows "command_frame W (w_put_u32 W t @ w_put_u32 W n @ cmd @ r) =
    Inr (r, \<lparr>total_size = t, command_size = n, frame_command = cmd\<rparr>)"
  using assms by (simp add: command_frame_def wire_laws)

lemma payload_frame_printed:
  assumes "length md = unat n"
  shows "payload_frame W (w_put_u16 W a @ w_put_u32 W x @ w_put_u32 W n @ md @ r) =
    Inr (r, \<lparr>magic_number = a, checksum = x, metadata_size = n, frame_metadata = md\<rparr>)"
  using assms by (simp add: payload_frame_def wire_laws)

lemma length_frame_bytes:
  assumes "encodable P M m"
  shows "length (frame_bytes W P M x m) = frame_size P M m + 4"
proof (cases "payload m")
  case None
  with assms show ?thesis
    by (auto simp: frame_bytes_def frame_size_def wire_laws elim!: encodableE)
next
  case (Some p)
  from assms Some obtain md where "p_encode M (metadata p) = Inr md"
    "length md = encoded_len M (metadata p)"
    by (rule encodable_payloadE)
  with assms Some show ?thesis
    by (auto simp: frame_bytes_def frame_size_def checksummed_def wire_laws elim!: encodableE)
qed

lemma encode_layout:
  assumes "encodable P M m"
  shows "encode W P M m dst = Inr (dst @ frame_bytes W P M (frame_checksum W M m) m)"
proof (cases "payload m")
  case None
  with assms show ?thesis
    by (auto simp: encode_def frame_bytes_def frame_size_def Let_def add.commute elim!: encodableE)
next
  case (Some p)
  from assms obtain cmd where "p_encode P (command m) = Inr cmd" by (rule encodableE)
  moreover from assms Some obtain md where "p_encode M (metadata p) = Inr md"
    by (rule encodable_payloadE)
  ultimately show ?thesis
    using Some
    by (simp add: encode_def frame_bytes_def frame_size_def frame_checksum_def checksummed_def
        Let_def wire_laws add.commute add.left_commute)
qed

lemma decode_frame:
  assumes "encodable P M m"
  shows "decode W P M (frame_bytes W P M x m @ rest) = (Inr (Some m), rest)"
proof -
  let ?f = "frame_bytes W P M x m"
  from assms obtain cmd where cmd: "p_encode P (command m) = Inr cmd"
    "length cmd = encoded_len P (command m)" "p_decode P cmd = Inr (command m)"
    and small: "encoded_len P (command m) < 2 ^ 32" "frame_size P M m < 2 ^ 32"
    by (rule encodableE)
  have len: "length ?f = frame_size P M m + 4"
    using assms by (rule length_frame_bytes)
  have get: "unat (w_get_u32 W (?f @ rest)) + 4 = length ?f"
    using small len by (simp add: frame_bytes_def wire_laws)
  have tk: "take (length ?f) (?f @ rest) = ?f" by simp
  show ?thesis
  proof (cases "payload m")
    case None
    then have "command_frame W ?f = Inr ([], \<lparr>total_size = of_nat (frame_size P M m),
        command_size = of_nat (encoded_len P (command m)), frame_command = cmd\<rparr>)"
      using command_frame_printed [where cmd = cmd and r = "[]"] cmd small
      by (simp add: frame_bytes_def)
    with None cmd get tk len show ?thesis
      by (simp add: decode_def Let_def)
  next
    case (Some p)
    from assms Some obtain md where md: "p_encode M (metadata p) = Inr md"
      "length md = encoded_len M (metadata p)" "p_decode M md = Inr (metadata p)"
      "encoded_len M (metadata p) < 2 ^ 32"
      by (rule encodable_payloadE)
    let ?r = "w_put_u16 W 0x0e01 @ w_put_u32 W x @ w_put_u32 W (of_nat (length md)) @ md @ data p"
    have "command_frame W ?f = Inr (?r, \<lparr>total_size = of_nat (frame_size P M m),
        command_size = of_nat (encoded_len P (command m)), frame_command = cmd\<rparr>)"
      using command_frame_printed [where cmd = cmd and r = ?r] cmd small md Some
      by (simp add: frame_bytes_def checksummed_def)
    moreover have "payload_frame W ?r = Inr (data p, \<lparr>magic_number = 0x0e01, checksum = x,
        metadata_size = of_nat (length md), frame_metadata = md\<rparr>)"
      using payload_frame_printed [where md = md and r = "data p"] md by simp
    moreover have "?r \<noteq> []" using length_put_u16 [of "0x0e01"] by auto
    ultimately show ?thesis
      using Some cmd md get tk len by (simp add: decode_def Let_def)
  qed
qed

lemma decode_frame_prefix:
  assumes "encodable P M m" and "n < length (frame_bytes W P M x m)"
  shows "decode W P M (take n (frame_bytes W P M x m)) = (Inr None, take n (frame_bytes W P M x m))"
proof (cases "n < 4")
  case True
  then show ?thesis by (simp add: decode_def)
next
  case False
  let ?f = "frame_bytes W P M x m"
  let ?tl = "drop 4 ?f"
  from assms(1) have small: "frame_size P M m < 2 ^ 32" by (rule encodableE)
  have "take n ?f = w_put_u32 W (of_nat (frame_size P M m)) @ take (n - 4) ?tl"
    using False by (simp add: frame_bytes_def wire_laws take_append)
  then have "unat (w_get_u32 W (take n ?f)) + 4 = length ?f"
    using small length_frame_bytes [OF assms(1), of x] by (simp add: wire_laws)
  with assms(2) show ?thesis by (simp add: decode_def Let_def)
qed

lemma decode_calls_frames:
  assumes "\<forall>m \<in> set ms. encodable P M m"
  shows "decode_calls W P M (length ms)
      (concat (map (\<lambda>m. frame_bytes W P M (frame_checksum W M m) m) ms) @ rest) =
    (map (\<lambda>m. Inr (Some m)) ms, rest)"
  using assms by (induction ms) (simp_all add: decode_frame)

lemma encode_all_layout:
  assumes "\<forall>m \<in> set ms. encodable P M m"
  shows "encode_all W P M ms dst =
    Inr (dst @ concat (map (\<lambda>m. frame_bytes W P M (frame_checksum W M m) m) ms))"
  using assms by (induction ms arbitrary: dst) (simp_all add: encode_layout)

lemma batched_message_printed:
  assumes "batchable S m"
  shows "batched_message W S (serialize W S m [] @ r) = Inr (r, m)"
proof -
  from assms obtain md where "p_encode S (bm_metadata m) = Inr md"
    "length md = encoded_len S (bm_metadata m)" "p_decode S md = Inr (bm_metadata m)"
    by (auto simp: batchable_def elim: prost_inverseE)
  moreover from assms have "unat (sm_payload_size (bm_metadata m)) = length (bm_payload m)"
    "length (bm_payload m) < 2 ^ 31" "encoded_len S (bm_metadata m) < 2 ^ 32"
    by (auto simp: batchable_def)
  ultimately show ?thesis
    by (simp add: batched_message_def serialize_def wire_laws sint_nonneg_iff)
qed

lemma count_batched_printed:
  assumes "\<forall>m \<in> set ms. batchable S m"
  shows "count_batched W S (length ms) (concat (map (\<lambda>m. serialize W S m []) ms) @ r) = Inr (r, ms)"
  using assms by (induction ms) (simp_all add: batched_message_printed)

end

section \<open>Instances for concrete inputs\<close>

text \<open>A prost implementation given by a finite table of messages and their encodings.\<close>

definition table_prost :: "('m \<times> bytes) list \<Rightarrow> 'm prost" where
  "table_prost tbl =
     \<lparr>encoded_len = (\<lambda>m. case map_of tbl m of None \<Rightarrow> 0 | Some bs \<Rightarrow> length bs),
      p_encode = (\<lambda>m. case map_of tbl m of None \<Rightarrow> Inl ''unknown'' | Some bs \<Rightarrow> Inr bs),
      p_decode = (\<lambda>bs. case map_of (map (\<lambda>(m, b). (b, m)) tbl) bs of
                         None \<Rightarrow> Inl ''unknown'' | Some m \<Rightarrow> Inr m)\<rparr>"

definition ex_ping :: pulsar_message where
  "ex_ping = \<lparr>command = default_base_command\<lparr>command_type := 18, ping := Some ()\<rparr>, payload = None\<rparr>"

definition ex_send :: pulsar_message where
  "ex_send =
     \<lparr>command = default_base_command\<lparr>command_type := 6, send := Some (CommandSend 0 8 None)\<rparr>,
      payload = Some \<lparr>metadata = default_message_metadata, data = [104, 105]\<rparr>\<rparr>"

definition ex_commands :: "base_command prost" where
  "ex_commands =
     table_prost [(command ex_ping, [8, 18, 146, 1, 0]), (command ex_send, [8, 6, 50, 4, 8, 0, 16, 8])]"

definition ex_metadata :: "message_metadata prost" where
  "ex_metadata = table_prost [(default_message_metadata, [10, 0, 16, 0, 24, 0])]"

lemma encodable_ex_ping: "encodable ex_commands ex_metadata ex_ping"
  by (simp add: encodable_def prost_inverse_def frame_size_def ex_commands_def table_prost_def
      ex_ping_def ex_send_def default_base_command_def)

lemma encodable_ex_send: "encodable ex_commands ex_metadata ex_send"
  by (simp add: encodable_def prost_inverse_def frame_size_def ex_commands_def ex_metadata_def
      table_prost_def ex_ping_def ex_send_def default_base_command_def)

definition ex_batched :: "bytes \<Rightarrow> BatchedMessage" where
  "ex_batched bs =
     \<lparr>bm_metadata = default_single_message_metadata\<lparr>sm_payload_size := of_nat (length bs)\<rparr>,
      bm_payload = bs\<rparr>"

definition ex_single :: "single_message_metadata prost" where
  "ex_single =
     table_prost [(bm_metadata (ex_batched [7]), [24, 1]), (bm_metadata (ex_batched [8, 9]), [24, 2])]"

lemma batchable_ex_batched:
  "batchable ex_single (ex_batched [7])"
  "batchable ex_single (ex_batched [8, 9])"
  by (simp_all add: batchable_def prost_inverse_def ex_single_def table_prost_def ex_batched_def
      default_single_message_metadata_def)

section \<open>Properties of the codec\<close>

text \<open>C20: round trip of one message. If prost's encoding of the command (and of the metadata)
  inverts and the frame fits the 32-bit size field, encoding appends one frame to the buffer, and
  decoding a buffer that starts with that frame gives the message back (command, metadata and
  payload data) and consumes exactly the frame.\<close>

theorem codec_roundtrip:
  assumes "wire_format W" and "encodable P M m"
  shows "\<exists>bs. encode W P M m dst = Inr (dst @ bs) \<and>
    decode W P M (bs @ rest) = (Inr (Some m), rest)"
  using wire_format.encode_layout [OF assms] wire_format.decode_frame [OF assms] by blast

theorem codec_roundtrip_witness:
  "\<exists>bs. encode be_wire ex_commands ex_metadata ex_send [] = Inr ([] @ bs) \<and>
    decode be_wire ex_commands ex_metadata (bs @ [0, 0]) = (Inr (Some ex_send), [0, 0])"
  by (rule codec_roundtrip [OF be.wire_format_axioms encodable_ex_send])

text \<open>Framing of a stream. Messages encoded one after the other into one buffer are decoded,
  by as many calls of the decoder, to the same messages in the same order, and what follows the
  last frame is left in the buffer.\<close>

theorem codec_stream_roundtrip:
  assumes "wire_format W" and "\<forall>m \<in> set ms. encodable P M m"
  shows "\<exists>bs. encode_all W P M ms dst = Inr (dst @ bs) \<and>
    decode_calls W P M (length ms) (bs @ rest) = (map (\<lambda>m. Inr (Some m)) ms, rest)"
  using wire_format.encode_all_layout [OF assms] wire_format.decode_calls_frames [OF assms]
  by blast

theorem codec_stream_roundtrip_witness:
  "\<exists>bs. encode_all be_wire ex_commands ex_metadata [ex_ping, ex_send] [] = Inr ([] @ bs) \<and>
    decode_calls be_wire ex_commands ex_metadata (length [ex_ping, ex_send]) (bs @ [1]) =
      (map (\<lambda>m. Inr (Some m)) [ex_ping, ex_send], [1])"
  by (rule codec_stream_roundtrip [OF be.wire_format_axioms])
    (simp add: encodable_ex_ping encodable_ex_send)

text \<open>The decoder waits for whole frames. On any strict prefix of an encoded frame it answers
  that there is no message yet, raises no error and leaves the buffer as it is, so a frame split
  over several reads is not lost.\<close>

theorem decode_waits_for_frame:
  assumes "wire_format W" and "encodable P M m"
    and "encode W P M m [] = Inr bs" and "n < length bs"
  shows "decode W P M (take n bs) = (Inr None, take n bs)"
proof -
  have "bs = frame_bytes W P M (frame_checksum W M m) m"
    using wire_format.encode_layout [OF assms(1,2), of "[]"] assms(3) by simp
  with assms(4) show ?thesis
    by (simp add: wire_format.decode_frame_prefix [OF assms(1,2)])
qed

theorem decode_waits_for_frame_witness:
  "decode be_wire ex_commands ex_metadata (take 7 [0, 0, 0, 9, 0, 0, 0, 5, 8, 18, 146, 1, 0]) =
    (Inr None, take 7 [0, 0, 0, 9, 0, 0, 0, 5, 8, 18, 146, 1, 0])"
  by (rule decode_waits_for_frame [OF be.wire_format_axioms encodable_ex_ping])
    (simp_all add: encode_def ex_commands_def table_prost_def ex_ping_def be_wire_def Let_def
      to_be_4)

text \<open>The decoder consumes a whole frame or nothing. A call leaves the buffer untouched unless
  it returns a message, and then the buffer held at least the length its first four bytes
  announce and exactly that many bytes are removed.\<close>

theorem decode_consumes_frame_or_nothing:
  "case decode W P M src of
     (Inr (Some m), rest) \<Rightarrow>
       unat (w_get_u32 W src) + 4 \<le> length src \<and> rest = drop (unat (w_get_u32 W src) + 4) src
   | (_, rest) \<Rightarrow> rest = src"
  by (simp add: decode_def Let_def split: sum.split)

text \<open>The checksum is not verified. Whatever 32-bit value the checksum field of a frame holds,
  the frame decodes to the message; the encoder is the only side that computes the checksum.\<close>

theorem decode_ignores_checksum:
  assumes "wire_format W" and "encodable P M m"
  shows "decode W P M (frame_bytes W P M x m @ rest) = (Inr (Some m), rest)"
  using assms by (rule wire_format.decode_frame)

theorem decode_ignores_checksum_witness:
  "decode be_wire ex_commands ex_metadata
     (frame_bytes be_wire ex_commands ex_metadata (frame_checksum be_wire ex_metadata ex_send + 1)
        ex_send @ []) = (Inr (Some ex_send), [])"
  by (rule decode_ignores_checksum [OF be.wire_format_axioms encodable_ex_send])

text \<open>Round trip of a batch. Serializing messages one after the other into a payload, as a
  batching producer does, and parsing that payload with the number of messages gives the same
  messages in the same order.\<close>

theorem batch_roundtrip:
  assumes "wire_format W" and "\<forall>m \<in> set ms. batchable S m" and "length ms < 2 ^ 32"
  shows "parse_batched_message W S (of_nat (length ms)) (fold (serialize W S) ms []) = Inr ms"
  using wire_format.count_batched_printed [OF assms(1,2), of "[]"] assms(3)
  by (simp add: parse_batched_message_def fold_serialize)

theorem batch_roundtrip_witness:
  "parse_batched_message be_wire ex_single (of_nat (length [ex_batched [7], ex_batched [8, 9]]))
     (fold (serialize be_wire ex_single) [ex_batched [7], ex_batched [8, 9]] []) =
    Inr [ex_batched [7], ex_batched [8, 9]]"
  by (rule batch_roundtrip [OF be.wire_format_axioms]) (simp_all add: batchable_ex_batched)

end
