(* ===== verification/Framing.thy ===== *)
theory Framing
  imports Codec
begin

text \<open>
  The contract of a frame codec and what a framed transport makes of it. The transports of
  \<open>src/connection.rs\<close> (\<open>Framed\<close> of tokio-util and of asynchronous-codec) append what they read to
  a buffer and call \<open>Codec::decode\<close> until it has no message; where a read ends says nothing about
  where a frame ends. The client side, proved once from the contract: the messages a connection
  yields do not depend on how its bytes are cut into reads. Both codecs of \<open>src/message.rs\<close> meet
  the contract.
\<close>

section \<open>Reading from a framed transport\<close>

text \<open>One read: the decoder is called until it has no message or fails. The result is the messages,
  the error if there is one, and the buffer. The guard holds for every decoder that consumes what it
  decodes.\<close>

function drain ::
  "(bytes \<Rightarrow> ('e, 'm option) res \<times> bytes) \<Rightarrow> bytes \<Rightarrow> 'm list \<times> 'e option \<times> bytes" where
  "drain dec b =
     (case dec b of
        (Inl e, r) \<Rightarrow> ([], Some e, r)
      | (Inr None, r) \<Rightarrow> ([], None, r)
      | (Inr (Some m), r) \<Rightarrow>
          (if length r < length b
           then (case drain dec r of (ms, e, r') \<Rightarrow> (m # ms, e, r'))
           else ([m], None, r)))"
  by pat_completeness auto
termination
  by (relation "measure (\<lambda>(dec, b). length b)") auto

declare drain.simps [simp del]

text \<open>Successive reads; an error ends the stream.\<close>

fun feed ::
  "(bytes \<Rightarrow> ('e, 'm option) res \<times> bytes) \<Rightarrow> bytes list \<Rightarrow> bytes \<Rightarrow> 'm list \<times> 'e option \<times> bytes" where
  "feed dec [] b = ([], None, b)"
| "feed dec (c # cs) b =
     (case drain dec (b @ c) of
        (ms, Some e, r) \<Rightarrow> (ms, Some e, r)
      | (ms, None, r) \<Rightarrow> (case feed dec cs r of (ms', e, r') \<Rightarrow> (ms @ ms', e, r')))"

section \<open>The contract\<close>

locale framing =
  fixes fits :: "'m \<Rightarrow> bool"
    and frame :: "'m \<Rightarrow> bytes"
    and dec :: "bytes \<Rightarrow> ('e, 'm option) res \<times> bytes"
  assumes whole: "fits m \<Longrightarrow> dec (frame m @ r) = (Inr (Some m), r)"
    and waits: "fits m \<Longrightarrow> n < length (frame m) \<Longrightarrow>
      dec (take n (frame m)) = (Inr None, take n (frame m))"
    and idle: "dec [] = (Inr None, [])"
    and consumes: "dec b = (Inr (Some m), r) \<Longrightarrow> length r < length b"
begin

definition stream :: "'m list \<Rightarrow> bytes" where
  "stream ms = concat (map frame ms)"

lemma drain_whole:
  assumes "fits m"
  shows "drain dec (frame m @ r) = (case drain dec r of (ms, e, r') \<Rightarrow> (m # ms, e, r'))"
  using whole [OF assms] consumes [OF whole [OF assms]] by (simp add: drain.simps [of _ "frame m @ r"])

lemma drain_waits:
  assumes "fits m" and "n < length (frame m)"
  shows "drain dec (take n (frame m)) = ([], None, take n (frame m))"
  using waits [OF assms] by (simp add: drain.simps)

text \<open>Draining a prefix of a stream yields the messages whose frames are complete and leaves the
  rest of the prefix, which is shorter than the next frame.\<close>

lemma drain_prefix:
  assumes "\<forall>m \<in> set ms. fits m" and "b @ r = stream ms"
  shows "\<exists>ms1 ms2 b'. ms = ms1 @ ms2 \<and> drain dec b = (ms1, None, b') \<and> b' @ r = stream ms2 \<and>
    (ms2 = [] \<or> length b' < length (frame (hd ms2)))"
  using assms
proof (induction ms arbitrary: b)
  case Nil
  then show ?case by (simp add: stream_def drain.simps idle)
next
  case (Cons m ms)
  then have fits: "fits m" and br: "b @ r = frame m @ stream ms" by (simp_all add: stream_def)
  show ?case
  proof (cases "length b < length (frame m)")
    case True
    with br have b: "b = take (length b) (frame m)" by (auto simp: append_eq_append_conv_if)
    with drain_waits [OF fits True] have "drain dec b = ([], None, b)" by simp
    with True br show ?thesis
      by (intro exI [of _ "[]"] exI [of _ "m # ms"] exI [of _ b]) (simp add: stream_def)
  next
    case False
    from br have "frame m = take (length (frame m)) b"
      using False by (metis append_eq_conv_conj le_eq_less_or_eq not_less take_append take_all_iff)
    then obtain c where b: "b = frame m @ c" by (metis append_take_drop_id)
    with br have c: "c @ r = stream ms" by simp
    from Cons.IH [OF _ c] Cons.prems(1) obtain ms1 ms2 b' where
      "ms = ms1 @ ms2" "drain dec c = (ms1, None, b')" "b' @ r = stream ms2"
      "ms2 = [] \<or> length b' < length (frame (hd ms2))" by auto
    then show ?thesis
      by (intro exI [of _ "m # ms1"] exI [of _ ms2] exI [of _ b']) (simp add: b drain_whole fits)
  qed
qed

lemma feed_stream:
  assumes "\<forall>m \<in> set ms. fits m" and "b @ concat cs = stream ms"
    and "ms = [] \<or> length b < length (frame (hd ms))"
  shows "feed dec cs b = (ms, None, [])"
  using assms
proof (induction cs arbitrary: b ms)
  case Nil
  then show ?case by (cases ms) (auto simp: stream_def)
next
  case (Cons c cs)
  from drain_prefix [OF Cons.prems(1), of "b @ c" "concat cs"] Cons.prems(2)
  obtain ms1 ms2 b' where *: "ms = ms1 @ ms2" "drain dec (b @ c) = (ms1, None, b')"
    "b' @ concat cs = stream ms2" "ms2 = [] \<or> length b' < length (frame (hd ms2))"
    by auto
  with Cons.IH [of ms2 b'] Cons.prems(1) show ?case by simp
qed

lemma frame_nonempty: "fits m \<Longrightarrow> frame m \<noteq> []"
  using whole [of m "[]"] idle by auto

lemma feed_chunks:
  assumes "\<forall>m \<in> set ms. fits m" and "concat cs = stream ms"
  shows "feed dec cs [] = (ms, None, [])"
  using assms feed_stream [of ms "[]" cs] frame_nonempty by (cases ms) auto

end

section \<open>The two codecs\<close>

lemma decode_consumes: "decode W P M b = (Inr (Some m), r) \<Longrightarrow> length r < length b"
  by (auto simp: decode_def Let_def split: if_splits sum.splits)

interpretation tokio: framing
  "\<lambda>m. wire_format W \<and> encodable P M m"
  "\<lambda>m. frame_bytes W P M (frame_checksum W M m) m"
  "decode W P M"
  for W P M
  by unfold_locales
    (auto simp: wire_format.decode_frame wire_format.decode_frame_prefix decode_consumes,
      simp add: decode_def)

interpretation async_std: framing
  "\<lambda>m. wire_format W \<and> encodable P M m"
  "\<lambda>m. frame_bytes W P M (frame_checksum W M m) m"
  "async_std_decode W P M"
  for W P M
  using tokio.framing_axioms [of W P M] by (simp add: async_std_decode_eq [abs_def])

lemma ex_ping_frame:
  "encode be_wire ex_commands ex_metadata ex_ping [] = Inr [0, 0, 0, 9, 0, 0, 0, 5, 8, 18, 146, 1, 0]"
  by (simp add: encode_def ex_commands_def table_prost_def ex_ping_def be_wire_def Let_def to_be_4)

section \<open>Properties of framed transports\<close>

text \<open>C15: chunking. However the bytes of a stream of encoded messages are cut into reads, the framed
  transport of either runtime yields exactly the messages, in order, without an error, and ends
  with an empty buffer.\<close>

theorem chunking_irrelevant:
  assumes "wire_format W" and "\<forall>m \<in> set ms. encodable P M m"
    and "encode_all W P M ms [] = Inr bs" and "concat chunks = bs"
  shows "feed (decode W P M) chunks [] = (ms, None, []) \<and>
    feed (async_std_decode W P M) chunks [] = (ms, None, [])"
proof -
  have "bs = tokio.stream W P M ms"
    using wire_format.encode_all_layout [OF assms(1,2), of "[]"] assms(3)
    by (simp add: tokio.stream_def)
  moreover from this have "bs = async_std.stream W P M ms"
    by (simp add: tokio.stream_def async_std.stream_def)
  ultimately show ?thesis
    using tokio.feed_chunks [of ms W P M chunks] async_std.feed_chunks [of ms W P M chunks] assms
    by simp
qed

theorem chunking_irrelevant_witness:
  "feed (decode be_wire ex_commands ex_metadata)
     [[0, 0, 0], [9, 0, 0, 0, 5, 8, 18, 146, 1], [0]] [] = ([ex_ping], None, []) \<and>
   feed (async_std_decode be_wire ex_commands ex_metadata)
     [[0, 0, 0], [9, 0, 0, 0, 5, 8, 18, 146, 1], [0]] [] = ([ex_ping], None, [])"
  by (rule chunking_irrelevant [OF be.wire_format_axioms,
        where bs = "[0, 0, 0, 9, 0, 0, 0, 5, 8, 18, 146, 1, 0]"])
    (simp_all add: encodable_ex_ping ex_ping_frame)

end
