(* ===== verification/Executor.thy ===== *)
theory Executor
  imports Prelude
begin

text \<open>
  \<open>src/executor.rs\<close>: the trait \<open>Executor\<close>, its implementations for Tokio, for async-std and for a
  shared pointer to an executor, and the handles it returns: \<open>JoinHandle\<close>, \<open>Interval\<close> and \<open>Delay\<close>.

  The two runtimes are libraries. Their functions are the parameters \<open>T\<close> and \<open>A\<close>, records of the
  calls the source makes; \<open>'rt\<close> is the state of a runtime, which is also what a poll finds the world
  in. A call that may panic returns an option, \<open>None\<close> being the panic. The trait is the locale
  \<open>executor\<close>; it is interpreted for every implementation, whatever the runtime does.
\<close>

section \<open>The runtimes\<close>

record ('rt, 'task, 'job, 'x, 'h, 'i, 'd) tokio_runtime =
  tokio_spawn :: "'task \<Rightarrow> 'rt \<Rightarrow> 'rt"
  tokio_spawn_blocking :: "'job \<Rightarrow> 'rt \<Rightarrow> 'h \<times> 'rt"
  tokio_interval :: "nat \<Rightarrow> 'i option"
  tokio_sleep :: "nat \<Rightarrow> 'd"
  tokio_join_poll :: "'rt \<Rightarrow> 'h \<Rightarrow> ((unit, 'x) res poll \<times> 'h) option"
  tokio_poll_tick :: "'rt \<Rightarrow> 'i \<Rightarrow> (nat poll \<times> 'i) option"
  tokio_sleep_poll :: "'rt \<Rightarrow> 'd \<Rightarrow> (unit poll \<times> 'd) option"

record ('rt, 'task, 'job, 'x, 'h, 'i, 'd) async_std_runtime =
  async_std_spawn :: "'task \<Rightarrow> 'rt \<Rightarrow> 'rt"
  async_std_spawn_blocking :: "'job \<Rightarrow> 'rt \<Rightarrow> 'h \<times> 'rt"
  async_std_interval :: "nat \<Rightarrow> 'i option"
  async_std_ready_delay :: "nat \<Rightarrow> 'd"
  async_std_join_poll :: "'rt \<Rightarrow> 'h \<Rightarrow> ('x poll \<times> 'h) option"
  async_std_poll_next :: "'rt \<Rightarrow> 'i \<Rightarrow> (unit option poll \<times> 'i) option"
  async_std_delay_poll :: "'rt \<Rightarrow> 'd \<Rightarrow> (unit poll \<times> 'd) option"

section \<open>Kinds and handles\<close>

datatype executor_kind = Tokio | AsyncStd

text \<open>The placeholders exist in a build with neither runtime only; polling one panics.\<close>

datatype ('t, 'a, 'x) JoinHandle = JoinTokio 't | JoinAsyncStd 'a | JoinPlaceHolder 'x

datatype ('t, 'a) Interval = IntervalTokio 't | IntervalAsyncStd 'a | IntervalPlaceHolder

datatype ('t, 'a) Delay = DelayTokio 't | DelayAsyncStd 'a

definition join_handle_poll ::
  "('rt, 'task, 'job, 'x, 'h, 'i, 'd) tokio_runtime
     \<Rightarrow> ('rt, 'task, 'job, 'x, 'ha, 'ia, 'da) async_std_runtime
     \<Rightarrow> 'rt \<Rightarrow> ('h, 'ha, 'x) JoinHandle \<Rightarrow> ('x option poll \<times> ('h, 'ha, 'x) JoinHandle) option" where
  "join_handle_poll T A cx self =
     (case self of
        JoinTokio j \<Rightarrow>
          (case tokio_join_poll T cx j of
             None \<Rightarrow> None
           | Some (Pending, j) \<Rightarrow> Some (Pending, JoinTokio j)
           | Some (Ready v, j) \<Rightarrow>
               Some (Ready (case v of Inl _ \<Rightarrow> None | Inr x \<Rightarrow> Some x), JoinTokio j))
      | JoinAsyncStd j \<Rightarrow>
          (case async_std_join_poll A cx j of
             None \<Rightarrow> None
           | Some (Pending, j) \<Rightarrow> Some (Pending, JoinAsyncStd j)
           | Some (Ready v, j) \<Rightarrow> Some (Ready (Some v), JoinAsyncStd j))
      | JoinPlaceHolder t \<Rightarrow> None)"

definition interval_poll_next ::
  "('rt, 'task, 'job, 'x, 'h, 'i, 'd) tokio_runtime
     \<Rightarrow> ('rt, 'task, 'job, 'x, 'ha, 'ia, 'da) async_std_runtime
     \<Rightarrow> 'rt \<Rightarrow> ('i, 'ia) Interval \<Rightarrow> (unit option poll \<times> ('i, 'ia) Interval) option" where
  "interval_poll_next T A cx self =
     (case self of
        IntervalTokio j \<Rightarrow>
          (case tokio_poll_tick T cx j of
             None \<Rightarrow> None
           | Some (Pending, j) \<Rightarrow> Some (Pending, IntervalTokio j)
           | Some (Ready _, j) \<Rightarrow> Some (Ready (Some ()), IntervalTokio j))
      | IntervalAsyncStd j \<Rightarrow>
          (case async_std_poll_next A cx j of
             None \<Rightarrow> None
           | Some (Pending, j) \<Rightarrow> Some (Pending, IntervalAsyncStd j)
           | Some (Ready v, j) \<Rightarrow> Some (Ready v, IntervalAsyncStd j))
      | IntervalPlaceHolder \<Rightarrow> None)"

definition delay_poll ::
  "('rt, 'task, 'job, 'x, 'h, 'i, 'd) tokio_runtime
     \<Rightarrow> ('rt, 'task, 'job, 'x, 'ha, 'ia, 'da) async_std_runtime
     \<Rightarrow> 'rt \<Rightarrow> ('d, 'da) Delay \<Rightarrow> (unit poll \<times> ('d, 'da) Delay) option" where
  "delay_poll T A cx self =
     (case self of
        DelayTokio d \<Rightarrow>
          (case tokio_sleep_poll T cx d of
             None \<Rightarrow> None
           | Some (Pending, d) \<Rightarrow> Some (Pending, DelayTokio d)
           | Some (Ready _, d) \<Rightarrow> Some (Ready (), DelayTokio d))
      | DelayAsyncStd j \<Rightarrow>
          (case async_std_delay_poll A cx j of
             None \<Rightarrow> None
           | Some (Pending, j) \<Rightarrow> Some (Pending, DelayAsyncStd j)
           | Some (Ready _, j) \<Rightarrow> Some (Ready (), DelayAsyncStd j)))"

section \<open>The trait and its implementations\<close>

text \<open>The methods of an executor value. \<open>interval\<close> is partial because the libraries' is.\<close>

record ('rt, 'task, 'job, 'h, 'i, 'd) Executor =
  exe_spawn :: "'task \<Rightarrow> 'rt \<Rightarrow> (unit, unit) res \<times> 'rt"
  exe_spawn_blocking :: "'job \<Rightarrow> 'rt \<Rightarrow> 'h \<times> 'rt"
  exe_interval :: "nat \<Rightarrow> 'i option"
  exe_delay :: "nat \<Rightarrow> 'd"
  exe_kind :: executor_kind

definition tokio_executor ::
  "('rt, 'task, 'job, 'x, 'h, 'i, 'd) tokio_runtime
     \<Rightarrow> ('rt, 'task, 'job, ('h, 'ha, 'x) JoinHandle, ('i, 'ia) Interval, ('d, 'da) Delay) Executor"
where
  "tokio_executor T =
     \<lparr>exe_spawn = (\<lambda>f rt. (Inr (), tokio_spawn T f rt)),
      exe_spawn_blocking = (\<lambda>f rt. map_prod JoinTokio id (tokio_spawn_blocking T f rt)),
      exe_interval = (\<lambda>duration. map_option IntervalTokio (tokio_interval T duration)),
      exe_delay = (\<lambda>duration. DelayTokio (tokio_sleep T duration)),
      exe_kind = Tokio\<rparr>"

definition async_std_executor ::
  "('rt, 'task, 'job, 'x, 'ha, 'ia, 'da) async_std_runtime
     \<Rightarrow> ('rt, 'task, 'job, ('h, 'ha, 'x) JoinHandle, ('i, 'ia) Interval, ('d, 'da) Delay) Executor"
where
  "async_std_executor A =
     \<lparr>exe_spawn = (\<lambda>f rt. (Inr (), async_std_spawn A f rt)),
      exe_spawn_blocking = (\<lambda>f rt. map_prod JoinAsyncStd id (async_std_spawn_blocking A f rt)),
      exe_interval = (\<lambda>duration. map_option IntervalAsyncStd (async_std_interval A duration)),
      exe_delay = (\<lambda>duration. DelayAsyncStd (async_std_ready_delay A duration)),
      exe_kind = AsyncStd\<rparr>"

definition arc_executor ::
  "('rt, 'task, 'job, 'h, 'i, 'd) Executor \<Rightarrow> ('rt, 'task, 'job, 'h, 'i, 'd) Executor" where
  "arc_executor E =
     \<lparr>exe_spawn = (\<lambda>f rt. exe_spawn E f rt),
      exe_spawn_blocking = (\<lambda>f rt. exe_spawn_blocking E f rt),
      exe_interval = (\<lambda>duration. exe_interval E duration),
      exe_delay = (\<lambda>duration. exe_delay E duration),
      exe_kind = exe_kind E\<rparr>"

text \<open>The executor of a client of one kind or the other.\<close>

definition client_executor ::
  "executor_kind \<Rightarrow> ('rt, 'task, 'job, 'x, 'h, 'i, 'd) tokio_runtime
     \<Rightarrow> ('rt, 'task, 'job, 'x, 'ha, 'ia, 'da) async_std_runtime
     \<Rightarrow> ('rt, 'task, 'job, ('h, 'ha, 'x) JoinHandle, ('i, 'ia) Interval, ('d, 'da) Delay) Executor"
where
  "client_executor k T A =
     (case k of Tokio \<Rightarrow> arc_executor (tokio_executor T) | AsyncStd \<Rightarrow> arc_executor (async_std_executor A))"

section \<open>Loops over an interval\<close>

text \<open>
  \<open>while let Some(()) = interval.next().await { ... }\<close>, the shape of every periodic task of the
  client. The list holds the runtime at each wake-up of the task; the body says with \<open>False\<close> that it
  breaks out of the loop. A task ends as \<open>Stopped\<close>, or the poll panics, or it is still running.
\<close>

datatype task_end = StillRunning | Stopped | TaskPanicked

fun interval_task ::
  "('rt \<Rightarrow> 'i \<Rightarrow> (unit option poll \<times> 'i) option) \<Rightarrow> ('rt \<Rightarrow> 's \<Rightarrow> bool \<times> 's) \<Rightarrow> 'rt list \<Rightarrow> 'i \<Rightarrow> 's
     \<Rightarrow> task_end \<times> 's" where
  "interval_task next_tick body [] i s = (StillRunning, s)"
| "interval_task next_tick body (cx # cxs) i s =
     (case next_tick cx i of
        None \<Rightarrow> (TaskPanicked, s)
      | Some (Pending, i) \<Rightarrow> interval_task next_tick body cxs i s
      | Some (Ready None, i) \<Rightarrow> (Stopped, s)
      | Some (Ready (Some _), i) \<Rightarrow>
          (case body cx s of
             (True, s) \<Rightarrow> interval_task next_tick body cxs i s
           | (False, s) \<Rightarrow> (Stopped, s)))"

text \<open>The wake-ups at which an interval ticks, as long as it neither ends nor panics.\<close>

fun ticks :: "('rt \<Rightarrow> 'i \<Rightarrow> (unit option poll \<times> 'i) option) \<Rightarrow> 'rt list \<Rightarrow> 'i \<Rightarrow> 'rt list" where
  "ticks next_tick [] i = []"
| "ticks next_tick (cx # cxs) i =
     (case next_tick cx i of
        Some (Pending, i) \<Rightarrow> ticks next_tick cxs i
      | Some (Ready (Some _), i) \<Rightarrow> cx # ticks next_tick cxs i
      | _ \<Rightarrow> [])"

text \<open>What a periodic task is meant to do: its body once per tick, until the body breaks.\<close>

fun each_tick :: "('rt \<Rightarrow> 's \<Rightarrow> bool \<times> 's) \<Rightarrow> 'rt list \<Rightarrow> 's \<Rightarrow> bool \<times> 's" where
  "each_tick body [] s = (True, s)"
| "each_tick body (cx # cxs) s =
     (case body cx s of (True, s) \<Rightarrow> each_tick body cxs s | (False, s) \<Rightarrow> (False, s))"

text \<open>On these wake-ups the interval neither ends nor panics.\<close>

fun steady :: "('rt \<Rightarrow> 'i \<Rightarrow> (unit option poll \<times> 'i) option) \<Rightarrow> 'rt list \<Rightarrow> 'i \<Rightarrow> bool" where
  "steady next_tick [] i = True"
| "steady next_tick (cx # cxs) i =
     (case next_tick cx i of
        Some (Pending, i) \<Rightarrow> steady next_tick cxs i
      | Some (Ready (Some _), i) \<Rightarrow> steady next_tick cxs i
      | _ \<Rightarrow> False)"

text \<open>The wake-ups at which an interval panics are excluded by documented use of the libraries.\<close>

fun no_panic :: "('rt \<Rightarrow> 'i \<Rightarrow> (unit option poll \<times> 'i) option) \<Rightarrow> 'rt list \<Rightarrow> 'i \<Rightarrow> bool" where
  "no_panic next_tick [] i = True"
| "no_panic next_tick (cx # cxs) i =
     (case next_tick cx i of None \<Rightarrow> False | Some (_, i) \<Rightarrow> no_panic next_tick cxs i)"

text \<open>The interval of async-std is documented as a stream that never ends.\<close>

definition async_std_endless ::
  "('rt, 'task, 'job, 'x, 'ha, 'ia, 'da) async_std_runtime \<Rightarrow> bool" where
  "async_std_endless A \<longleftrightarrow> (\<forall>cx j j'. async_std_poll_next A cx j \<noteq> Some (Ready None, j'))"

section \<open>The contract of an executor\<close>

fun join_kind :: "('t, 'a, 'x) JoinHandle \<Rightarrow> executor_kind option" where
  "join_kind (JoinTokio _) = Some Tokio"
| "join_kind (JoinAsyncStd _) = Some AsyncStd"
| "join_kind (JoinPlaceHolder _) = None"

fun interval_kind :: "('t, 'a) Interval \<Rightarrow> executor_kind option" where
  "interval_kind (IntervalTokio _) = Some Tokio"
| "interval_kind (IntervalAsyncStd _) = Some AsyncStd"
| "interval_kind IntervalPlaceHolder = None"

fun delay_kind :: "('t, 'a) Delay \<Rightarrow> executor_kind" where
  "delay_kind (DelayTokio _) = Tokio"
| "delay_kind (DelayAsyncStd _) = AsyncStd"

fun_cases join_kind_SomeE: "join_kind j = Some k"
fun_cases interval_kind_SomeE: "interval_kind i = Some k"
fun_cases delay_kindE: "delay_kind d = k"

text \<open>
  The rest of the client relies on two things: a task is always accepted, and every handle belongs
  to the runtime \<open>kind\<close> names, so that it is polled by that runtime and never panics as a placeholder.
\<close>

locale executor =
  fixes E :: "('rt, 'task, 'job, ('h, 'ha, 'x) JoinHandle, ('i, 'ia) Interval, ('d, 'da) Delay) Executor"
  assumes spawn_accepts: "\<exists>rt'. exe_spawn E f rt = (Inr (), rt')"
    and join_of_kind: "join_kind (fst (exe_spawn_blocking E j rt)) = Some (exe_kind E)"
    and interval_of_kind: "exe_interval E duration = Some i \<Longrightarrow> interval_kind i = Some (exe_kind E)"
    and delay_of_kind: "delay_kind (exe_delay E duration) = exe_kind E"

section \<open>Lemmas\<close>

lemma steady_cases [consumes 1, case_names Waits Ticks]:
  assumes "steady next_tick (cx # cxs) i"
  obtains (Waits) i' where "next_tick cx i = Some (Pending, i')" "steady next_tick cxs i'"
  | (Ticks) i' where "next_tick cx i = Some (Ready (Some ()), i')" "steady next_tick cxs i'"
proof -
  from assms obtain p i' where p: "next_tick cx i = Some (p, i')"
    by (cases "next_tick cx i") auto
  show thesis
  proof (cases p)
    case Pending
    with p assms show thesis by (simp add: Waits)
  next
    case (Ready t)
    with p assms show thesis by (cases t) (simp_all add: Ticks)
  qed
qed

lemma interval_task_eq:
  assumes "steady next_tick cxs i"
  shows "interval_task next_tick body cxs i s =
    (case each_tick body (ticks next_tick cxs i) s of
       (True, s) \<Rightarrow> (StillRunning, s) | (False, s) \<Rightarrow> (Stopped, s))"
  using assms
proof (induction cxs arbitrary: i s)
  case (Cons cx cxs)
  from Cons.prems show ?case
  proof (cases rule: steady_cases)
    case (Ticks i')
    then show ?thesis by (cases "body cx s") (simp add: Cons.IH split: bool.split)
  qed (simp add: Cons.IH)
qed simp

lemma each_tick_while:
  "each_tick body cxs s = (True, s') \<Longrightarrow> foldl (\<lambda>s cx. snd (body cx s)) s cxs = s'"
  by (induction body cxs s arbitrary: s' rule: each_tick.induct)
    (auto split: prod.splits bool.splits)

lemma interval_poll_next_kind:
  "interval_poll_next T A cx i = Some (p, i') \<Longrightarrow> interval_kind i' = interval_kind i"
  by (auto simp: interval_poll_next_def split: Interval.splits option.splits prod.splits poll.splits)

lemma join_handle_poll_kind:
  "join_handle_poll T A cx j = Some (p, j') \<Longrightarrow> join_kind j' = join_kind j"
  by (auto simp: join_handle_poll_def split: JoinHandle.splits option.splits prod.splits poll.splits)

text \<open>A Tokio interval never reports its end: the source turns every tick into \<open>Some(())\<close>.\<close>

lemma tokio_interval_endless:
  assumes "interval_kind i = Some Tokio"
  shows "interval_poll_next T A cx i \<noteq> Some (Ready None, i')"
  using assms by (cases i) (auto simp: interval_poll_next_def split: option.splits prod.splits poll.splits)

text \<open>An async-std interval is passed on as it is, and ends if async-std's does.\<close>

lemma async_std_interval_ends_iff:
  "interval_poll_next T A cx (IntervalAsyncStd j) = Some (Ready None, i') \<longleftrightarrow>
     (\<exists>j'. i' = IntervalAsyncStd j' \<and> async_std_poll_next A cx j = Some (Ready None, j'))"
  by (auto simp: interval_poll_next_def split: option.splits prod.splits poll.splits)

lemma interval_endless:
  assumes "async_std_endless A" and "interval_kind i = Some k"
  shows "interval_poll_next T A cx i \<noteq> Some (Ready None, i')"
  using assms tokio_interval_endless [of i T A cx i']
  by (cases i) (auto simp: async_std_endless_def async_std_interval_ends_iff)

lemma interval_steady:
  assumes "async_std_endless A" and "interval_kind i = Some k"
    and "no_panic (interval_poll_next T A) cxs i"
  shows "steady (interval_poll_next T A) cxs i"
  using assms(2,3)
proof (induction cxs arbitrary: i)
  case (Cons cx cxs)
  then obtain p i' where p: "interval_poll_next T A cx i = Some (p, i')"
    by (auto split: option.splits)
  have "interval_kind i' = Some k"
    using Cons.prems(1) interval_poll_next_kind [OF p] by simp
  moreover have "no_panic (interval_poll_next T A) cxs i'"
    using Cons.prems(2) p by simp
  ultimately have IH: "steady (interval_poll_next T A) cxs i'"
    by (rule Cons.IH)
  from p interval_endless [OF assms(1) Cons.prems(1)] have "p \<noteq> Ready None"
    by metis
  with p IH show ?case
    by (cases p) (auto split: option.split)
qed simp

context executor
begin

lemma spawn_never_fails: "is_ok (fst (exe_spawn E f rt))"
  using spawn_accepts [of f rt] by auto

lemma not_placeholder:
  "fst (exe_spawn_blocking E j rt) \<noteq> JoinPlaceHolder x"
  "exe_interval E duration \<noteq> Some IntervalPlaceHolder"
  using join_of_kind [of j rt] interval_of_kind [of duration IntervalPlaceHolder] by auto

text \<open>A task on an interval runs its body exactly once per tick until the body breaks.\<close>

lemma periodic:
  assumes "exe_interval E duration = Some i" and "async_std_endless A"
    and "no_panic (interval_poll_next T A) cxs i"
  shows "interval_task (interval_poll_next T A) body cxs i s =
    (case each_tick body (ticks (interval_poll_next T A) cxs i) s of
       (True, s) \<Rightarrow> (StillRunning, s) | (False, s) \<Rightarrow> (Stopped, s))"
  using assms interval_of_kind [of duration i] by (intro interval_task_eq interval_steady) auto

lemma arc_is_executor: "executor (arc_executor E)"
  by unfold_locales
    (auto simp: arc_executor_def spawn_accepts join_of_kind interval_of_kind delay_of_kind)

end

interpretation tokio_exe: executor "tokio_executor T" for T
  by unfold_locales (auto simp: tokio_executor_def split: prod.splits)

interpretation async_std_exe: executor "async_std_executor A" for A
  by unfold_locales (auto simp: async_std_executor_def split: prod.splits)

interpretation client_exe: executor "client_executor k T A" for k T A
  by (cases k) (simp_all add: client_executor_def tokio_exe.arc_is_executor async_std_exe.arc_is_executor)

end
