(* ===== verification/Messages.thy ===== *)
theory Messages
  imports Message
begin

text \<open>
  The module \<open>messages\<close> of \<open>src/connection.rs\<close>: the functions that build every command the client
  sends, with the option records of \<open>src/consumer.rs\<close> and \<open>src/producer.rs\<close> they read. A
  \<open>BTreeMap\<close> or \<open>HashMap\<close> of strings that is only iterated is the list of its entries in
  iteration order; the time \<open>Utc::now()\<close> reads is an argument.
\<close>

section \<open>Options\<close>

datatype InitialPosition = Earliest | Latest

definition initial_position_default :: InitialPosition where
  "initial_position_default = Latest"

fun initial_position_code :: "InitialPosition \<Rightarrow> i32" where
  "initial_position_code Earliest = 1"
| "initial_position_code Latest = 0"

record ConsumerOptions =
  co_priority_level :: "i32 option"
  co_durable :: "bool option"
  co_start_message_id :: "message_id_data option"
  co_metadata :: "key_value list"
  co_read_compacted :: "bool option"
  co_schema :: "schema option"
  co_initial_position :: InitialPosition

definition consumer_options_default :: ConsumerOptions where
  "consumer_options_default =
     \<lparr>co_priority_level = None, co_durable = None, co_start_message_id = None, co_metadata = [],
      co_read_compacted = None, co_schema = None, co_initial_position = initial_position_default\<rparr>"

definition with_priority_level :: "i32 \<Rightarrow> ConsumerOptions \<Rightarrow> ConsumerOptions" where
  "with_priority_level l o' = o'\<lparr>co_priority_level := Some l\<rparr>"

definition durable :: "bool \<Rightarrow> ConsumerOptions \<Rightarrow> ConsumerOptions" where
  "durable d o' = o'\<lparr>co_durable := Some d\<rparr>"

definition starting_on_message :: "message_id_data \<Rightarrow> ConsumerOptions \<Rightarrow> ConsumerOptions" where
  "starting_on_message i o' = o'\<lparr>co_start_message_id := Some i\<rparr>"

definition with_metadata :: "key_value list \<Rightarrow> ConsumerOptions \<Rightarrow> ConsumerOptions" where
  "with_metadata kvs o' = o'\<lparr>co_metadata := kvs\<rparr>"

definition read_compacted :: "bool \<Rightarrow> ConsumerOptions \<Rightarrow> ConsumerOptions" where
  "read_compacted b o' = o'\<lparr>co_read_compacted := Some b\<rparr>"

definition with_schema :: "schema \<Rightarrow> ConsumerOptions \<Rightarrow> ConsumerOptions" where
  "with_schema s o' = o'\<lparr>co_schema := Some s\<rparr>"

definition with_initial_position :: "InitialPosition \<Rightarrow> ConsumerOptions \<Rightarrow> ConsumerOptions" where
  "with_initial_position p o' = o'\<lparr>co_initial_position := p\<rparr>"

record ProducerOptions =
  po_encrypted :: "bool option"
  po_metadata :: "key_value list"
  po_schema :: "schema option"
  po_batch_size :: "u32 option"
  po_compression :: "compression_type option"
  po_access_mode :: "i32 option"

text \<open>What a producer sends: the message of the application with the producer's own fields.\<close>

record ProducerMessage =
  pm_payload :: bytes
  pm_properties :: "key_value list"
  pm_partition_key :: "string option"
  pm_ordering_key :: "bytes option"
  pm_replicate_to :: "string list"
  pm_compression :: "i32 option"
  pm_uncompressed_size :: "u32 option"
  pm_num_messages_in_batch :: "i32 option"
  pm_event_time :: "u64 option"
  pm_encryption_keys :: "encryption_keys list"
  pm_encryption_algo :: "string option"
  pm_encryption_param :: "bytes option"
  pm_schema_version :: "bytes option"
  pm_deliver_at_time :: "i64 option"

text \<open>The authentication parameters a connection is opened with.\<close>

record Authentication =
  auth_name :: string
  auth_bytes :: bytes

section \<open>Commands\<close>

definition bare :: "base_command \<Rightarrow> pulsar_message" where
  "bare c = \<lparr>command = c, payload = None\<rparr>"

definition messages_connect :: "Authentication option \<Rightarrow> string option \<Rightarrow> pulsar_message" where
  "messages_connect auth proxy =
     bare (default_base_command
       \<lparr>command_type := command_type_code TConnect,
        connect := Some
          \<lparr>client_version = ''2.0.1-incubating'',
           auth_method_name = map_option auth_name auth,
           auth_data = map_option auth_bytes auth,
           protocol_version = Some 12,
           proxy_to_broker_url = proxy\<rparr>\<rparr>)"

definition messages_ping :: pulsar_message where
  "messages_ping =
     bare (default_base_command\<lparr>command_type := command_type_code TPing, ping := Some ()\<rparr>)"

definition messages_pong :: pulsar_message where
  "messages_pong =
     bare (default_base_command\<lparr>command_type := command_type_code TPong, pong := Some ()\<rparr>)"

definition messages_create_producer ::
  "string \<Rightarrow> string option \<Rightarrow> u64 \<Rightarrow> u64 \<Rightarrow> ProducerOptions \<Rightarrow> pulsar_message" where
  "messages_create_producer topic name producer_id request_id options =
     bare (default_base_command
       \<lparr>command_type := command_type_code TProducer,
        producer := Some
          \<lparr>prod_topic = topic, prod_producer_id = producer_id, prod_request_id = request_id,
           prod_producer_name = name, prod_encrypted = po_encrypted options,
           prod_metadata = map (\<lambda>(k, v). (k, v)) (po_metadata options),
           prod_schema = po_schema options, prod_access_mode = po_access_mode options\<rparr>\<rparr>)"

definition messages_get_topics_of_namespace ::
  "u64 \<Rightarrow> string \<Rightarrow> topics_mode \<Rightarrow> pulsar_message" where
  "messages_get_topics_of_namespace request_id namespace mode =
     bare (default_base_command
       \<lparr>command_type := command_type_code TGetTopicsOfNamespace,
        get_topics_of_namespace := Some
          (CommandGetTopicsOfNamespace request_id namespace (Some (topics_mode_code mode)))\<rparr>)"

definition messages_send ::
  "u64 \<Rightarrow> u64 \<Rightarrow> string \<Rightarrow> u64 \<Rightarrow> ProducerMessage \<Rightarrow> pulsar_message" where
  "messages_send now producer_id name sequence m =
     \<lparr>command = default_base_command
        \<lparr>command_type := command_type_code TSend,
         send := Some (CommandSend producer_id sequence (pm_num_messages_in_batch m))\<rparr>,
      payload = Some
        \<lparr>metadata = default_message_metadata
           \<lparr>producer_name := name,
            sequence_id := sequence,
            properties := map (\<lambda>(k, v). (k, v)) (pm_properties m),
            publish_time := now,
            replicated_from := None,
            partition_key := pm_partition_key m,
            replicate_to := pm_replicate_to m,
            compression := pm_compression m,
            uncompressed_size := pm_uncompressed_size m,
            num_messages_in_batch := pm_num_messages_in_batch m,
            event_time := pm_event_time m,
            md_encryption_keys := pm_encryption_keys m,
            encryption_algo := pm_encryption_algo m,
            encryption_param := pm_encryption_param m,
            schema_version := pm_schema_version m,
            deliver_at_time := pm_deliver_at_time m\<rparr>,
         data = pm_payload m\<rparr>\<rparr>"

definition messages_lookup_topic :: "string \<Rightarrow> bool \<Rightarrow> u64 \<Rightarrow> pulsar_message" where
  "messages_lookup_topic topic authoritative request_id =
     bare (default_base_command
       \<lparr>command_type := command_type_code TLookup,
        lookup_topic := Some (CommandLookupTopic topic request_id (Some authoritative))\<rparr>)"

definition messages_lookup_partitioned_topic :: "string \<Rightarrow> u64 \<Rightarrow> pulsar_message" where
  "messages_lookup_partitioned_topic topic request_id =
     bare (default_base_command
       \<lparr>command_type := command_type_code TPartitionedMetadata,
        partition_metadata := Some (CommandPartitionedTopicMetadata topic request_id)\<rparr>)"

definition messages_consumer_stats :: "u64 \<Rightarrow> u64 \<Rightarrow> pulsar_message" where
  "messages_consumer_stats request_id consumer_id =
     bare (default_base_command
       \<lparr>command_type := command_type_code TConsumerStats,
        consumer_stats := Some (CommandConsumerStats request_id consumer_id)\<rparr>)"

definition messages_get_last_message_id :: "u64 \<Rightarrow> u64 \<Rightarrow> pulsar_message" where
  "messages_get_last_message_id consumer_id request_id =
     bare (default_base_command
       \<lparr>command_type := command_type_code TGetLastMessageId,
        get_last_message_id := Some (CommandGetLastMessageId consumer_id request_id)\<rparr>)"

definition messages_close_producer :: "u64 \<Rightarrow> u64 \<Rightarrow> pulsar_message" where
  "messages_close_producer producer_id request_id =
     bare (default_base_command
       \<lparr>command_type := command_type_code TCloseProducer,
        close_producer := Some (CommandCloseProducer producer_id request_id)\<rparr>)"

definition messages_subscribe ::
  "string \<Rightarrow> string \<Rightarrow> sub_type \<Rightarrow> u64 \<Rightarrow> u64 \<Rightarrow> string option \<Rightarrow> ConsumerOptions \<Rightarrow> pulsar_message"
where
  "messages_subscribe topic subscription st consumer_id request_id name options =
     bare (default_base_command
       \<lparr>command_type := command_type_code TSubscribe,
        subscribe := Some
          \<lparr>sub_topic = topic, sub_subscription = subscription, sub_sub_type = sub_type_code st,
           sub_consumer_id = consumer_id, sub_request_id = request_id, sub_consumer_name = name,
           sub_priority_level = co_priority_level options, sub_durable = co_durable options,
           sub_start_message_id = co_start_message_id options,
           sub_metadata = map (\<lambda>(k, v). (k, v)) (co_metadata options),
           sub_read_compacted =
             Some (case co_read_compacted options of None \<Rightarrow> False | Some b \<Rightarrow> b),
           sub_schema = co_schema options,
           sub_initial_position = Some (initial_position_code (co_initial_position options))\<rparr>\<rparr>)"

definition messages_flow :: "u64 \<Rightarrow> u32 \<Rightarrow> pulsar_message" where
  "messages_flow consumer_id message_permits =
     bare (default_base_command
       \<lparr>command_type := command_type_code TFlow,
        flow := Some (CommandFlow consumer_id message_permits)\<rparr>)"

definition messages_ack :: "u64 \<Rightarrow> message_id_data list \<Rightarrow> bool \<Rightarrow> pulsar_message" where
  "messages_ack consumer_id ids cumulative =
     bare (default_base_command
       \<lparr>command_type := command_type_code TAck,
        ack := Some (CommandAck consumer_id (if cumulative then 1 else 0) ids None [])\<rparr>)"

definition messages_redeliver_unacknowleged_messages ::
  "u64 \<Rightarrow> message_id_data list \<Rightarrow> pulsar_message" where
  "messages_redeliver_unacknowleged_messages consumer_id ids =
     bare (default_base_command
       \<lparr>command_type := command_type_code TRedeliverUnacknowledgedMessages,
        redeliver_unacknowledged_messages :=
          Some (CommandRedeliverUnacknowledgedMessages consumer_id ids)\<rparr>)"

definition messages_close_consumer :: "u64 \<Rightarrow> u64 \<Rightarrow> pulsar_message" where
  "messages_close_consumer consumer_id request_id =
     bare (default_base_command
       \<lparr>command_type := command_type_code TCloseConsumer,
        close_consumer := Some (CommandCloseConsumer consumer_id request_id)\<rparr>)"

definition messages_seek ::
  "u64 \<Rightarrow> u64 \<Rightarrow> message_id_data option \<Rightarrow> u64 option \<Rightarrow> pulsar_message" where
  "messages_seek consumer_id request_id message_id timestamp =
     bare (default_base_command
       \<lparr>command_type := command_type_code TSeek,
        seek := Some (CommandSeek consumer_id request_id message_id timestamp)\<rparr>)"

definition messages_unsubscribe :: "u64 \<Rightarrow> u64 \<Rightarrow> pulsar_message" where
  "messages_unsubscribe consumer_id request_id =
     bare (default_base_command
       \<lparr>command_type := command_type_code TUnsubscribe,
        unsubscribe := Some (CommandUnsubscribe consumer_id request_id)\<rparr>)"

lemmas messages_defs [proto_simps] =
  bare_def messages_connect_def messages_ping_def messages_pong_def messages_create_producer_def
  messages_get_topics_of_namespace_def messages_send_def messages_lookup_topic_def
  messages_lookup_partitioned_topic_def messages_consumer_stats_def
  messages_get_last_message_id_def messages_close_producer_def messages_subscribe_def
  messages_flow_def messages_ack_def messages_redeliver_unacknowleged_messages_def
  messages_close_consumer_def messages_seek_def messages_unsubscribe_def

section \<open>Keys of the built commands\<close>

lemma request_key_requests [simp]:
  "request_key (messages_create_producer t n p r po) = Some (RequestId r)"
  "request_key (messages_get_topics_of_namespace r ns md) = Some (RequestId r)"
  "request_key (messages_lookup_topic t a r) = Some (RequestId r)"
  "request_key (messages_lookup_partitioned_topic t r) = Some (RequestId r)"
  "request_key (messages_consumer_stats r c) = Some (RequestId r)"
  "request_key (messages_get_last_message_id c r) = Some (RequestId r)"
  "request_key (messages_close_producer p r) = Some (RequestId r)"
  "request_key (messages_subscribe t s st c r n' co) = Some (RequestId r)"
  "request_key (messages_seek c r i ts) = Some (RequestId r)"
  "request_key (messages_unsubscribe c r) = Some (RequestId r)"
  by (simp_all add: request_key_defs proto_simps)

lemma request_key_others [simp]:
  "request_key (messages_send now p n s pm) = Some (ProducerSend p s)"
  "request_key (messages_flow c k) = Some (Consumer c)"
  "request_key (messages_ack c ids cum) = Some (Consumer c)"
  "request_key (messages_redeliver_unacknowleged_messages c ids) = Some (Consumer c)"
  "request_key (messages_close_consumer c r) = Some (CloseConsumer c r)"
  "request_key messages_ping = None"
  "request_key messages_pong = None"
  "request_key (messages_connect a px) = None"
  by (simp_all add: request_key_defs proto_simps)

section \<open>Well-formed commands\<close>

text \<open>
  What the protocol asks of a \<open>BaseCommand\<close>: exactly one of the command fields is present, and
  the type number is the number of that command. \<open>present_commands\<close> lists the commands present.
\<close>

definition present_commands :: "base_command \<Rightarrow> command_type list" where
  "present_commands c =
     map snd (filter fst
       [(connect c \<noteq> None, TConnect), (connected c \<noteq> None, TConnected),
        (subscribe c \<noteq> None, TSubscribe), (producer c \<noteq> None, TProducer),
        (send c \<noteq> None, TSend), (send_receipt c \<noteq> None, TSendReceipt),
        (send_error c \<noteq> None, TSendError), (message c \<noteq> None, TMessage),
        (ack c \<noteq> None, TAck), (flow c \<noteq> None, TFlow),
        (unsubscribe c \<noteq> None, TUnsubscribe), (success c \<noteq> None, TSuccess),
        (error c \<noteq> None, TError), (close_producer c \<noteq> None, TCloseProducer),
        (close_consumer c \<noteq> None, TCloseConsumer),
        (producer_success c \<noteq> None, TProducerSuccess), (ping c \<noteq> None, TPing),
        (pong c \<noteq> None, TPong),
        (redeliver_unacknowledged_messages c \<noteq> None, TRedeliverUnacknowledgedMessages),
        (partition_metadata c \<noteq> None, TPartitionedMetadata),
        (partition_metadata_response c \<noteq> None, TPartitionedMetadataResponse),
        (lookup_topic c \<noteq> None, TLookup), (lookup_topic_response c \<noteq> None, TLookupResponse),
        (consumer_stats c \<noteq> None, TConsumerStats),
        (consumer_stats_response c \<noteq> None, TConsumerStatsResponse),
        (reached_end_of_topic c \<noteq> None, TReachedEndOfTopic), (seek c \<noteq> None, TSeek),
        (get_last_message_id c \<noteq> None, TGetLastMessageId),
        (get_last_message_id_response c \<noteq> None, TGetLastMessageIdResponse),
        (active_consumer_change c \<noteq> None, TActiveConsumerChange),
        (get_topics_of_namespace c \<noteq> None, TGetTopicsOfNamespace),
        (get_topics_of_namespace_response c \<noteq> None, TGetTopicsOfNamespaceResponse),
        (get_schema c \<noteq> None, TGetSchema), (get_schema_response c \<noteq> None, TGetSchemaResponse)])"

definition well_formed_command :: "base_command \<Rightarrow> bool" where
  "well_formed_command c \<longleftrightarrow>
     other_commands c = [] \<and> map command_type_code (present_commands c) = [command_type c]"

text \<open>Every command the client can build, by the function that builds it.\<close>

inductive built :: "pulsar_message \<Rightarrow> bool" where
  "built (messages_connect a px)"
| "built messages_ping"
| "built messages_pong"
| "built (messages_create_producer t n p r po)"
| "built (messages_get_topics_of_namespace r ns md)"
| "built (messages_send now p nm s pm)"
| "built (messages_lookup_topic t au r)"
| "built (messages_lookup_partitioned_topic t r)"
| "built (messages_consumer_stats r c)"
| "built (messages_get_last_message_id c r)"
| "built (messages_close_producer p r)"
| "built (messages_subscribe t sn st c r n co)"
| "built (messages_flow c k)"
| "built (messages_ack c ids cum)"
| "built (messages_redeliver_unacknowleged_messages c ids)"
| "built (messages_close_consumer c r)"
| "built (messages_seek c r i ts)"
| "built (messages_unsubscribe c r)"

text \<open>C36: every command the client builds is well formed: exactly one command field is present
  and the type number is the one the proto file gives to that command.\<close>

theorem built_well_formed:
  assumes "built m"
  shows "well_formed_command (command m)"
  using assms
  by cases (simp_all add: well_formed_command_def present_commands_def proto_simps)

theorem built_well_formed_witness:
  "well_formed_command (command (messages_seek 3 7 None (Some 1000)))"
  by (rule built_well_formed [OF built.intros(17)])

end
