(* ===== verification/Correlation.thy ===== *)
theory Correlation
  imports Prelude
begin

text \<open>
  The contract of a correlation table: requests and responses with the same key meet, whichever
  comes first. A request that finds its response takes it; one that does not waits. A response
  that finds its request resolves it; one that does not is kept. The client's view is proved once
  from these laws: on a history in which no key is used twice by a request and none by a
  response, the resolved pairs are exactly the pairs of a request and a response with the same
  key, whatever the interleaving.
\<close>

section \<open>The interface\<close>

datatype ('k, 'r, 'm) corr_event =
    Request 'k 'r
  | Response 'k 'm

fun requests_of :: "('k, 'r, 'm) corr_event list \<Rightarrow> ('k \<times> 'r) list" where
  "requests_of [] = []"
| "requests_of (Request k r # es) = (k, r) # requests_of es"
| "requests_of (Response k m # es) = requests_of es"

fun responses_of :: "('k, 'r, 'm) corr_event list \<Rightarrow> ('k \<times> 'm) list" where
  "responses_of [] = []"
| "responses_of (Request k r # es) = responses_of es"
| "responses_of (Response k m # es) = (k, m) # responses_of es"

lemma requests_of_append [simp]: "requests_of (xs @ ys) = requests_of xs @ requests_of ys"
  by (induction xs rule: requests_of.induct) simp_all

lemma responses_of_append [simp]: "responses_of (xs @ ys) = responses_of xs @ responses_of ys"
  by (induction xs rule: responses_of.induct) simp_all

definition unique_keys :: "('k, 'r, 'm) corr_event list \<Rightarrow> bool" where
  "unique_keys es \<longleftrightarrow>
     distinct (map fst (requests_of es)) \<and> distinct (map fst (responses_of es))"

text \<open>The specification: the join of requests and responses on their keys.\<close>

definition matched :: "('k, 'r, 'm) corr_event list \<Rightarrow> ('r \<times> 'm) set" where
  "matched es =
     {(r, m). \<exists>k. (k, r) \<in> set (requests_of es) \<and> (k, m) \<in> set (responses_of es)}"

locale correlator =
  fixes waiting :: "'s \<Rightarrow> 'k \<Rightarrow> 'r option"
    and kept :: "'s \<Rightarrow> 'k \<Rightarrow> 'm option"
    and resolved :: "'s \<Rightarrow> ('r \<times> 'm) list"
    and request :: "'k \<Rightarrow> 'r \<Rightarrow> 's \<Rightarrow> 's"
    and response :: "'k \<Rightarrow> 'm \<Rightarrow> 's \<Rightarrow> 's"
  assumes request_kept: "kept s k = Some m \<Longrightarrow>
      waiting (request k r s) = waiting s \<and> kept (request k r s) = (kept s)(k := None) \<and>
      resolved (request k r s) = resolved s @ [(r, m)]"
    and request_waits: "kept s k = None \<Longrightarrow>
      waiting (request k r s) = (waiting s)(k \<mapsto> r) \<and> kept (request k r s) = kept s \<and>
      resolved (request k r s) = resolved s"
    and response_resolves: "waiting s k = Some r \<Longrightarrow>
      waiting (response k m s) = (waiting s)(k := None) \<and> kept (response k m s) = kept s \<and>
      resolved (response k m s) = resolved s @ [(r, m)]"
    and response_kept: "waiting s k = None \<Longrightarrow>
      waiting (response k m s) = waiting s \<and> kept (response k m s) = (kept s)(k \<mapsto> m) \<and>
      resolved (response k m s) = resolved s"
begin

fun run_event :: "('k, 'r, 'm) corr_event \<Rightarrow> 's \<Rightarrow> 's" where
  "run_event (Request k r) s = request k r s"
| "run_event (Response k m) s = response k m s"

text \<open>What the tables hold after a history, in terms of the history alone.\<close>

definition reflects :: "('k, 'r, 'm) corr_event list \<Rightarrow> 's \<Rightarrow> bool" where
  "reflects es s \<longleftrightarrow>
     waiting s = (\<lambda>k. if map_of (responses_of es) k = None then map_of (requests_of es) k else None) \<and>
     kept s = (\<lambda>k. if map_of (requests_of es) k = None then map_of (responses_of es) k else None) \<and>
     set (resolved s) = matched es"

lemma reflects_request:
  assumes "reflects es s" and "unique_keys (es @ [Request k r])"
  shows "reflects (es @ [Request k r]) (request k r s)"
proof -
  from assms(2) have new: "k \<notin> fst ` set (requests_of es)"
    and dist: "distinct (map fst (responses_of es))"
    by (auto simp: unique_keys_def)
  have none: "map_of (requests_of es) k = None" using new by (simp add: map_of_eq_None_iff)
  have req: "[k \<mapsto> r] ++ map_of (requests_of es) = (map_of (requests_of es))(k \<mapsto> r)"
    using none by (rule map_add_new)
  show ?thesis
  proof (cases "map_of (responses_of es) k")
    case None
    then have "kept s k = None" and "k \<notin> fst ` set (responses_of es)"
      using assms(1) by (auto simp: reflects_def map_of_eq_None_iff)
    moreover from this(2) have "matched (es @ [Request k r]) = matched es"
      by (auto simp: matched_def) force
    ultimately show ?thesis
      using assms(1) None none request_waits [of s k r]
      unfolding reflects_def by (auto simp: req fun_eq_iff)
  next
    case (Some m)
    then have "kept s k = Some m" using assms(1) none by (simp add: reflects_def)
    moreover have "matched (es @ [Request k r]) = insert (r, m) (matched es)"
      using Some dist by (auto simp: matched_def dest: map_of_SomeD eq_key_imp_eq_value)
    ultimately show ?thesis
      using assms(1) Some none request_kept [of s k m r]
      unfolding reflects_def by (auto simp: req fun_eq_iff)
  qed
qed

lemma reflects_response:
  assumes "reflects es s" and "unique_keys (es @ [Response k m])"
  shows "reflects (es @ [Response k m]) (response k m s)"
proof -
  from assms(2) have new: "k \<notin> fst ` set (responses_of es)"
    and dist: "distinct (map fst (requests_of es))"
    by (auto simp: unique_keys_def)
  have none: "map_of (responses_of es) k = None" using new by (simp add: map_of_eq_None_iff)
  have resp: "[k \<mapsto> m] ++ map_of (responses_of es) = (map_of (responses_of es))(k \<mapsto> m)"
    using none by (rule map_add_new)
  show ?thesis
  proof (cases "map_of (requests_of es) k")
    case None
    then have "waiting s k = None" and "k \<notin> fst ` set (requests_of es)"
      using assms(1) by (auto simp: reflects_def map_of_eq_None_iff)
    moreover from this(2) have "matched (es @ [Response k m]) = matched es"
      by (auto simp: matched_def) force
    ultimately show ?thesis
      using assms(1) None none response_kept [of s k m]
      unfolding reflects_def by (auto simp: resp fun_eq_iff)
  next
    case (Some r)
    then have "waiting s k = Some r" using assms(1) none by (simp add: reflects_def)
    moreover have "matched (es @ [Response k m]) = insert (r, m) (matched es)"
      using Some dist by (auto simp: matched_def dest: map_of_SomeD eq_key_imp_eq_value)
    ultimately show ?thesis
      using assms(1) Some none response_resolves [of s k r m]
      unfolding reflects_def by (auto simp: resp fun_eq_iff)
  qed
qed

lemma reflects_event:
  "reflects es s \<Longrightarrow> unique_keys (es @ [e]) \<Longrightarrow> reflects (es @ [e]) (run_event e s)"
  by (cases e) (simp_all add: reflects_request reflects_response)

lemma reflects_start:
  "waiting s = Map.empty \<Longrightarrow> kept s = Map.empty \<Longrightarrow> resolved s = [] \<Longrightarrow> reflects [] s"
  by (simp add: reflects_def matched_def)

lemma reflects_unchanged:
  assumes "reflects es s" and "waiting t = waiting s" and "kept t = kept s"
    and "resolved t = resolved s"
  shows "reflects es t"
  using assms by (simp add: reflects_def)

lemma reflects_resolved: "reflects es s \<Longrightarrow> set (resolved s) = matched es"
  by (simp add: reflects_def)

end

end
