(* ===== verification/Receiver.thy ===== *)
theory Receiver
  imports Messages Correlation
begin

text \<open>
  \<open>Receiver\<close> of \<open>src/connection.rs\<close>: the task that owns the read half of a connection. It
  correlates responses with the requests registered for them, routes messages to consumers,
  answers pings and reports the end of the connection through the shared error.

  A channel is named by a number. What the receiver does to the outside is an entry of its list
  of effects: a message sent on \<open>outbound\<close>, a one-shot channel completed with a message or with
  the unit of a pong, a message sent on the channel of a consumer, and a sender that is dropped
  because another one takes its place (whoever waits on its other end sees it cancelled).
  A failed send on a channel is ignored by the code and so by the model. One call of \<open>poll\<close> gets
  what the three polled streams have ready.
\<close>

section \<open>State\<close>

datatype Register =
    RegRequest (reg_key: RequestKey) (reg_resolver: nat)
  | RegConsumer (reg_consumer_id: u64) (reg_channel: nat)
  | RegPing (reg_ping: nat)

datatype effect =
    Outbound pulsar_message
  | Resolve nat pulsar_message
  | ResolvePing nat
  | Deliver nat pulsar_message
  | DropSender nat

record Receiver =
  rcv_error :: shared_error
  pending_requests :: "RequestKey \<rightharpoonup> nat"
  consumers :: "u64 \<rightharpoonup> nat"
  received_messages :: "RequestKey \<rightharpoonup> pulsar_message"
  rcv_ping :: "nat option"
  effects :: "effect list"

definition receiver_new :: "shared_error \<Rightarrow> Receiver" where
  "receiver_new e =
     \<lparr>rcv_error = e, pending_requests = Map.empty, consumers = Map.empty,
      received_messages = Map.empty, rcv_ping = None, effects = []\<rparr>"

definition emit :: "effect list \<Rightarrow> Receiver \<Rightarrow> Receiver" where
  "emit es r = r\<lparr>effects := effects r @ es\<rparr>"

definition dropped :: "nat option \<Rightarrow> effect list" where
  "dropped s = (case s of None \<Rightarrow> [] | Some c \<Rightarrow> [DropSender c])"

definition set_rcv_error :: "connection_error \<Rightarrow> Receiver \<Rightarrow> Receiver" where
  "set_rcv_error e r = r\<lparr>rcv_error := shared_error_set e (rcv_error r)\<rparr>"

section \<open>Registrations\<close>

definition register_request :: "RequestKey \<Rightarrow> nat \<Rightarrow> Receiver \<Rightarrow> Receiver" where
  "register_request key resolver r =
     (case received_messages r key of
        Some msg \<Rightarrow>
          emit [Resolve resolver msg]
            (r\<lparr>received_messages := (received_messages r)(key := None)\<rparr>)
      | None \<Rightarrow>
          emit (dropped (pending_requests r key))
            (r\<lparr>pending_requests := (pending_requests r)(key \<mapsto> resolver)\<rparr>))"

fun handle_registration :: "Register \<Rightarrow> Receiver \<Rightarrow> Receiver" where
  "handle_registration (RegRequest key resolver) r = register_request key resolver r"
| "handle_registration (RegConsumer consumer_id resolver) r =
     emit (dropped (consumers r consumer_id))
       (r\<lparr>consumers := (consumers r)(consumer_id \<mapsto> resolver)\<rparr>)"
| "handle_registration (RegPing resolver) r =
     emit (dropped (rcv_ping r)) (r\<lparr>rcv_ping := Some resolver\<rparr>)"

fun registration_loop :: "Register list \<Rightarrow> bool \<Rightarrow> Receiver \<Rightarrow> unit poll \<times> Receiver" where
  "registration_loop [] False r = (Pending, r)"
| "registration_loop [] True r = (Ready (), set_rcv_error Disconnected r)"
| "registration_loop (g # gs) fin r = registration_loop gs fin (handle_registration g r)"

section \<open>Inbound messages\<close>

definition receive_response :: "RequestKey \<Rightarrow> pulsar_message \<Rightarrow> Receiver \<Rightarrow> Receiver" where
  "receive_response key msg r =
     (case pending_requests r key of
        Some resolver \<Rightarrow>
          emit [Resolve resolver msg]
            (r\<lparr>pending_requests := (pending_requests r)(key := None)\<rparr>)
      | None \<Rightarrow> r\<lparr>received_messages := (received_messages r)(key \<mapsto> msg)\<rparr>)"

definition route_to_consumer :: "u64 \<Rightarrow> pulsar_message \<Rightarrow> Receiver \<Rightarrow> Receiver" where
  "route_to_consumer consumer_id msg r =
     (case consumers r consumer_id of
        Some channel \<Rightarrow> emit [Deliver channel msg] r
      | None \<Rightarrow> r)"

definition handle_message :: "pulsar_message \<Rightarrow> Receiver \<Rightarrow> Receiver" where
  "handle_message msg r =
     (if ping (command msg) \<noteq> None then emit [Outbound messages_pong] r
      else if pong (command msg) \<noteq> None then
        (case rcv_ping r of
           Some sender \<Rightarrow> emit [ResolvePing sender] (r\<lparr>rcv_ping := None\<rparr>)
         | None \<Rightarrow> r)
      else
        (case request_key msg of
           Some (RequestId i) \<Rightarrow> receive_response (RequestId i) msg r
         | Some (ProducerSend p s) \<Rightarrow> receive_response (ProducerSend p s) msg r
         | Some (Consumer consumer_id) \<Rightarrow> route_to_consumer consumer_id msg r
         | Some (CloseConsumer consumer_id request_id) \<Rightarrow>
             (case pending_requests r (RequestId request_id) of
                Some resolver \<Rightarrow>
                  emit [Resolve resolver msg]
                    (r\<lparr>pending_requests := (pending_requests r)(RequestId request_id := None)\<rparr>)
              | None \<Rightarrow> route_to_consumer consumer_id msg r)
         | None \<Rightarrow> r))"

fun inbound_loop ::
  "(connection_error, pulsar_message) res list \<Rightarrow> bool \<Rightarrow> Receiver \<Rightarrow> unit poll \<times> Receiver" where
  "inbound_loop [] False r = (Pending, r)"
| "inbound_loop [] True r = (Ready (), set_rcv_error Disconnected r)"
| "inbound_loop (Inr msg # ms) fin r = inbound_loop ms fin (handle_message msg r)"
| "inbound_loop (Inl e # ms) fin r = (Ready (), set_rcv_error e r)"

section \<open>Polling\<close>

record poll_input =
  shutdown_fired :: bool
  in_registrations :: "Register feed"
  in_inbound :: "(connection_error, pulsar_message) res feed"

definition poll :: "poll_input \<Rightarrow> Receiver \<Rightarrow> unit poll \<times> Receiver" where
  "poll i r =
     (if shutdown_fired i then (Ready (), r)
      else
        (case registration_loop (ready (in_registrations i)) (finished (in_registrations i)) r of
           (Ready u, r) \<Rightarrow> (Ready u, r)
         | (Pending, r) \<Rightarrow> inbound_loop (ready (in_inbound i)) (finished (in_inbound i)) r))"

text \<open>The executor polls the task until it is ready.\<close>

fun run_polls :: "poll_input list \<Rightarrow> Receiver \<Rightarrow> unit poll \<times> Receiver" where
  "run_polls [] r = (Pending, r)"
| "run_polls (i # is) r =
     (case poll i r of
        (Ready u, r) \<Rightarrow> (Ready u, r)
      | (Pending, r) \<Rightarrow> run_polls is r)"

section \<open>Observations\<close>

text \<open>The key under which an inbound message completes a request, if it is a response.\<close>

definition response_key :: "pulsar_message \<Rightarrow> RequestKey option" where
  "response_key msg =
     (if ping (command msg) \<noteq> None \<or> pong (command msg) \<noteq> None then None
      else case request_key msg of
        Some (RequestId i) \<Rightarrow> Some (RequestId i)
      | Some (ProducerSend p s) \<Rightarrow> Some (ProducerSend p s)
      | _ \<Rightarrow> None)"

text \<open>The request a close-consumer command of the broker names.\<close>

definition close_request :: "pulsar_message \<Rightarrow> u64 option" where
  "close_request msg =
     (if ping (command msg) \<noteq> None \<or> pong (command msg) \<noteq> None then None
      else case request_key msg of Some (CloseConsumer c i) \<Rightarrow> Some i | _ \<Rightarrow> None)"

text \<open>The consumer an inbound message is for, if it is for one.\<close>

definition consumer_of :: "pulsar_message \<Rightarrow> u64 option" where
  "consumer_of m =
     (if ping (command m) \<noteq> None \<or> pong (command m) \<noteq> None then None
      else case request_key m of
        Some (Consumer c) \<Rightarrow> Some c
      | Some (CloseConsumer c i) \<Rightarrow> Some c
      | _ \<Rightarrow> None)"

definition resolutions :: "effect list \<Rightarrow> (nat \<times> pulsar_message) list" where
  "resolutions es = concat (map (\<lambda>e. case e of Resolve x m \<Rightarrow> [(x, m)] | _ \<Rightarrow> []) es)"

definition deliveries :: "nat \<Rightarrow> effect list \<Rightarrow> pulsar_message list" where
  "deliveries ch es =
     concat (map (\<lambda>e. case e of Deliver c m \<Rightarrow> if c = ch then [m] else [] | _ \<Rightarrow> []) es)"

definition outbound_messages :: "effect list \<Rightarrow> pulsar_message list" where
  "outbound_messages es = concat (map (\<lambda>e. case e of Outbound m \<Rightarrow> [m] | _ \<Rightarrow> []) es)"

text \<open>What the correlation of requests and responses sees of an input.\<close>

definition reg_events :: "Register \<Rightarrow> (RequestKey, nat, pulsar_message) corr_event list" where
  "reg_events g = (case g of RegRequest k x \<Rightarrow> [Request k x] | _ \<Rightarrow> [])"

definition msg_events ::
  "pulsar_message \<Rightarrow> (RequestKey, nat, pulsar_message) corr_event list" where
  "msg_events m = (case response_key m of Some k \<Rightarrow> [Response k m] | None \<Rightarrow> [])"

text \<open>An input on which the task goes on, and the messages it brings.\<close>

definition live_input :: "poll_input \<Rightarrow> bool" where
  "live_input i \<longleftrightarrow>
     \<not> shutdown_fired i \<and> \<not> finished (in_registrations i) \<and> \<not> finished (in_inbound i) \<and>
     list_all is_ok (ready (in_inbound i))"

definition inbound_messages :: "poll_input \<Rightarrow> pulsar_message list" where
  "inbound_messages i =
     concat (map (\<lambda>x. case x of Inr m \<Rightarrow> [m] | Inl _ \<Rightarrow> []) (ready (in_inbound i)))"

definition corr_events :: "poll_input \<Rightarrow> (RequestKey, nat, pulsar_message) corr_event list" where
  "corr_events i =
     concat (map reg_events (ready (in_registrations i))) @
     concat (map msg_events (inbound_messages i))"

section \<open>Lemmas\<close>

lemma resolutions_simps [simp]:
  "resolutions [] = []"
  "resolutions (xs @ ys) = resolutions xs @ resolutions ys"
  "resolutions (Resolve x m # es) = (x, m) # resolutions es"
  "resolutions (Outbound m # es) = resolutions es"
  "resolutions (ResolvePing x # es) = resolutions es"
  "resolutions (Deliver c m # es) = resolutions es"
  "resolutions (DropSender c # es) = resolutions es"
  by (simp_all add: resolutions_def)

lemma deliveries_simps [simp]:
  "deliveries ch [] = []"
  "deliveries ch (xs @ ys) = deliveries ch xs @ deliveries ch ys"
  "deliveries ch (Deliver c m # es) = (if c = ch then m # deliveries ch es else deliveries ch es)"
  "deliveries ch (Outbound m # es) = deliveries ch es"
  "deliveries ch (Resolve x m # es) = deliveries ch es"
  "deliveries ch (ResolvePing x # es) = deliveries ch es"
  "deliveries ch (DropSender c # es) = deliveries ch es"
  by (simp_all add: deliveries_def)

lemma outbound_messages_simps [simp]:
  "outbound_messages [] = []"
  "outbound_messages (xs @ ys) = outbound_messages xs @ outbound_messages ys"
  "outbound_messages (Outbound m # es) = m # outbound_messages es"
  "outbound_messages (Resolve x m # es) = outbound_messages es"
  "outbound_messages (ResolvePing x # es) = outbound_messages es"
  "outbound_messages (Deliver c m # es) = outbound_messages es"
  "outbound_messages (DropSender c # es) = outbound_messages es"
  by (simp_all add: outbound_messages_def)

lemma emit_simps [simp]:
  "effects (emit es r) = effects r @ es"
  "pending_requests (emit es r) = pending_requests r"
  "received_messages (emit es r) = received_messages r"
  "consumers (emit es r) = consumers r"
  "rcv_ping (emit es r) = rcv_ping r"
  "rcv_error (emit es r) = rcv_error r"
  by (simp_all add: emit_def)

lemma dropped_quiet [simp]:
  "resolutions (dropped s) = []"
  "deliveries ch (dropped s) = []"
  "outbound_messages (dropped s) = []"
  by (simp_all add: dropped_def split: option.split)

interpretation corr: correlator pending_requests received_messages
  "\<lambda>r. resolutions (effects r)" register_request receive_response
  by unfold_locales (simp_all add: register_request_def receive_response_def)

lemma handle_registration_events:
  assumes "corr.reflects es r" and "unique_keys (es @ reg_events g)"
  shows "corr.reflects (es @ reg_events g) (handle_registration g r)"
proof (cases g)
  case (RegRequest k x)
  with assms show ?thesis by (simp add: reg_events_def corr.reflects_request)
next
  case (RegConsumer c ch)
  with assms(1) show ?thesis by (simp add: reg_events_def corr.reflects_unchanged)
next
  case (RegPing x)
  with assms(1) show ?thesis by (simp add: reg_events_def corr.reflects_unchanged)
qed

text \<open>The six ways the receiver treats a message.\<close>

lemmas message_class_defs = response_key_def close_request_def consumer_of_def handle_message_def

lemma handle_message_cases [case_names Ping Pong Resp Cons Close Unknown]:
  obtains
    (Ping) "ping (command m) \<noteq> None" "response_key m = None" "consumer_of m = None"
      "close_request m = None" "handle_message m r = emit [Outbound messages_pong] r"
  | (Pong) "ping (command m) = None" "response_key m = None" "consumer_of m = None"
      "close_request m = None"
      "handle_message m r =
         (case rcv_ping r of None \<Rightarrow> r | Some x \<Rightarrow> emit [ResolvePing x] (r\<lparr>rcv_ping := None\<rparr>))"
  | (Resp) k where "ping (command m) = None" "response_key m = Some k" "consumer_of m = None"
      "close_request m = None" "handle_message m r = receive_response k m r"
  | (Cons) c where "ping (command m) = None" "response_key m = None" "consumer_of m = Some c"
      "close_request m = None" "handle_message m r = route_to_consumer c m r"
  | (Close) c i where "ping (command m) = None" "response_key m = None" "consumer_of m = Some c"
      "close_request m = Some i"
      "handle_message m r =
         (case pending_requests r (RequestId i) of
            Some x \<Rightarrow> emit [Resolve x m]
              (r\<lparr>pending_requests := (pending_requests r)(RequestId i := None)\<rparr>)
          | None \<Rightarrow> route_to_consumer c m r)"
  | (Unknown) "ping (command m) = None" "response_key m = None" "consumer_of m = None"
      "close_request m = None" "handle_message m r = r"
proof (cases "ping (command m)")
  case (Some u)
  then show thesis using Ping by (simp add: message_class_defs)
next
  case no_ping: None
  show thesis
  proof (cases "pong (command m)")
    case (Some u)
    then show thesis using Pong no_ping by (simp add: message_class_defs option.case_eq_if)
  next
    case None
    note defs = message_class_defs
    show thesis
    proof (cases "request_key m")
      case none: None
      then show thesis using Unknown no_ping None by (simp add: defs)
    next
      case (Some k)
      then show thesis using Resp Cons Close no_ping None by (cases k) (simp_all add: defs)
    qed
  qed
qed

text \<open>A message that is not a response leaves the correlation alone, unless it is a close-consumer
  command that names a waiting request.\<close>

lemma handle_message_other:
  assumes "response_key m = None"
    and "\<forall>i. close_request m = Some i \<longrightarrow> pending_requests r (RequestId i) = None"
  shows "pending_requests (handle_message m r) = pending_requests r"
    and "received_messages (handle_message m r) = received_messages r"
    and "resolutions (effects (handle_message m r)) = resolutions (effects r)"
  using assms
  by (cases m r rule: handle_message_cases;
      simp add: route_to_consumer_def split: option.split)+

lemma handle_message_response:
  "response_key m = Some k \<Longrightarrow> handle_message m r = receive_response k m r"
  by (auto simp: handle_message_def response_key_def split: if_splits option.splits RequestKey.splits)

lemma handle_message_events:
  assumes "corr.reflects es r" and "unique_keys (es @ msg_events m)"
    and "\<forall>i. close_request m = Some i \<longrightarrow> RequestId i \<notin> fst ` set (requests_of es)"
  shows "corr.reflects (es @ msg_events m) (handle_message m r)"
proof (cases "response_key m")
  case None
  have "\<forall>i. close_request m = Some i \<longrightarrow> pending_requests r (RequestId i) = None"
    using assms(1,3) by (auto simp: corr.reflects_def map_of_eq_None_iff)
  with None assms(1) show ?thesis
    by (simp add: msg_events_def corr.reflects_unchanged handle_message_other)
next
  case (Some k)
  with assms show ?thesis
    by (simp add: msg_events_def handle_message_response corr.reflects_response)
qed

section \<open>Polling as folds\<close>

fun first_failure :: "(connection_error, pulsar_message) res list \<Rightarrow> bool \<Rightarrow> connection_error option"
where
  "first_failure [] fin = (if fin then Some Disconnected else None)"
| "first_failure (Inr m # ms) fin = first_failure ms fin"
| "first_failure (Inl e # ms) fin = Some e"

text \<open>How the connection of an input ends, if it does: what the shared error is set to.\<close>

definition input_failure :: "poll_input \<Rightarrow> connection_error option" where
  "input_failure i =
     (if finished (in_registrations i) then Some Disconnected
      else first_failure (ready (in_inbound i)) (finished (in_inbound i)))"

lemma registration_loop_fold:
  "registration_loop gs fin r =
     (if fin then (Ready (), set_rcv_error Disconnected (fold handle_registration gs r))
      else (Pending, fold handle_registration gs r))"
  by (induction gs fin r rule: registration_loop.induct) simp_all

lemma inbound_loop_live:
  "list_all is_ok xs \<Longrightarrow> inbound_loop xs False r =
     (Pending, fold handle_message (concat (map (\<lambda>x. case x of Inr m \<Rightarrow> [m] | Inl _ \<Rightarrow> []) xs)) r)"
proof (induction xs arbitrary: r)
  case Nil
  show ?case by simp
next
  case (Cons x xs)
  then show ?case by (cases x) auto
qed

lemma poll_live:
  assumes "live_input i"
  shows "poll i r =
    (Pending, fold handle_message (inbound_messages i)
                (fold handle_registration (ready (in_registrations i)) r))"
  using assms
  by (simp add: live_input_def poll_def registration_loop_fold inbound_loop_live inbound_messages_def)

lemma handle_registration_error [simp]: "rcv_error (handle_registration g r) = rcv_error r"
  by (cases g) (simp_all add: register_request_def split: option.split)

lemma handle_message_error [simp]: "rcv_error (handle_message m r) = rcv_error r"
  by (simp add: handle_message_def receive_response_def route_to_consumer_def
      split: option.split RequestKey.split)

lemma fold_registration_error [simp]: "rcv_error (fold handle_registration gs r) = rcv_error r"
  by (induction gs arbitrary: r) simp_all

lemma set_rcv_error_error [simp]:
  "rcv_error (set_rcv_error e r) = shared_error_set e (rcv_error r)"
  by (simp add: set_rcv_error_def)

lemma inbound_loop_outcome:
  "fst (inbound_loop xs fin r) = (if first_failure xs fin = None then Pending else Ready ()) \<and>
   rcv_error (snd (inbound_loop xs fin r)) =
     (case first_failure xs fin of None \<Rightarrow> rcv_error r | Some e \<Rightarrow> shared_error_set e (rcv_error r))"
  by (induction xs fin r rule: inbound_loop.induct) (simp_all split: option.split)

lemma poll_error_cell:
  "rcv_error (snd (poll i r)) =
     (if shutdown_fired i then rcv_error r
      else case input_failure i of
        None \<Rightarrow> rcv_error r
      | Some e \<Rightarrow> shared_error_set e (rcv_error r))"
  using inbound_loop_outcome
  by (simp add: poll_def registration_loop_fold input_failure_def split: option.split)

lemma poll_ready_iff:
  "fst (poll i r) = Ready () \<longleftrightarrow> shutdown_fired i \<or> input_failure i \<noteq> None"
  using inbound_loop_outcome
  by (auto simp: poll_def registration_loop_fold input_failure_def)

section \<open>Correlation over many polls\<close>

lemma unique_keys_prefix: "unique_keys (xs @ ys) \<Longrightarrow> unique_keys xs"
  by (simp add: unique_keys_def)

lemma fold_registration_events:
  assumes "corr.reflects es r" and "unique_keys (es @ concat (map reg_events gs))"
  shows "corr.reflects (es @ concat (map reg_events gs)) (fold handle_registration gs r)"
  using assms
proof (induction gs arbitrary: es r)
  case Nil
  then show ?case by simp
next
  case (Cons g gs)
  from Cons.prems(2) have "unique_keys (es @ reg_events g)"
    using unique_keys_prefix [of "es @ reg_events g"] by simp
  with Cons.prems(1) have "corr.reflects (es @ reg_events g) (handle_registration g r)"
    by (rule handle_registration_events)
  from Cons.IH [OF this] Cons.prems(2) show ?case by simp
qed

lemma requests_of_msg_events [simp]: "requests_of (msg_events m) = []"
  by (simp add: msg_events_def split: option.split)

lemma requests_of_msgs [simp]: "requests_of (concat (map msg_events ms)) = []"
  by (induction ms) simp_all

lemma fold_message_events:
  assumes "corr.reflects es r" and "unique_keys (es @ concat (map msg_events ms))"
    and "\<forall>m \<in> set ms. \<forall>i. close_request m = Some i \<longrightarrow> RequestId i \<notin> fst ` set (requests_of es)"
  shows "corr.reflects (es @ concat (map msg_events ms)) (fold handle_message ms r)"
  using assms
proof (induction ms arbitrary: es r)
  case Nil
  then show ?case by simp
next
  case (Cons m ms)
  from Cons.prems(2) have "unique_keys (es @ msg_events m)"
    using unique_keys_prefix [of "es @ msg_events m"] by simp
  with Cons.prems(1,3) have "corr.reflects (es @ msg_events m) (handle_message m r)"
    by (simp add: handle_message_events)
  from Cons.IH [OF this] Cons.prems(2,3) show ?case by simp
qed

text \<open>No close-consumer command of the broker names a request the client registered.\<close>

definition closes_are_foreign ::
  "(RequestKey, nat, pulsar_message) corr_event list \<Rightarrow> poll_input list \<Rightarrow> bool" where
  "closes_are_foreign es is \<longleftrightarrow>
     (\<forall>i \<in> set is. \<forall>m \<in> set (inbound_messages i). \<forall>q.
        close_request m = Some q \<longrightarrow> RequestId q \<notin> fst ` set (requests_of es))"

lemma run_polls_events:
  assumes "corr.reflects es r" and "list_all live_input is"
    and "unique_keys (es @ concat (map corr_events is))"
    and "closes_are_foreign (es @ concat (map corr_events is)) is"
  shows "fst (run_polls is r) = Pending \<and>
    corr.reflects (es @ concat (map corr_events is)) (snd (run_polls is r))"
  using assms
proof (induction "is" arbitrary: es r)
  case Nil
  then show ?case by simp
next
  case (Cons i "is")
  let ?gs = "concat (map reg_events (ready (in_registrations i)))"
  let ?r = "fold handle_registration (ready (in_registrations i)) r"
  let ?r' = "fold handle_message (inbound_messages i) ?r"
  have u: "unique_keys ((es @ ?gs) @ concat (map msg_events (inbound_messages i)))"
    using Cons.prems(3) unique_keys_prefix [of "es @ corr_events i"] by (simp add: corr_events_def)
  then have "corr.reflects (es @ ?gs) ?r"
    using Cons.prems(1) fold_registration_events unique_keys_prefix by blast
  moreover have "\<forall>m \<in> set (inbound_messages i). \<forall>q. close_request m = Some q \<longrightarrow>
      RequestId q \<notin> fst ` set (requests_of (es @ ?gs))"
    using Cons.prems(4) by (auto simp: closes_are_foreign_def corr_events_def)
  ultimately have "corr.reflects (es @ corr_events i) ?r'"
    using fold_message_events [OF _ u] by (simp add: corr_events_def)
  from Cons.IH [OF this] Cons.prems
  have "fst (run_polls is ?r') = Pending \<and>
      corr.reflects ((es @ corr_events i) @ concat (map corr_events is)) (snd (run_polls is ?r'))"
    by (simp add: closes_are_foreign_def)
  moreover have "poll i r = (Pending, ?r')" using Cons.prems(2) by (simp add: poll_live)
  ultimately show ?case by simp
qed

section \<open>Routing, pings and table invariant\<close>

definition closes_nothing_pending :: "Receiver \<Rightarrow> pulsar_message list \<Rightarrow> bool" where
  "closes_nothing_pending r ms \<longleftrightarrow>
     (\<forall>m \<in> set ms. \<forall>i. close_request m = Some i \<longrightarrow> pending_requests r (RequestId i) = None)"

lemma handle_message_pending_shrinks:
  "pending_requests r k = None \<Longrightarrow> pending_requests (handle_message m r) k = None"
  by (cases m r rule: handle_message_cases)
    (simp_all add: receive_response_def route_to_consumer_def split: option.split)

lemma handle_message_consumers [simp]: "consumers (handle_message m r) = consumers r"
  by (simp add: handle_message_def receive_response_def route_to_consumer_def
      split: option.split RequestKey.split)

lemma closes_nothing_pending_step:
  "closes_nothing_pending r (m # ms) \<Longrightarrow> closes_nothing_pending (handle_message m r) ms"
  by (simp add: closes_nothing_pending_def handle_message_pending_shrinks)

text \<open>The channel of a consumer that no other consumer id is registered with.\<close>

definition sole_channel :: "Receiver \<Rightarrow> u64 \<Rightarrow> nat \<Rightarrow> bool" where
  "sole_channel r c ch \<longleftrightarrow> consumers r c = Some ch \<and> (\<forall>c'. consumers r c' = Some ch \<longrightarrow> c' = c)"

lemma sole_channel_message [simp]: "sole_channel (handle_message m r) c ch = sole_channel r c ch"
  by (simp add: sole_channel_def)

lemma handle_message_delivery:
  assumes "sole_channel r c ch" and "closes_nothing_pending r [m]"
  shows "deliveries ch (effects (handle_message m r)) =
    deliveries ch (effects r) @ (if consumer_of m = Some c then [m] else [])"
  using assms
  by (cases m r rule: handle_message_cases)
    (auto simp: receive_response_def route_to_consumer_def closes_nothing_pending_def
      sole_channel_def split: option.split)

lemma fold_message_delivery:
  assumes "sole_channel r c ch" and "closes_nothing_pending r ms"
  shows "deliveries ch (effects (fold handle_message ms r)) =
    deliveries ch (effects r) @ filter (\<lambda>m. consumer_of m = Some c) ms"
  using assms
proof (induction ms arbitrary: r)
  case Nil
  show ?case by simp
next
  case (Cons m ms)
  have "closes_nothing_pending r [m]"
    using Cons.prems(2) by (simp add: closes_nothing_pending_def)
  from handle_message_delivery [OF Cons.prems(1) this]
    Cons.IH [of "handle_message m r"] Cons.prems closes_nothing_pending_step
  show ?case by simp
qed

lemma handle_message_outbound:
  "outbound_messages (effects (handle_message m r)) =
     outbound_messages (effects r) @ (if ping (command m) = None then [] else [messages_pong])"
  by (simp add: handle_message_def receive_response_def route_to_consumer_def
      split: option.split RequestKey.split)

lemma fold_message_outbound:
  "outbound_messages (effects (fold handle_message ms r)) =
     outbound_messages (effects r)
     @ replicate (length (filter (\<lambda>m. ping (command m) \<noteq> None) ms)) messages_pong"
  by (induction ms arbitrary: r) (simp_all add: handle_message_outbound)

lemma handle_registration_quiet [simp]:
  "outbound_messages (effects (handle_registration g r)) = outbound_messages (effects r)"
  "deliveries ch (effects (handle_registration g r)) = deliveries ch (effects r)"
  by (cases g; simp add: register_request_def split: option.split)+

lemma fold_registration_quiet [simp]:
  "outbound_messages (effects (fold handle_registration gs r)) = outbound_messages (effects r)"
  "deliveries ch (effects (fold handle_registration gs r)) = deliveries ch (effects r)"
  by (induction gs arbitrary: r) simp_all

text \<open>The well-formedness of the two tables: no key is in both, and a kept message is a response
  stored under its own key.\<close>

definition tables_inv :: "Receiver \<Rightarrow> bool" where
  "tables_inv r \<longleftrightarrow>
     (\<forall>k m. received_messages r k = Some m \<longrightarrow>
        pending_requests r k = None \<and> response_key m = Some k)"

lemma tables_inv_registration: "tables_inv r \<Longrightarrow> tables_inv (handle_registration g r)"
  by (cases g) (auto simp: tables_inv_def register_request_def split: option.splits)

lemma receive_response_inv:
  "tables_inv r \<Longrightarrow> response_key m = Some k \<Longrightarrow> tables_inv (receive_response k m r)"
  by (auto simp: tables_inv_def receive_response_def split: option.splits)

lemma tables_inv_emit [simp]: "tables_inv (emit es r) = tables_inv r"
  by (simp add: tables_inv_def)

lemma tables_inv_message: "tables_inv r \<Longrightarrow> tables_inv (handle_message m r)"
  by (cases m r rule: handle_message_cases)
    (auto simp: receive_response_inv route_to_consumer_def split: option.split,
      auto simp: tables_inv_def)

lemma tables_inv_set_error [simp]: "tables_inv (set_rcv_error e r) = tables_inv r"
  by (simp add: tables_inv_def set_rcv_error_def)

lemma tables_inv_registration_loop:
  "tables_inv r \<Longrightarrow> tables_inv (snd (registration_loop gs fin r))"
  by (induction gs fin r rule: registration_loop.induct) (simp_all add: tables_inv_registration)

lemma tables_inv_inbound_loop: "tables_inv r \<Longrightarrow> tables_inv (snd (inbound_loop ms fin r))"
  by (induction ms fin r rule: inbound_loop.induct) (simp_all add: tables_inv_message)

lemma tables_inv_poll: "tables_inv r \<Longrightarrow> tables_inv (snd (poll i r))"
  using tables_inv_registration_loop [of r "ready (in_registrations i)" "finished (in_registrations i)"]
  by (auto simp: poll_def tables_inv_inbound_loop split: prod.splits poll.splits)

lemma tables_inv_run_polls: "tables_inv r \<Longrightarrow> tables_inv (snd (run_polls is r))"
proof (induction "is" arbitrary: r)
  case Nil
  then show ?case by simp
next
  case (Cons i "is")
  have "tables_inv (snd (poll i r))" using Cons.prems by (rule tables_inv_poll)
  with Cons.IH show ?case by (auto split: prod.splits poll.splits)
qed

lemma registered_consumers_kept:
  "\<forall>g \<in> set gs. \<forall>c ch. g \<noteq> RegConsumer c ch \<Longrightarrow>
     consumers (fold handle_registration gs r) = consumers r"
proof (induction gs arbitrary: r)
  case Nil
  show ?case by simp
next
  case (Cons g gs)
  have "consumers (handle_registration g r) = consumers r"
    using Cons.prems by (cases g) (auto simp: register_request_def split: option.split)
  with Cons show ?case by simp
qed

section \<open>Instances for concrete inputs\<close>

definition ex_success :: "u64 \<Rightarrow> pulsar_message" where
  "ex_success i =
     bare (default_base_command
       \<lparr>command_type := command_type_code TSuccess, success := Some (CommandSuccess i)\<rparr>)"

definition ex_delivery :: "u64 \<Rightarrow> u64 \<Rightarrow> pulsar_message" where
  "ex_delivery c e =
     bare (default_base_command
       \<lparr>command_type := command_type_code TMessage,
        message := Some (CommandMessage c (MessageIdData 1 e None None [] None None) None)\<rparr>)"

definition ex_input :: "Register list \<Rightarrow> pulsar_message list \<Rightarrow> poll_input" where
  "ex_input gs ms =
     \<lparr>shutdown_fired = False, in_registrations = \<lparr>ready = gs, finished = False\<rparr>,
      in_inbound = \<lparr>ready = map Inr ms, finished = False\<rparr>\<rparr>"

lemma ex_input_simps [simp]:
  "live_input (ex_input gs ms)"
  "inbound_messages (ex_input gs ms) = ms"
  "ready (in_registrations (ex_input gs ms)) = gs"
  by (simp_all add: ex_input_def live_input_def inbound_messages_def comp_def list_all_iff
      concat_map_singleton)

lemma ex_message_keys [simp]:
  "response_key (ex_success i) = Some (RequestId i)"
  "close_request (ex_success i) = None"
  "consumer_of (ex_success i) = None"
  "response_key (ex_delivery c e) = None"
  "close_request (ex_delivery c e) = None"
  "consumer_of (ex_delivery c e) = Some c"
  by (simp_all add: response_key_def close_request_def consumer_of_def request_key_defs ex_success_def
      ex_delivery_def proto_simps)

section \<open>Properties of the receiver\<close>

text \<open>Correlation. Over any number of polls of a live connection, in which no request key is
  registered twice, no two responses have the same key and the broker's close-consumer commands
  do not name requests of the client, the resolvers completed are exactly those whose response
  arrived, each with the response that has its key; it does not matter whether the registration
  or the response is seen first, nor how they are spread over the polls.\<close>

theorem receiver_correlation:
  assumes "list_all live_input is" and "unique_keys (concat (map corr_events is))"
    and "closes_are_foreign (concat (map corr_events is)) is"
  shows "set (resolutions (effects (snd (run_polls is (receiver_new e))))) =
    matched (concat (map corr_events is))"
proof -
  have "corr.reflects [] (receiver_new e)"
    by (rule corr.reflects_start) (simp_all add: receiver_new_def)
  with assms run_polls_events [of "[]" "receiver_new e" "is"]
  have "corr.reflects (concat (map corr_events is)) (snd (run_polls is (receiver_new e)))"
    by simp
  then show ?thesis by (rule corr.reflects_resolved)
qed

theorem receiver_correlation_witness:
  "set (resolutions (effects (snd (run_polls
      [ex_input [RegRequest (RequestId 4) 0] [ex_success 5],
       ex_input [RegRequest (RequestId 5) 1] [ex_success 4]] (receiver_new shared_error_new))))) =
    matched (concat (map corr_events
      [ex_input [RegRequest (RequestId 4) 0] [ex_success 5],
       ex_input [RegRequest (RequestId 5) 1] [ex_success 4]]))"
  by (rule receiver_correlation)
    (simp_all add: unique_keys_def corr_events_def reg_events_def msg_events_def
      closes_are_foreign_def)

text \<open>The two tables of the receiver stay consistent over any sequence of polls, whatever the
  connection brings and however it ends: no key is both waited for and kept, and every kept
  message is a response stored under its own key.\<close>

theorem receiver_tables_invariant: "tables_inv (snd (run_polls is (receiver_new e)))"
  by (rule tables_inv_run_polls) (simp add: tables_inv_def receiver_new_def)

text \<open>How the receiver ends. A poll ends the task exactly when the shutdown signal fired, the
  registration channel closed, or the connection failed or ended, and the shared error is then
  the error of the connection (or \<open>Disconnected\<close>); on a shutdown, and while the task lives, the
  shared error is untouched.\<close>

theorem poll_outcome:
  "fst (poll i r) =
     (if shutdown_fired i then Ready ()
      else case input_failure i of None \<Rightarrow> Pending | Some e \<Rightarrow> Ready ()) \<and>
   rcv_error (snd (poll i r)) =
     (if shutdown_fired i then rcv_error r
      else case input_failure i of
        None \<Rightarrow> rcv_error r
      | Some e \<Rightarrow> shared_error_set e (rcv_error r))"
  using poll_ready_iff [of i r] poll_error_cell [of i r] by (cases "fst (poll i r)") (auto split: option.splits)

text \<open>Routing. While a consumer is registered, one poll delivers to its channel every message
  the broker addressed to it, in the order of arrival, and nothing else.\<close>

theorem consumer_delivery_in_order:
  assumes "live_input i" and "sole_channel r c ch"
    and "\<forall>g \<in> set (ready (in_registrations i)). \<forall>c ch. g \<noteq> RegConsumer c ch"
    and "closes_nothing_pending (fold handle_registration (ready (in_registrations i)) r)
           (inbound_messages i)"
  shows "deliveries ch (effects (snd (poll i r))) =
    deliveries ch (effects r) @ filter (\<lambda>m. consumer_of m = Some c) (inbound_messages i)"
proof -
  have "sole_channel (fold handle_registration (ready (in_registrations i)) r) c ch"
    using assms(2) registered_consumers_kept [OF assms(3)] by (simp add: sole_channel_def)
  from fold_message_delivery [OF this assms(4)] show ?thesis
    by (simp add: poll_live [OF assms(1)])
qed

theorem consumer_delivery_in_order_witness:
  "deliveries 8 (effects (snd (poll
      (ex_input [] [ex_delivery 2 1, ex_delivery 3 1, ex_success 0, ex_delivery 2 2])
      (handle_registration (RegConsumer 2 8) (receiver_new shared_error_new))))) =
    deliveries 8 (effects (handle_registration (RegConsumer 2 8) (receiver_new shared_error_new)))
    @ filter (\<lambda>m. consumer_of m = Some 2)
        (inbound_messages (ex_input [] [ex_delivery 2 1, ex_delivery 3 1, ex_success 0, ex_delivery 2 2]))"
  by (rule consumer_delivery_in_order)
    (simp_all add: sole_channel_def closes_nothing_pending_def receiver_new_def)

text \<open>A message for a consumer that is not registered is dropped without a trace: the state of
  the receiver, its effects included, is as if the message had not arrived.\<close>

theorem unregistered_consumer_dropped:
  assumes "consumer_of m = Some c" and "consumers r c = None" and "closes_nothing_pending r [m]"
  shows "handle_message m r = r"
  using assms
  by (cases m r rule: handle_message_cases)
    (simp_all add: route_to_consumer_def closes_nothing_pending_def)

theorem unregistered_consumer_dropped_witness:
  "handle_message (ex_delivery 2 1) (receiver_new shared_error_new) = receiver_new shared_error_new"
  by (rule unregistered_consumer_dropped [where c = 2])
    (simp_all add: closes_nothing_pending_def receiver_new_def)

text \<open>Pings. A poll of a live connection sends one pong for every ping that arrived, and sends
  nothing else.\<close>

theorem pings_answered:
  assumes "live_input i"
  shows "outbound_messages (effects (snd (poll i r))) =
    outbound_messages (effects r)
    @ replicate (length (filter (\<lambda>m. ping (command m) \<noteq> None) (inbound_messages i))) messages_pong"
  by (simp add: poll_live [OF assms] fold_message_outbound)

theorem pings_answered_witness:
  "outbound_messages (effects (snd (poll (ex_input [] [messages_ping, ex_success 1, messages_ping])
      (receiver_new shared_error_new)))) =
    outbound_messages (effects (receiver_new shared_error_new))
    @ replicate (length (filter (\<lambda>m. ping (command m) \<noteq> None)
        (inbound_messages (ex_input [] [messages_ping, ex_success 1, messages_ping])))) messages_pong"
  by (rule pings_answered) simp

end
