(* ===== verification/Sender.thy ===== *)
theory Sender
  imports Receiver
begin

text \<open>
  \<open>ConnectionSender\<close> and \<open>Connection\<close> of \<open>src/connection.rs\<close>: the requests a client sends over a
  connection, the answers it makes of the responses, and the handshake that opens a connection.

  The two unbounded channels of a sender (to the socket task and to the receiver) are the lists
  of what was sent on them and whether their other end still exists. One-shot channels are
  numbered in the order in which they are created. An awaited response is an argument: what the
  one-shot channel and the timer of the executor do is decided by the receiver and the clock.
  \<open>dbg\<close> is the \<open>Debug\<close> text of the generated \<open>BaseCommand\<close>.
\<close>

section \<open>State\<close>

record ConnectionSender =
  cs_tx :: "pulsar_message list"
  cs_tx_open :: bool
  cs_registrations :: "Register list"
  cs_registrations_open :: bool
  cs_receiver_shutdown :: bool
  cs_shutdown_sent :: bool
  cs_request_id :: u64
  cs_error :: shared_error
  cs_next_channel :: nat

text \<open>\<open>SerialId\<close> counts with a wrapping atomic.\<close>

definition serial_id_get :: "u64 \<Rightarrow> u64 \<times> u64" where
  "serial_id_get n = (n, n + 1)"

definition connection_sender_new :: "shared_error \<Rightarrow> ConnectionSender" where
  "connection_sender_new e =
     \<lparr>cs_tx = [], cs_tx_open = True, cs_registrations = [], cs_registrations_open = True,
      cs_receiver_shutdown = True, cs_shutdown_sent = False, cs_request_id = 0, cs_error = e,
      cs_next_channel = 0\<rparr>"

definition next_request_id :: "ConnectionSender \<Rightarrow> u64 \<times> ConnectionSender" where
  "next_request_id s =
     (case serial_id_get (cs_request_id s) of (i, n) \<Rightarrow> (i, s\<lparr>cs_request_id := n\<rparr>))"

definition open_channel :: "ConnectionSender \<Rightarrow> nat \<times> ConnectionSender" where
  "open_channel s = (cs_next_channel s, s\<lparr>cs_next_channel := Suc (cs_next_channel s)\<rparr>)"

text \<open>\<open>unbounded_send\<close> on the two channels fails when the other end is gone.\<close>

definition tx_send :: "pulsar_message \<Rightarrow> ConnectionSender \<Rightarrow> bool \<times> ConnectionSender" where
  "tx_send m s = (if cs_tx_open s then (True, s\<lparr>cs_tx := cs_tx s @ [m]\<rparr>) else (False, s))"

definition registrations_send :: "Register \<Rightarrow> ConnectionSender \<Rightarrow> bool \<times> ConnectionSender" where
  "registrations_send g s =
     (if cs_registrations_open s
      then (True, s\<lparr>cs_registrations := cs_registrations s @ [g]\<rparr>) else (False, s))"

definition set_cs_error :: "connection_error \<Rightarrow> ConnectionSender \<Rightarrow> ConnectionSender" where
  "set_cs_error e s = s\<lparr>cs_error := shared_error_set e (cs_error s)\<rparr>"

section \<open>Requests\<close>

definition extract_message ::
  "(base_command \<Rightarrow> string) \<Rightarrow> pulsar_message \<Rightarrow> (base_command \<Rightarrow> 'r option)
     \<Rightarrow> (connection_error, 'r) res" where
  "extract_message dbg m extract =
     (case error (command m) of
        Some e \<Rightarrow> Inl (PulsarError (Errors.server_error (err_error e)) (Some (err_message e)))
      | None \<Rightarrow>
          (case extract (command m) of
             Some extracted \<Rightarrow> Inr extracted
           | None \<Rightarrow> Inl (UnexpectedResponse (dbg (command m)))))"

text \<open>What awaiting a response or the operation timeout ends with.\<close>

datatype 'a awaited = Answered 'a | Dropped | Elapsed

definition send_message ::
  "(base_command \<Rightarrow> string) \<Rightarrow> pulsar_message \<Rightarrow> RequestKey \<Rightarrow> (base_command \<Rightarrow> 'r option)
     \<Rightarrow> pulsar_message awaited \<Rightarrow> ConnectionSender \<Rightarrow> (connection_error, 'r) res \<times> ConnectionSender"
where
  "send_message dbg msg key extract response s =
     (case open_channel s of (resolver, s) \<Rightarrow>
      case registrations_send (RegRequest key resolver) s of (registered, s) \<Rightarrow>
      case tx_send msg s of (sent, s) \<Rightarrow>
      if registered \<and> sent then
        (case response of
           Answered m \<Rightarrow> (extract_message dbg m extract, s)
         | Dropped \<Rightarrow> (Inl Disconnected, set_cs_error Disconnected s)
         | Elapsed \<Rightarrow>
             (Inl (Io (IoError TimedOut ''timeout sending message to the Pulsar server'')), s))
      else (Inl Disconnected, s))"

text \<open>No timeout here: a response comes, or the channel is dropped (\<open>Some None\<close>), or neither, and the wait does
  not end (\<open>None\<close>).\<close>

definition wait_exclusive_access ::
  "(base_command \<Rightarrow> string) \<Rightarrow> RequestKey \<Rightarrow> (base_command \<Rightarrow> 'r option)
     \<Rightarrow> pulsar_message option option \<Rightarrow> ConnectionSender
     \<Rightarrow> (connection_error, 'r) res option \<times> ConnectionSender" where
  "wait_exclusive_access dbg key extract response s =
     (case open_channel s of (resolver, s) \<Rightarrow>
      case registrations_send (RegRequest key resolver) s of (registered, s) \<Rightarrow>
      if registered then
        (case response of
           None \<Rightarrow> (None, s)
         | Some None \<Rightarrow> (Some (Inl Disconnected), set_cs_error Disconnected s)
         | Some (Some m) \<Rightarrow> (Some (extract_message dbg m extract), s))
      else (Some (Inl Disconnected), s))"

definition sender_send ::
  "(base_command \<Rightarrow> string) \<Rightarrow> u64 \<Rightarrow> u64 \<Rightarrow> string \<Rightarrow> u64 \<Rightarrow> ProducerMessage
     \<Rightarrow> pulsar_message awaited \<Rightarrow> ConnectionSender
     \<Rightarrow> (connection_error, command_send_receipt) res \<times> ConnectionSender" where
  "sender_send dbg now producer_id name sequence m response s =
     send_message dbg (messages_send now producer_id name sequence m)
       (ProducerSend producer_id sequence) send_receipt response s"

definition send_ping ::
  "unit awaited \<Rightarrow> ConnectionSender \<Rightarrow> (connection_error, unit) res \<times> ConnectionSender" where
  "send_ping response s =
     (case open_channel s of (resolver, s) \<Rightarrow>
      case registrations_send (RegPing resolver) s of (registered, s) \<Rightarrow>
      case tx_send messages_ping s of (sent, s) \<Rightarrow>
      if registered \<and> sent then
        (case response of
           Answered u \<Rightarrow> (Inr u, s)
         | Dropped \<Rightarrow> (Inl Disconnected, set_cs_error Disconnected s)
         | Elapsed \<Rightarrow>
             (let e = Io (IoError TimedOut ''timeout when sending ping to the Pulsar server'')
              in (Inl e, set_cs_error e s)))
      else (Inl Disconnected, s))"

definition sender_lookup_topic ::
  "(base_command \<Rightarrow> string) \<Rightarrow> string \<Rightarrow> bool \<Rightarrow> pulsar_message awaited \<Rightarrow> ConnectionSender
     \<Rightarrow> (connection_error, command_lookup_topic_response) res \<times> ConnectionSender" where
  "sender_lookup_topic dbg topic authoritative response s =
     (case next_request_id s of (request_id, s) \<Rightarrow>
        send_message dbg (messages_lookup_topic topic authoritative request_id)
          (RequestId request_id) lookup_topic_response response s)"

definition sender_lookup_partitioned_topic ::
  "(base_command \<Rightarrow> string) \<Rightarrow> string \<Rightarrow> pulsar_message awaited \<Rightarrow> ConnectionSender
     \<Rightarrow> (connection_error, command_partition_metadata_response) res \<times> ConnectionSender" where
  "sender_lookup_partitioned_topic dbg topic response s =
     (case next_request_id s of (request_id, s) \<Rightarrow>
        send_message dbg (messages_lookup_partitioned_topic topic request_id)
          (RequestId request_id) partition_metadata_response response s)"

definition sender_get_consumer_stats ::
  "(base_command \<Rightarrow> string) \<Rightarrow> u64 \<Rightarrow> pulsar_message awaited \<Rightarrow> ConnectionSender
     \<Rightarrow> (connection_error, command_consumer_stats_response) res \<times> ConnectionSender" where
  "sender_get_consumer_stats dbg consumer_id response s =
     (case next_request_id s of (request_id, s) \<Rightarrow>
        send_message dbg (messages_consumer_stats request_id consumer_id)
          (RequestId request_id) consumer_stats_response response s)"

definition sender_get_last_message_id ::
  "(base_command \<Rightarrow> string) \<Rightarrow> u64 \<Rightarrow> pulsar_message awaited \<Rightarrow> ConnectionSender
     \<Rightarrow> (connection_error, command_get_last_message_id_response) res \<times> ConnectionSender" where
  "sender_get_last_message_id dbg consumer_id response s =
     (case next_request_id s of (request_id, s) \<Rightarrow>
        send_message dbg (messages_get_last_message_id consumer_id request_id)
          (RequestId request_id) get_last_message_id_response response s)"

definition sender_create_producer ::
  "(base_command \<Rightarrow> string) \<Rightarrow> string \<Rightarrow> u64 \<Rightarrow> string option \<Rightarrow> ProducerOptions
     \<Rightarrow> pulsar_message awaited \<Rightarrow> ConnectionSender
     \<Rightarrow> (connection_error, command_producer_success) res \<times> ConnectionSender" where
  "sender_create_producer dbg topic producer_id name options response s =
     (case next_request_id s of (request_id, s) \<Rightarrow>
        send_message dbg (messages_create_producer topic name producer_id request_id options)
          (RequestId request_id) producer_success response s)"

definition wait_for_exclusive_access ::
  "(base_command \<Rightarrow> string) \<Rightarrow> u64 \<Rightarrow> pulsar_message option option \<Rightarrow> ConnectionSender
     \<Rightarrow> (connection_error, command_producer_success) res option \<times> ConnectionSender" where
  "wait_for_exclusive_access dbg request_id response s =
     wait_exclusive_access dbg (RequestId request_id) producer_success response s"

definition sender_get_topics_of_namespace ::
  "(base_command \<Rightarrow> string) \<Rightarrow> string \<Rightarrow> topics_mode \<Rightarrow> pulsar_message awaited \<Rightarrow> ConnectionSender
     \<Rightarrow> (connection_error, command_get_topics_response) res \<times> ConnectionSender" where
  "sender_get_topics_of_namespace dbg namespace mode response s =
     (case next_request_id s of (request_id, s) \<Rightarrow>
        send_message dbg (messages_get_topics_of_namespace request_id namespace mode)
          (RequestId request_id) get_topics_of_namespace_response response s)"

definition sender_close_producer ::
  "(base_command \<Rightarrow> string) \<Rightarrow> u64 \<Rightarrow> pulsar_message awaited \<Rightarrow> ConnectionSender
     \<Rightarrow> (connection_error, command_success) res \<times> ConnectionSender" where
  "sender_close_producer dbg producer_id response s =
     (case next_request_id s of (request_id, s) \<Rightarrow>
        send_message dbg (messages_close_producer producer_id request_id)
          (RequestId request_id) success response s)"

definition sender_subscribe ::
  "(base_command \<Rightarrow> string) \<Rightarrow> nat \<Rightarrow> string \<Rightarrow> string \<Rightarrow> sub_type \<Rightarrow> u64 \<Rightarrow> string option
     \<Rightarrow> ConsumerOptions \<Rightarrow> pulsar_message awaited \<Rightarrow> ConnectionSender
     \<Rightarrow> (connection_error, command_success) res \<times> ConnectionSender" where
  "sender_subscribe dbg resolver topic subscription st consumer_id name options response s =
     (case next_request_id s of (request_id, s) \<Rightarrow>
        let msg = messages_subscribe topic subscription st consumer_id request_id name options in
        case registrations_send (RegConsumer consumer_id resolver) s of
          (False, s) \<Rightarrow> (Inl Disconnected, set_cs_error Disconnected s)
        | (True, s) \<Rightarrow> send_message dbg msg (RequestId request_id) success response s)"

definition send_flow ::
  "u64 \<Rightarrow> u32 \<Rightarrow> ConnectionSender \<Rightarrow> (connection_error, unit) res \<times> ConnectionSender" where
  "send_flow consumer_id message_permits s =
     (case tx_send (messages_flow consumer_id message_permits) s of
        (sent, s) \<Rightarrow> (if sent then Inr () else Inl Disconnected, s))"

definition send_ack ::
  "u64 \<Rightarrow> message_id_data list \<Rightarrow> bool \<Rightarrow> ConnectionSender
     \<Rightarrow> (connection_error, unit) res \<times> ConnectionSender" where
  "send_ack consumer_id ids cumulative s =
     (case tx_send (messages_ack consumer_id ids cumulative) s of
        (sent, s) \<Rightarrow> (if sent then Inr () else Inl Disconnected, s))"

definition send_redeliver_unacknowleged_messages ::
  "u64 \<Rightarrow> message_id_data list \<Rightarrow> ConnectionSender
     \<Rightarrow> (connection_error, unit) res \<times> ConnectionSender" where
  "send_redeliver_unacknowleged_messages consumer_id ids s =
     (case tx_send (messages_redeliver_unacknowleged_messages consumer_id ids) s of
        (sent, s) \<Rightarrow> (if sent then Inr () else Inl Disconnected, s))"

definition sender_close_consumer ::
  "(base_command \<Rightarrow> string) \<Rightarrow> u64 \<Rightarrow> pulsar_message awaited \<Rightarrow> ConnectionSender
     \<Rightarrow> (connection_error, command_success) res \<times> ConnectionSender" where
  "sender_close_consumer dbg consumer_id response s =
     (case next_request_id s of (request_id, s) \<Rightarrow>
        send_message dbg (messages_close_consumer consumer_id request_id)
          (RequestId request_id) success response s)"

definition sender_seek ::
  "(base_command \<Rightarrow> string) \<Rightarrow> u64 \<Rightarrow> message_id_data option \<Rightarrow> u64 option
     \<Rightarrow> pulsar_message awaited \<Rightarrow> ConnectionSender
     \<Rightarrow> (connection_error, command_success) res \<times> ConnectionSender" where
  "sender_seek dbg consumer_id message_id timestamp response s =
     (case next_request_id s of (request_id, s) \<Rightarrow>
        send_message dbg (messages_seek consumer_id request_id message_id timestamp)
          (RequestId request_id) success response s)"

definition sender_unsubscribe ::
  "(base_command \<Rightarrow> string) \<Rightarrow> u64 \<Rightarrow> pulsar_message awaited \<Rightarrow> ConnectionSender
     \<Rightarrow> (connection_error, command_success) res \<times> ConnectionSender" where
  "sender_unsubscribe dbg consumer_id response s =
     (case next_request_id s of (request_id, s) \<Rightarrow>
        send_message dbg (messages_unsubscribe consumer_id request_id)
          (RequestId request_id) success response s)"

section \<open>Request steps\<close>

text \<open>Each of the operations that send a request under a request id of the connection's counter.\<close>

inductive request_step :: "ConnectionSender \<Rightarrow> ConnectionSender \<Rightarrow> bool" where
  "request_step s (snd (sender_lookup_topic dbg t a w s))"
| "request_step s (snd (sender_lookup_partitioned_topic dbg t w s))"
| "request_step s (snd (sender_get_consumer_stats dbg c w s))"
| "request_step s (snd (sender_get_last_message_id dbg c w s))"
| "request_step s (snd (sender_create_producer dbg t p n po w s))"
| "request_step s (snd (sender_get_topics_of_namespace dbg ns md w s))"
| "request_step s (snd (sender_close_producer dbg p w s))"
| "request_step s (snd (sender_subscribe dbg x t sn st c n co w s))"
| "request_step s (snd (sender_close_consumer dbg c w s))"
| "request_step s (snd (sender_seek dbg c mi ts w s))"
| "request_step s (snd (sender_unsubscribe dbg c w s))"

inductive_cases request_stepE: "request_step s s'"

definition channels_open :: "ConnectionSender \<Rightarrow> bool" where
  "channels_open s \<longleftrightarrow> cs_tx_open s \<and> cs_registrations_open s"

text \<open>What a request leaves behind: one registration under the next request id, with a channel of
  its own, and one message that carries that id.\<close>

definition request_registrations :: "Register list \<Rightarrow> (RequestKey \<times> nat) list" where
  "request_registrations gs =
     concat (map (\<lambda>g. case g of RegRequest k x \<Rightarrow> [(k, x)] | _ \<Rightarrow> []) gs)"

definition carries_id :: "u64 \<Rightarrow> pulsar_message \<Rightarrow> bool" where
  "carries_id i m \<longleftrightarrow>
     (case request_key m of
        Some (RequestId j) \<Rightarrow> j = i
      | Some (CloseConsumer c j) \<Rightarrow> j = i
      | _ \<Rightarrow> False)"

definition issued :: "ConnectionSender \<Rightarrow> ConnectionSender \<Rightarrow> bool" where
  "issued s s' \<longleftrightarrow>
     cs_request_id s' = cs_request_id s + 1 \<and>
     cs_next_channel s' = Suc (cs_next_channel s) \<and>
     request_registrations (cs_registrations s') =
       request_registrations (cs_registrations s)
       @ [(RequestId (cs_request_id s), cs_next_channel s)] \<and>
     (\<exists>m. cs_tx s' = cs_tx s @ [m] \<and> carries_id (cs_request_id s) m)"

lemma request_registrations_simps [simp]:
  "request_registrations [] = []"
  "request_registrations (xs @ ys) = request_registrations xs @ request_registrations ys"
  "request_registrations (RegRequest k x # gs) = (k, x) # request_registrations gs"
  "request_registrations (RegConsumer c x # gs) = request_registrations gs"
  "request_registrations (RegPing x # gs) = request_registrations gs"
  by (simp_all add: request_registrations_def)

lemma set_cs_error_simps [simp]:
  "cs_tx (set_cs_error e s) = cs_tx s"
  "cs_tx_open (set_cs_error e s) = cs_tx_open s"
  "cs_registrations (set_cs_error e s) = cs_registrations s"
  "cs_registrations_open (set_cs_error e s) = cs_registrations_open s"
  "cs_request_id (set_cs_error e s) = cs_request_id s"
  "cs_next_channel (set_cs_error e s) = cs_next_channel s"
  "cs_error (set_cs_error e s) = shared_error_set e (cs_error s)"
  by (simp_all add: set_cs_error_def)

lemma send_message_open:
  assumes "channels_open s"
  shows "cs_tx (snd (send_message dbg m k ex w s)) = cs_tx s @ [m]"
    and "cs_registrations (snd (send_message dbg m k ex w s)) =
      cs_registrations s @ [RegRequest k (cs_next_channel s)]"
    and "cs_request_id (snd (send_message dbg m k ex w s)) = cs_request_id s"
    and "cs_next_channel (snd (send_message dbg m k ex w s)) = Suc (cs_next_channel s)"
    and "channels_open (snd (send_message dbg m k ex w s))"
  using assms
  by (simp_all add: send_message_def open_channel_def registrations_send_def tx_send_def
      channels_open_def split: awaited.split)

lemma send_message_issued:
  assumes "channels_open s" and "cs_request_id s = cs_request_id s0 + 1"
    and "cs_next_channel s = cs_next_channel s0" and "cs_tx s = cs_tx s0"
    and "request_registrations (cs_registrations s) = request_registrations (cs_registrations s0)"
    and "carries_id (cs_request_id s0) m"
  shows "issued s0 (snd (send_message dbg m (RequestId (cs_request_id s0)) ex w s)) \<and>
    channels_open (snd (send_message dbg m (RequestId (cs_request_id s0)) ex w s))"
  using assms by (simp add: issued_def send_message_open)

lemma next_request_id_eq:
  "next_request_id s = (cs_request_id s, s\<lparr>cs_request_id := cs_request_id s + 1\<rparr>)"
  by (simp add: next_request_id_def serial_id_get_def)

lemma channels_open_update [simp]:
  "channels_open (s\<lparr>cs_request_id := i\<rparr>) = channels_open s"
  "channels_open (s\<lparr>cs_registrations := gs\<rparr>) = channels_open s"
  by (simp_all add: channels_open_def)

lemmas request_op_defs =
  sender_lookup_topic_def sender_lookup_partitioned_topic_def sender_get_consumer_stats_def
  sender_get_last_message_id_def sender_create_producer_def sender_get_topics_of_namespace_def
  sender_close_producer_def sender_subscribe_def sender_close_consumer_def sender_seek_def
  sender_unsubscribe_def

lemma request_step_issued:
  assumes "request_step s s'" and "channels_open s"
  shows "issued s s' \<and> channels_open s'"
proof -
  have "cs_registrations_open s" using assms(2) by (simp add: channels_open_def)
  with assms show ?thesis
    by cases (simp_all add: request_op_defs next_request_id_eq send_message_issued carries_id_def
        registrations_send_def Let_def)
qed

lemma request_steps_registered:
  assumes "(request_step ^^ n) s s'" and "channels_open s"
  shows "channels_open s' \<and> cs_request_id s' = cs_request_id s + of_nat n \<and>
    cs_next_channel s' = cs_next_channel s + n \<and>
    request_registrations (cs_registrations s') =
      request_registrations (cs_registrations s)
      @ map (\<lambda>i. (RequestId (cs_request_id s + of_nat i), cs_next_channel s + i)) [0..<n]"
  using assms
proof (induction n arbitrary: s')
  case 0
  then show ?case by simp
next
  case (Suc n)
  from Suc.prems(1) obtain t where t: "(request_step ^^ n) s t" and st: "request_step t s'"
    by (auto elim: relpowp_Suc_E)
  from Suc.IH [OF t Suc.prems(2)] have IH: "channels_open t"
    "cs_request_id t = cs_request_id s + of_nat n" "cs_next_channel t = cs_next_channel s + n"
    "request_registrations (cs_registrations t) = request_registrations (cs_registrations s)
      @ map (\<lambda>i. (RequestId (cs_request_id s + of_nat i), cs_next_channel s + i)) [0..<n]"
    by blast+
  from request_step_issued [OF st IH(1)] IH show ?case by (simp add: issued_def add.commute)
qed

lemma serial_ids_distinct:
  assumes "n \<le> 2 ^ 64"
  shows "distinct (map (\<lambda>i. b + of_nat i :: u64) [0..<n])"
proof -
  have "i = j" if "i < n" "j < n" "(of_nat i :: u64) = of_nat j" for i j :: nat
  proof -
    from that(3) have "i mod 2 ^ 64 = j mod 2 ^ 64"
      by (simp add: word_of_nat_eq_iff take_bit_nat_def)
    with that(1,2) assms show ?thesis by simp
  qed
  then show ?thesis by (auto simp: distinct_map inj_on_def)
qed

section \<open>Properties of the sender\<close>

text \<open>What a request sends. With both channels open, every request operation registers exactly
  one request, under the next number of the connection's counter and with a new response channel,
  and sends exactly one message, which carries that number; the channels stay open.\<close>

theorem request_issues_once:
  assumes "request_step s s'" and "channels_open s"
  shows "issued s s' \<and> channels_open s'"
  using assms by (rule request_step_issued)

theorem request_issues_once_witness:
  "issued (connection_sender_new shared_error_new)
     (snd (sender_seek (\<lambda>c. '''') 3 None (Some 5) Elapsed (connection_sender_new shared_error_new))) \<and>
   channels_open
     (snd (sender_seek (\<lambda>c. '''') 3 None (Some 5) Elapsed (connection_sender_new shared_error_new)))"
  by (rule request_issues_once [OF request_step.intros(10)])
    (simp add: channels_open_def connection_sender_new_def)

text \<open>Request keys are unique. However many of the request operations a connection performs, up
  to \<open>2 ^ 64\<close>, no two of them are registered under the same key.\<close>

theorem request_ids_unique:
  assumes "(request_step ^^ n) s s'" and "channels_open s"
    and "request_registrations (cs_registrations s) = []" and "n \<le> 2 ^ 64"
  shows "distinct (map fst (request_registrations (cs_registrations s')))"
proof -
  have "distinct (map RequestId (map (\<lambda>i. cs_request_id s + of_nat i) [0..<n]))"
    using serial_ids_distinct [OF assms(4), of "cs_request_id s"]
    by (subst distinct_map) (simp add: inj_on_def)
  with request_steps_registered [OF assms(1,2)] assms(3) show ?thesis by (simp add: comp_def)
qed

theorem request_ids_unique_witness:
  "distinct (map fst (request_registrations (cs_registrations
     (snd (sender_unsubscribe (\<lambda>c. '''') 4 Elapsed
        (snd (sender_seek (\<lambda>c. '''') 4 None None Elapsed
           (connection_sender_new shared_error_new))))))))"
proof (rule request_ids_unique [where n = 2])
  show "(request_step ^^ 2) (connection_sender_new shared_error_new)
      (snd (sender_unsubscribe (\<lambda>c. '''') 4 Elapsed
        (snd (sender_seek (\<lambda>c. '''') 4 None None Elapsed
           (connection_sender_new shared_error_new)))))"
    unfolding numeral_2_eq_2
    by (rule relpowp_Suc_I [OF relpowp_Suc_I [OF relpowp_0_I]]) (rule request_step.intros)+
qed (simp_all add: channels_open_def connection_sender_new_def)

text \<open>A ping that fails on open channels, because the receiver is gone or because the pong is
  late, marks the connection as broken; a ping that is answered leaves the shared error alone.\<close>

theorem failed_ping_breaks_connection:
  assumes "channels_open s"
  shows "if is_ok (fst (send_ping w s)) then cs_error (snd (send_ping w s)) = cs_error s
    else shared_error_is_set (cs_error (snd (send_ping w s)))"
  using assms
  by (simp add: send_ping_def open_channel_def registrations_send_def tx_send_def channels_open_def
      Let_def split: awaited.split)

theorem failed_ping_breaks_connection_witness:
  "if is_ok (fst (send_ping Elapsed (connection_sender_new shared_error_new)))
   then cs_error (snd (send_ping Elapsed (connection_sender_new shared_error_new))) =
     cs_error (connection_sender_new shared_error_new)
   else shared_error_is_set (cs_error (snd (send_ping Elapsed (connection_sender_new shared_error_new))))"
  by (rule failed_ping_breaks_connection) (simp add: channels_open_def connection_sender_new_def)

end
