(* ===== verification/Connection.thy ===== *)
theory Connection
  imports Executor Sender
begin

text \<open>
  \<open>Connection\<close> of \<open>src/connection.rs\<close>: resolving the address, opening the socket with or without
  TLS, the handshake, the task that writes to the socket, and the life of the connection.

  Sockets, the TLS libraries, name resolution, the clock and the executor are parameters: the
  record \<open>net\<close> holds what each call returns. An address is its text.
\<close>

section \<open>Parameters\<close>

record url =
  url_scheme :: string
  url_host :: "string option"
  url_port :: "u16 option"
  url_text :: string

record tls_settings =
  root_certificates :: "bytes list"
  accept_invalid_hostnames :: bool
  accept_invalid_certs :: bool

record net =
  net_socket_addrs :: "url \<Rightarrow> u16 option \<Rightarrow> (io_error, string list) res"
  net_joined :: bool
  net_index :: nat
  net_ip :: "string \<Rightarrow> string"
  net_tcp :: "string \<Rightarrow> (io_error, unit) res"
  net_tls_build :: "tls_settings \<Rightarrow> (string, unit) res"
  net_tls_connect :: "tls_settings \<Rightarrow> string \<Rightarrow> (string, unit) res"
  net_send :: "pulsar_message \<Rightarrow> (connection_error, unit) res"
  net_next :: "(connection_error, pulsar_message) res option"
  net_spawn_receiver :: bool
  net_spawn_writer :: bool
  net_timeout :: bool
  net_random :: i64

text \<open>The authentication provider: its method name and what \<open>auth_data\<close> returns.\<close>

type_synonym auth_provider = "string \<times> (authentication_error, bytes) res"

section \<open>Opening a connection\<close>

definition prepare_auth_data ::
  "auth_provider option \<Rightarrow> (connection_error, Authentication option) res" where
  "prepare_auth_data auth =
     (case auth of
        Some (name, dt) \<Rightarrow>
          bind_res (map_err connection_error_from_auth dt) (\<lambda>d.
            Inr (Some \<lparr>auth_name = name, auth_bytes = d\<rparr>))
      | None \<Rightarrow> Inr None)"

definition connect_handshake ::
  "(base_command \<Rightarrow> string) \<Rightarrow> net \<Rightarrow> Authentication option \<Rightarrow> string option
     \<Rightarrow> (connection_error, ConnectionSender) res" where
  "connect_handshake dbg N auth proxy =
     bind_res (net_send N (messages_connect auth proxy)) (\<lambda>_.
     bind_res
       (case net_next N of
          Some (Inr msg) \<Rightarrow>
            (case error (command msg) of
               Some e \<Rightarrow>
                 Inl (PulsarError (Errors.server_error (err_error e)) (Some (err_message e)))
             | None \<Rightarrow>
                 (case connected (command msg) of
                    Some c \<Rightarrow> Inr c
                  | None \<Rightarrow>
                      Inl (Unexpected (''Unexpected message from pulsar: '' @ dbg (command msg)))))
        | Some (Inl e) \<Rightarrow> Inl e
        | None \<Rightarrow> Inl Disconnected) (\<lambda>_.
     if \<not> net_spawn_receiver N then Inl Shutdown
     else if \<not> net_spawn_writer N then Inl Shutdown
     else Inr (connection_sender_new shared_error_new)))"

text \<open>
  The task that writes to the socket: the messages it takes from the channel with what the
  socket answers for each; the result is what was written and the shared error.
\<close>

fun writer_task ::
  "(pulsar_message \<times> (connection_error, unit) res) list \<Rightarrow> shared_error
     \<Rightarrow> pulsar_message list \<times> shared_error" where
  "writer_task [] e = ([], e)"
| "writer_task ((m, Inr u) # ms) e = (case writer_task ms e of (ws, e) \<Rightarrow> (m # ws, e))"
| "writer_task ((m, Inl err) # ms) e = ([], shared_error_set err e)"

definition prepare_stream ::
  "(base_command \<Rightarrow> string) \<Rightarrow> net \<Rightarrow> executor_kind \<Rightarrow> string \<Rightarrow> string \<Rightarrow> bool
     \<Rightarrow> auth_provider option \<Rightarrow> string option \<Rightarrow> bytes list \<Rightarrow> bool \<Rightarrow> bool
     \<Rightarrow> (connection_error, ConnectionSender) res" where
  "prepare_stream dbg N kind address hostname tls auth proxy certificate_chain
       allow_insecure_connection tls_hostname_verification_enabled =
     (let settings =
        \<lparr>root_certificates = certificate_chain,
         accept_invalid_hostnames =
           allow_insecure_connection \<and> \<not> tls_hostname_verification_enabled,
         accept_invalid_certs = allow_insecure_connection\<rparr>
      in
      case kind of
        Tokio \<Rightarrow>
          (if tls then
             bind_res (map_err connection_error_from_io (net_tcp N address)) (\<lambda>_.
             bind_res (map_err Tls (net_tls_build N settings)) (\<lambda>_.
             bind_res (map_err Tls (net_tls_connect N settings hostname)) (\<lambda>_.
             bind_res (prepare_auth_data auth) (\<lambda>a. connect_handshake dbg N a proxy))))
           else
             bind_res (map_err connection_error_from_io (net_tcp N address)) (\<lambda>_.
             bind_res (prepare_auth_data auth) (\<lambda>a. connect_handshake dbg N a proxy)))
      | AsyncStd \<Rightarrow>
          (if tls then
             bind_res (map_err connection_error_from_io (net_tcp N address)) (\<lambda>_.
             bind_res (map_err Tls (net_tls_connect N settings hostname)) (\<lambda>_.
             bind_res (prepare_auth_data auth) (\<lambda>a. connect_handshake dbg N a proxy)))
           else
             bind_res (map_err connection_error_from_io (net_tcp N address)) (\<lambda>_.
             bind_res (prepare_auth_data auth) (\<lambda>a. connect_handshake dbg N a proxy))))"

record Connection =
  conn_id :: i64
  conn_url :: url
  conn_sender :: ConnectionSender

definition default_port :: "string \<Rightarrow> u16 option" where
  "default_port scheme =
     (if scheme = ''pulsar'' then Some 6650
      else if scheme = ''pulsar+ssl'' then Some 6651
      else None)"

text \<open>
  The blocking address lookup: a failed lookup is no address; an address is drawn at random.
  Drawing from an empty list panics, and on Tokio a task that panics is not joined. (On async-std the
  panic would reach the caller; a lookup that succeeds with an empty list is not considered there.)
\<close>

definition resolve_address :: "net \<Rightarrow> url \<Rightarrow> string option option" where
  "resolve_address N u =
     (if \<not> net_joined N then None
      else case net_socket_addrs N u (default_port (url_scheme u)) of
        Inl _ \<Rightarrow> Some None
      | Inr v \<Rightarrow> if v = [] then None else Some (Some (v ! (net_index N mod length v))))"

definition connection_new ::
  "(base_command \<Rightarrow> string) \<Rightarrow> net \<Rightarrow> executor_kind \<Rightarrow> url \<Rightarrow> auth_provider option \<Rightarrow> string option
     \<Rightarrow> bytes list \<Rightarrow> bool \<Rightarrow> bool \<Rightarrow> (connection_error, Connection) res" where
  "connection_new dbg N kind u auth proxy certificate_chain allow_insecure_connection
       tls_hostname_verification_enabled =
     (if url_scheme u \<noteq> ''pulsar'' \<and> url_scheme u \<noteq> ''pulsar+ssl'' then Inl NotFound
      else
        let tls = (url_scheme u = ''pulsar+ssl'') in
        case resolve_address N u of
          Some (Some address) \<Rightarrow>
            (let hostname = (case url_host u of Some h \<Rightarrow> h | None \<Rightarrow> net_ip N address) in
             if net_timeout N then
               Inl (Io (IoError TimedOut ''timeout connecting to the Pulsar server''))
             else
               bind_res (prepare_stream dbg N kind address hostname tls auth proxy certificate_chain
                           allow_insecure_connection tls_hostname_verification_enabled) (\<lambda>sender.
                 Inr \<lparr>conn_id = net_random N, conn_url = u, conn_sender = sender\<rparr>))
        | _ \<Rightarrow> Inl NotFound)"

section \<open>The life of a connection\<close>

definition connection_error :: "Connection \<Rightarrow> connection_error option \<times> Connection" where
  "connection_error c =
     (case shared_error_remove (cs_error (conn_sender c)) of
        (e, cell) \<Rightarrow> (e, c\<lparr>conn_sender := (conn_sender c)\<lparr>cs_error := cell\<rparr>\<rparr>))"

definition is_valid :: "Connection \<Rightarrow> bool" where
  "is_valid c = (\<not> shared_error_is_set (cs_error (conn_sender c)))"

text \<open>Dropping the connection takes the shutdown sender of the receiver and fires it.\<close>

definition connection_drop :: "Connection \<Rightarrow> Connection" where
  "connection_drop c =
     (let s = conn_sender c in
      if cs_receiver_shutdown s
      then c\<lparr>conn_sender := s\<lparr>cs_receiver_shutdown := False, cs_shutdown_sent := True\<rparr>\<rparr>
      else c)"

section \<open>Properties of the connection\<close>

lemma connect_handshake_Inr:
  "connect_handshake dbg N auth proxy = Inr s \<longleftrightarrow>
     net_send N (messages_connect auth proxy) = Inr () \<and>
     (\<exists>msg. net_next N = Some (Inr msg) \<and> error (command msg) = None \<and>
        (\<exists>c. connected (command msg) = Some c)) \<and>
     net_spawn_receiver N \<and> net_spawn_writer N \<and> s = connection_sender_new shared_error_new"
  by (auto simp: connect_handshake_def bind_res_Inr_iff split: option.splits sum.splits)

lemma prepare_stream_Inr:
  assumes "prepare_stream dbg N kind address hostname True auth proxy certs insecure verify = Inr s"
  shows "net_tls_connect N
      \<lparr>root_certificates = certs, accept_invalid_hostnames = insecure \<and> \<not> verify,
       accept_invalid_certs = insecure\<rparr> hostname = Inr ()"
  using assms
  by (cases kind) (auto simp: prepare_stream_def bind_res_Inr_iff Let_def)

text \<open>The handshake succeeds exactly when the connect command was written, the broker answered
  with a message that has no error and is a \<open>Connected\<close>, and both tasks were spawned; the sender
  is then fresh. Every other answer, an error, another command or the end of the stream, fails.\<close>

theorem handshake_succeeds_iff:
  "connect_handshake dbg N auth proxy = Inr s \<longleftrightarrow>
     net_send N (messages_connect auth proxy) = Inr () \<and>
     (\<exists>msg. net_next N = Some (Inr msg) \<and> error (command msg) = None \<and>
        (\<exists>c. connected (command msg) = Some c)) \<and>
     net_spawn_receiver N \<and> net_spawn_writer N \<and> s = connection_sender_new shared_error_new"
  by (rule connect_handshake_Inr)

text \<open>A connection to a \<open>pulsar+ssl\<close> URL is only ever returned after a TLS handshake with the
  configured root certificates, for the host of the URL if it has one; invalid certificates are
  accepted only if insecure connections are allowed, and invalid host names only if, in
  addition, host name verification is disabled.\<close>

theorem tls_url_needs_tls:
  assumes "connection_new dbg N kind u auth proxy certs insecure verify = Inr c"
    and "url_scheme u = ''pulsar+ssl''" and "url_host u = Some h"
  shows "net_tls_connect N
      \<lparr>root_certificates = certs, accept_invalid_hostnames = insecure \<and> \<not> verify,
       accept_invalid_certs = insecure\<rparr> h = Inr ()"
  using assms
  by (auto simp: connection_new_def bind_res_Inr_iff split: option.splits if_splits
      dest: prepare_stream_Inr)

definition ex_net :: net where
  "ex_net =
     \<lparr>net_socket_addrs = (\<lambda>u p. Inr [''10.0.0.1:6651'']), net_joined = True, net_index = 0,
      net_ip = (\<lambda>a. ''10.0.0.1''), net_tcp = (\<lambda>a. Inr ()), net_tls_build = (\<lambda>s. Inr ()),
      net_tls_connect = (\<lambda>s h. if h = ''broker'' then Inr () else Inl ''hostname''),
      net_send = (\<lambda>m. Inr ()),
      net_next = Some (Inr (bare (default_base_command
        \<lparr>command_type := 3, connected := Some (CommandConnected ''2.10'')\<rparr>))),
      net_spawn_receiver = True, net_spawn_writer = True, net_timeout = False, net_random = 7\<rparr>"

definition ex_url :: url where
  "ex_url =
     \<lparr>url_scheme = ''pulsar+ssl'', url_host = Some ''broker'', url_port = None,
      url_text = ''pulsar+ssl://broker''\<rparr>"

lemma ex_net_connects:
  "connection_new (\<lambda>c. '''') ex_net Tokio ex_url None None [] False True =
     Inr \<lparr>conn_id = 7, conn_url = ex_url, conn_sender = connection_sender_new shared_error_new\<rparr>"
  by (simp add: connection_new_def ex_net_def ex_url_def resolve_address_def prepare_stream_def
      prepare_auth_data_def connect_handshake_def proto_simps)

theorem tls_url_needs_tls_witness:
  "net_tls_connect ex_net
     \<lparr>root_certificates = [], accept_invalid_hostnames = False \<and> \<not> True,
      accept_invalid_certs = False\<rparr> ''broker'' = Inr ()"
  by (rule tls_url_needs_tls [OF ex_net_connects]) (simp_all add: ex_url_def)

text \<open>The writing task writes the messages in order, up to the first one the socket refuses;
  that refusal, and nothing else, becomes the shared error.\<close>

theorem writer_task_in_order:
  "writer_task ms e =
     (map fst (takeWhile (\<lambda>x. is_ok (snd x)) ms),
      case dropWhile (\<lambda>x. is_ok (snd x)) ms of
        (m, Inl err) # _ \<Rightarrow> shared_error_set err e
      | _ \<Rightarrow> e)"
  by (induction ms e rule: writer_task.induct) simp_all

text \<open>Asking a connection for its error takes the error out of the shared cell, so a broken
  connection is valid again for everyone who asks afterwards, although nothing was repaired: the
  sender is the same but for the cell.\<close>

theorem reading_error_revives_connection:
  "is_valid (snd (connection_error c)) \<and>
   fst (connection_error c) = shared_cell (cs_error (conn_sender c)) \<and>
   cs_tx_open (conn_sender (snd (connection_error c))) = cs_tx_open (conn_sender c) \<and>
   cs_registrations_open (conn_sender (snd (connection_error c))) =
     cs_registrations_open (conn_sender c)"
  by (simp add: is_valid_def connection_error_def shared_error_remove_def shared_error_is_set_def)

end
