(* ===== verification/Retry.thy ===== *)
theory Retry
  imports Connection
begin

text \<open>
  The retry loop that opens a subscription or a producer (\<open>TopicConsumer::new\<close> in
  \<open>src/consumer.rs\<close>, \<open>TopicProducer::from_connection\<close> and \<open>TopicProducer::reconnect\<close> in
  \<open>src/producer.rs\<close>): a request that the broker answers with \<open>ServiceNotReady\<close> is repeated after
  a delay and a new lookup, up to a configured number of times or without end. The three loops
  have the same shape; \<open>retry_loop\<close> is that shape, and what one attempt does and how the
  connection is replaced are its arguments.

  The list of attempts is what the environment answers to one attempt after the other. A loop
  that still waits when the list ends has no result yet, which is \<open>None\<close>; so has one in which an
  attempt or the search for a new connection does not end, or panics.
\<close>

section \<open>Options and addresses\<close>

record BrokerAddress =
  broker_address_url :: url
  broker_url :: string
  broker_proxy :: bool

record OperationRetryOptions =
  op_timeout :: nat
  op_retry_delay :: nat
  op_max_retries :: "u32 option"

text \<open>Durations are in milliseconds.\<close>

definition operation_retry_options_default :: OperationRetryOptions where
  "operation_retry_options_default =
     \<lparr>op_timeout = 30000, op_retry_delay = 500, op_max_retries = None\<rparr>"

section \<open>The loop\<close>

definition may_retry :: "u32 option \<Rightarrow> u32 \<Rightarrow> bool" where
  "may_retry limit current_retries =
     (case limit of None \<Rightarrow> True | Some k \<Rightarrow> current_retries < k)"

definition not_ready :: "connection_error \<Rightarrow> bool" where
  "not_ready err =
     (case err of PulsarError (Some e) text \<Rightarrow> e = ServiceNotReady | _ \<Rightarrow> False)"

fun retry_loop ::
  "u32 option \<Rightarrow> ('a \<Rightarrow> 's \<Rightarrow> (connection_error, 'r) res option \<times> 's)
     \<Rightarrow> ('a \<Rightarrow> 's \<Rightarrow> (pulsar_error, unit) res option \<times> 's) \<Rightarrow> u32 \<Rightarrow> 'a list \<Rightarrow> 's
     \<Rightarrow> (pulsar_error, 'r) res option \<times> 's" where
  "retry_loop limit attempt move current_retries [] s = (None, s)"
| "retry_loop limit attempt move current_retries (a # as) s =
     (case attempt a s of
        (None, s) \<Rightarrow> (None, s)
      | (Some (Inr r), s) \<Rightarrow> (Some (Inr r), s)
      | (Some (Inl err), s) \<Rightarrow>
          (if not_ready err then
             (if may_retry limit current_retries then
                (case move a s of
                   (None, s) \<Rightarrow> (None, s)
                 | (Some (Inl err), s) \<Rightarrow> (Some (Inl err), s)
                 | (Some (Inr _), s) \<Rightarrow> retry_loop limit attempt move (current_retries + 1) as s)
              else (Some (Inl (EConnection err)), s))
           else (Some (Inl (EConnection err)), s)))"

text \<open>What a new lookup and a new connection answer; \<open>None\<close> if they do not end or panic.\<close>

record relocation =
  rl_lookup :: "(service_discovery_error, BrokerAddress) res option"
  rl_connection :: "BrokerAddress \<Rightarrow> (connection_error, Connection) res option"

definition relocate :: "relocation \<Rightarrow> (pulsar_error, Connection) res option" where
  "relocate L =
     (case rl_lookup L of
        None \<Rightarrow> None
      | Some (Inl err) \<Rightarrow> Some (Inl (EServiceDiscovery err))
      | Some (Inr address) \<Rightarrow> map_option (map_err EConnection) (rl_connection L address))"

section \<open>Lemmas\<close>

lemma retry_loop_bounded:
  assumes "limit = Some k" and "unat n \<le> unat k" and "unat k - unat n < length as"
    and "list_all (\<lambda>a. \<forall>s. fst (attempt a s) \<noteq> None \<and> fst (move a s) \<noteq> None) as"
  shows "fst (retry_loop limit attempt move n as s) \<noteq> None"
  using assms
proof (induction limit attempt move n as s rule: retry_loop.induct)
  case (1 limit attempt move n s)
  then show ?case by simp
next
  case (2 limit attempt move n a as s)
  obtain r' s1 where "attempt a s = (r', s1)" by fastforce
  moreover have "fst (attempt a s) \<noteq> None" using 2(5) by simp
  ultimately obtain r where att: "attempt a s = (Some r, s1)" by auto
  show ?case
  proof (cases "\<exists>err. r = Inl err \<and> not_ready err \<and> may_retry limit n")
    case False
    then show ?thesis using att by (auto split: sum.splits)
  next
    case True
    then obtain err where r: "r = Inl err" and err: "not_ready err" and may: "may_retry limit n"
      by blast
    obtain m' s2 where "move a s1 = (m', s2)" by fastforce
    moreover have "fst (move a s1) \<noteq> None" using 2(5) by simp
    ultimately obtain m where mv: "move a s1 = (Some m, s2)" by auto
    have less: "unat n < unat k"
      using may 2(2) by (simp add: may_retry_def word_less_nat_alt)
    then have n1: "unat (n + 1) = unat n + 1" by (rule unat_Suc_below)
    show ?thesis
    proof (cases m)
      case (Inl err)
      with att r err may mv show ?thesis by simp
    next
      case (Inr u)
      from 2(1) [OF att [symmetric] refl r err may mv [symmetric] refl Inr] less n1 2(2,4,5)
      have "fst (retry_loop limit attempt move (n + 1) as s2) \<noteq> None" by simp
      with att r err may mv Inr show ?thesis by simp
    qed
  qed
qed

text \<open>A retry loop keeps what its attempts and relocations keep.\<close>

lemma retry_loop_preserves:
  assumes "\<And>a s r s'. I s \<Longrightarrow> attempt a s = (r, s') \<Longrightarrow> I s'"
    and "\<And>a s r s'. I s \<Longrightarrow> move a s = (r, s') \<Longrightarrow> I s'"
    and "I s" and "retry_loop limit attempt move n as s = (r, s')"
  shows "I s'"
  using assms(3,4)
proof (induction "as" arbitrary: n s)
  case Nil
  then show ?case by simp
next
  case (Cons a "as")
  obtain q s1 where at1: "attempt a s = (q, s1)" by fastforce
  then have i1: "I s1" using assms(1) Cons.prems(1) by blast
  obtain m s2 where mv: "move a s1 = (m, s2)" by fastforce
  then have i2: "I s2" using assms(2) i1 by blast
  show ?case
    using Cons.prems(2) Cons.IH [OF i2] at1 mv i1 i2
    by (auto split: option.splits sum.splits if_splits)
qed

text \<open>A loop that succeeds ends with a successful attempt.\<close>

lemma retry_loop_success:
  assumes "retry_loop limit attempt move n as s = (Some (Inr r), s')"
  shows "\<exists>a s0. attempt a s0 = (Some (Inr r), s')"
  using assms
proof (induction "as" arbitrary: n s)
  case Nil
  then show ?case by simp
next
  case (Cons a "as")
  obtain q s1 where att: "attempt a s = (q, s1)" by fastforce
  obtain m s2 where mv: "move a s1 = (m, s2)" by fastforce
  show ?case
  proof (cases "q = Some (Inr r) \<and> s1 = s'")
    case True
    with att show ?thesis by auto
  next
    case False
    with Cons.prems att mv have "retry_loop limit attempt move (n + 1) as s2 = (Some (Inr r), s')"
      by (auto split: if_splits sum.splits option.splits)
    then show ?thesis by (rule Cons.IH)
  qed
qed

end
