(* ===== verification/Engine.thy ===== *)
theory Engine
  imports Codec Retry "HOL-Library.AList"
begin

text \<open>
  \<open>ConsumerEngine\<close> of \<open>src/consumer.rs\<close>: the task behind a consumer of one topic. It grants the
  broker permits to send messages, unpacks what arrives (decompression, batches), forwards it to
  the consumer, sends acknowledgements and redelivery requests, moves undeliverable messages to a
  dead letter topic and subscribes again when its connection breaks.

  A turn of the engine's loop has two parts: \<open>engine_begin\<close> checks the connection and refills the window, and
  then the engine waits; \<open>wait_for_event\<close> is what it does with what it waited for, a message of the broker, a
  message of the consumer, or the one-second timer. \<open>engine_step\<close> is a turn in which nothing happens to the
  connection between the two; \<open>Reconnection\<close> takes the parts one by one. What the rest of the client
  answers (the lookup and connection for a new subscription, the dead letter producer), the
  decompression libraries and the clock are the record \<open>engine_env\<close>. The channels to the consumer
  and to the dead letter producer are the lists of what was sent on them; the channel on which
  messages arrive is a number, as in the receiver. The channel to the consumer holds 1000 items in the code, and
  a send waits while it is full; the engine does nothing else meanwhile and the items keep their order, so that
  the turn is taken as done when its first item is sent. The map of unacknowledged messages is an
  association list in the iteration order of the hash map.
\<close>

section \<open>State\<close>

record DeadLetterPolicy =
  max_redeliver_count :: nat
  dead_letter_topic :: string

record MessageData =
  md_id :: message_id_data
  md_batch_size :: "i32 option"

datatype EngineMessage =
    EngineAck MessageData bool
  | EngineNack MessageData
  | UnackedRedelivery
  | GetConnection nat

record ConsumerEngine =
  e_connection :: Connection
  e_topic :: string
  e_subscription :: string
  e_sub_type :: sub_type
  e_id :: u64
  e_name :: "string option"
  e_tx :: "(pulsar_error, message_id_data \<times> payload) res list"
  e_tx_open :: bool
  e_messages_rx :: "nat option"
  e_batch_size :: u32
  e_remaining_messages :: u32
  e_redelivery_delay :: "nat option"
  e_unacked_messages :: "(message_id_data \<times> nat) list"
  e_dead_letter_policy :: "DeadLetterPolicy option"
  e_options :: ConsumerOptions
  e_held :: "nat option"
  e_dead_letters :: "(string \<times> bytes) list"
  e_connections_given :: "nat list"
  e_drop_signal :: nat
  e_signals_sent :: "nat list"
  e_close_tasks :: "(nat \<times> i64) list"

text \<open>
  \<open>e_held\<close> is \<open>messages_or_ack_f\<close>, the unfinished wait that the timer interrupted, named by the
  message channel it waits on. \<open>e_connections_given\<close> are the requests for the connection that
  were answered. With every subscription a task is spawned that waits on a drop signal and closes the
  consumer on the connection of that subscription if the signal is dropped, but not if it is sent:
  \<open>e_close_tasks\<close> has the signal and the connection of each, \<open>e_drop_signal\<close> is the signal the engine holds, and
  \<open>e_signals_sent\<close> are those it has sent.
\<close>

definition engine_new ::
  "Connection \<Rightarrow> string \<Rightarrow> string \<Rightarrow> sub_type \<Rightarrow> u64 \<Rightarrow> string option \<Rightarrow> nat \<Rightarrow> u32 \<Rightarrow> nat option
     \<Rightarrow> DeadLetterPolicy option \<Rightarrow> ConsumerOptions \<Rightarrow> ConsumerEngine" where
  "engine_new conn topic subscription st i name rx bsize delay policy options =
     \<lparr>e_connection = conn, e_topic = topic, e_subscription = subscription, e_sub_type = st,
      e_id = i, e_name = name, e_tx = [], e_tx_open = True, e_messages_rx = Some rx,
      e_batch_size = bsize, e_remaining_messages = bsize, e_redelivery_delay = delay,
      e_unacked_messages = [], e_dead_letter_policy = policy, e_options = options,
      e_held = None, e_dead_letters = [], e_connections_given = [], e_drop_signal = 0, e_signals_sent = [],
      e_close_tasks = [(0, conn_id conn)]\<rparr>"

section \<open>Parameters\<close>

text \<open>Decompression; \<open>None\<close> is a library that is not compiled in.\<close>

record codecs =
  c_lz4 :: "(bytes \<Rightarrow> i32 option \<Rightarrow> (io_error, bytes) res) option"
  c_zlib :: "(bytes \<Rightarrow> (io_error, bytes) res) option"
  c_zstd :: "(bytes \<Rightarrow> (io_error, bytes) res) option"
  c_snappy :: "(bytes \<Rightarrow> (io_error, bytes) res) option"

text \<open>What a reconnection meets: the lookup, the connection, the answer to the subscription, the channel
  it opens, and whether the executor takes the task that closes the consumer.\<close>

record reconnect_env =
  rc_lookup :: "(service_discovery_error, BrokerAddress) res"
  rc_connection :: "BrokerAddress \<Rightarrow> (connection_error, Connection) res"
  rc_response :: "pulsar_message awaited"
  rc_channel :: nat
  rc_spawned :: bool

record engine_env =
  ee_dbg :: "base_command \<Rightarrow> string"
  ee_wire :: wire
  ee_prost :: "single_message_metadata prost"
  ee_codecs :: codecs
  ee_show_i32 :: "i32 \<Rightarrow> string"
  ee_now :: nat
  ee_dead_letter :: "string \<Rightarrow> bytes \<Rightarrow> (pulsar_error, (pulsar_error, unit) res) res"
  ee_tx_full :: bool
  ee_rc_check :: reconnect_env
  ee_rc_flow :: reconnect_env
  ee_rc_close :: reconnect_env

section \<open>Calls on the connection\<close>

definition on_sender ::
  "(ConnectionSender \<Rightarrow> 'r \<times> ConnectionSender) \<Rightarrow> ConsumerEngine \<Rightarrow> 'r \<times> ConsumerEngine" where
  "on_sender f e =
     (case f (conn_sender (e_connection e)) of
        (r, s) \<Rightarrow> (r, e\<lparr>e_connection := (e_connection e)\<lparr>conn_sender := s\<rparr>\<rparr>))"

definition reconnect ::
  "(base_command \<Rightarrow> string) \<Rightarrow> reconnect_env \<Rightarrow> ConsumerEngine
     \<Rightarrow> (pulsar_error, unit) res \<times> ConsumerEngine" where
  "reconnect dbg R e =
     (case rc_lookup R of
        Inl err \<Rightarrow> (Inl (EServiceDiscovery err), e)
      | Inr address \<Rightarrow>
          (case rc_connection R address of
             Inl err \<Rightarrow> (Inl (EConnection err), e)
           | Inr conn \<Rightarrow>
               (case on_sender
                       (sender_subscribe dbg (rc_channel R) (e_topic e) (e_subscription e)
                          (e_sub_type e) (e_id e) (e_name e) (e_options e) (rc_response R))
                       (e\<lparr>e_connection := conn\<rparr>) of
                  (Inl err, e) \<Rightarrow> (Inl (EConnection err), e)
                | (Inr _, e) \<Rightarrow>
                    (case on_sender (send_flow (e_id e) (e_batch_size e)) e of
                       (Inl err, e) \<Rightarrow> (Inl (EConsumer (ConsConnection err)), e)
                     | (Inr _, e) \<Rightarrow>
                         (let signal = Suc (e_drop_signal e) in
                          (Inr (),
                           e\<lparr>e_messages_rx := Some (rc_channel R),
                             e_close_tasks := e_close_tasks e @
                               (if rc_spawned R then [(signal, conn_id (e_connection e))] else []),
                             e_drop_signal := signal,
                             e_signals_sent := e_signals_sent e @ [e_drop_signal e]\<rparr>))))))"

section \<open>Acknowledgements and redelivery\<close>

definition engine_ack :: "MessageData \<Rightarrow> bool \<Rightarrow> ConsumerEngine \<Rightarrow> ConsumerEngine" where
  "engine_ack m cumulative e =
     snd (on_sender (send_ack (e_id e) [md_id m] cumulative)
            (e\<lparr>e_unacked_messages := AList.delete (md_id m) (e_unacked_messages e)\<rparr>))"

definition engine_nack :: "MessageData \<Rightarrow> ConsumerEngine \<Rightarrow> ConsumerEngine" where
  "engine_nack m e = snd (on_sender (send_redeliver_unacknowleged_messages (e_id e) [md_id m]) e)"

definition unacked_redelivery :: "nat \<Rightarrow> ConsumerEngine \<Rightarrow> ConsumerEngine" where
  "unacked_redelivery now e =
     (let h = map fst (filter (\<lambda>(i, t). t < now) (e_unacked_messages e)) in
      if h = [] then e
      else case on_sender (send_redeliver_unacknowleged_messages (e_id e) h) e of
        (Inl _, e) \<Rightarrow> e
      | (Inr _, e) \<Rightarrow> e\<lparr>e_unacked_messages := fold AList.delete h (e_unacked_messages e)\<rparr>)"

section \<open>Delivering messages\<close>

definition send_to_consumer ::
  "nat \<Rightarrow> message_id_data \<Rightarrow> payload \<Rightarrow> ConsumerEngine
     \<Rightarrow> (pulsar_error, unit) res \<times> ConsumerEngine" where
  "send_to_consumer now i p e =
     (if \<not> e_tx_open e then (Inl (ECustom ''tx closed''), e)
      else
        let e = e\<lparr>e_tx := e_tx e @ [Inr (i, p)]\<rparr> in
        (Inr (),
         case e_redelivery_delay e of
           None \<Rightarrow> e
         | Some d \<Rightarrow> e\<lparr>e_unacked_messages := AList.update i (now + d) (e_unacked_messages e)\<rparr>))"

record BatchedMessageIterator =
  it_messages :: "BatchedMessage list"
  it_message_id :: message_id_data
  it_metadata :: message_metadata
  it_total_messages :: u32
  it_current_index :: u32

definition iterator_new ::
  "wire \<Rightarrow> single_message_metadata prost \<Rightarrow> message_id_data \<Rightarrow> i32 \<Rightarrow> payload
     \<Rightarrow> (connection_error, BatchedMessageIterator) res" where
  "iterator_new W S i n p =
     bind_res (parse_batched_message W S n (data p)) (\<lambda>ms.
       Inr \<lparr>it_messages = ms, it_message_id = i, it_metadata = metadata p,
            it_total_messages = n, it_current_index = 0\<rparr>)"

definition iterator_next ::
  "BatchedMessageIterator \<Rightarrow> ((message_id_data \<times> payload) \<times> BatchedMessageIterator) option" where
  "iterator_next it =
     (if it_total_messages it - it_current_index it = 0 then None
      else
        case it_messages it of
          [] \<Rightarrow> None
        | m # ms \<Rightarrow>
            Some ((with_batch_index (it_message_id it) (Some (it_current_index it)),
                   \<lparr>metadata = (it_metadata it)
                      \<lparr>properties := sm_properties (bm_metadata m),
                       partition_key := sm_partition_key (bm_metadata m),
                       event_time := sm_event_time (bm_metadata m)\<rparr>,
                    data = bm_payload m\<rparr>),
                  it\<lparr>it_messages := ms, it_current_index := it_current_index it + 1\<rparr>))"

lemma iterator_next_shrinks:
  "iterator_next it = Some (x, it') \<Longrightarrow> length (it_messages it') < length (it_messages it)"
  by (auto simp: iterator_next_def split: if_splits list.splits)

function deliver_batch ::
  "nat \<Rightarrow> BatchedMessageIterator \<Rightarrow> ConsumerEngine \<Rightarrow> (pulsar_error, unit) res \<times> ConsumerEngine"
where
  "deliver_batch now it e =
     (case iterator_next it of
        None \<Rightarrow> (Inr (), e)
      | Some ((i, p), it) \<Rightarrow>
          (case send_to_consumer now i p e of
             (Inl err, e) \<Rightarrow> (Inl err, e)
           | (Inr _, e) \<Rightarrow> deliver_batch now it e))"
  by pat_completeness auto
termination
  by (relation "measure (\<lambda>(now, it, e). length (it_messages it))")
    (auto dest: iterator_next_shrinks)

declare deliver_batch.simps [simp del]

definition disabled :: "string \<Rightarrow> pulsar_error" where
  "disabled text = EConsumer (ConsIo (IoError OtherKind text))"

definition decompress ::
  "codecs \<Rightarrow> (i32 \<Rightarrow> string) \<Rightarrow> payload \<Rightarrow> (pulsar_error, payload) res" where
  "decompress C show_i32 p =
     (let run = (\<lambda>r. bind_res (map_err (\<lambda>err. EConsumer (ConsIo err)) r)
                       (\<lambda>bs. Inr (p\<lparr>data := bs\<rparr>)))
      in
      case compression (metadata p) of
        None \<Rightarrow> Inr p
      | Some k \<Rightarrow>
          (if k = 0 then Inr p
           else if k = 1 then
             (case c_lz4 C of
                None \<Rightarrow> Inl (disabled ''got a LZ4 compressed message but 'lz4' cargo feature is deactivated'')
              | Some f \<Rightarrow> run (f (data p) (uncompressed_size (metadata p))))
           else if k = 2 then
             (case c_zlib C of
                None \<Rightarrow> Inl (disabled ''got a zlib compressed message but 'flate2' cargo feature is deactivated'')
              | Some f \<Rightarrow> run (f (data p)))
           else if k = 3 then
             (case c_zstd C of
                None \<Rightarrow> Inl (disabled ''got a zstd compressed message but 'zstd' cargo feature is deactivated'')
              | Some f \<Rightarrow> run (f (data p)))
           else if k = 4 then
             (case c_snappy C of
                None \<Rightarrow> Inl (disabled ''got a Snappy compressed message but 'snap' cargo feature is deactivated'')
              | Some f \<Rightarrow> run (f (data p)))
           else Inl (disabled (''unknown compression type: '' @ show_i32 k))))"

definition process_payload ::
  "engine_env \<Rightarrow> command_message \<Rightarrow> payload \<Rightarrow> ConsumerEngine
     \<Rightarrow> (pulsar_error, unit) res \<times> ConsumerEngine" where
  "process_payload E m p e =
     (case decompress (ee_codecs E) (ee_show_i32 E) p of
        Inl err \<Rightarrow> (Inl err, e)
      | Inr p \<Rightarrow>
          (case num_messages_in_batch (metadata p) of
             Some n \<Rightarrow>
               (case iterator_new (ee_wire E) (ee_prost E) (msg_message_id m) n p of
                  Inl err \<Rightarrow> (Inl (EConnection err), e)
                | Inr it \<Rightarrow> deliver_batch (ee_now E) it e)
           | None \<Rightarrow>
               (case (msg_redelivery_count m, e_dead_letter_policy e) of
                  (Some redelivery_count, Some policy) \<Rightarrow>
                    (if max_redeliver_count policy \<le> unat redelivery_count then
                       (case ee_dead_letter E (dead_letter_topic policy) (data p) of
                          Inl err \<Rightarrow> (Inl err, e)
                        | Inr sent \<Rightarrow>
                            (let e = e\<lparr>e_dead_letters :=
                                   e_dead_letters e @ [(dead_letter_topic policy, data p)]\<rparr> in
                             case sent of
                               Inl err \<Rightarrow> (Inl (ECustom ''DLQ send error''), e)
                             | Inr _ \<Rightarrow>
                                 (Inr (), engine_ack
                                    \<lparr>md_id = msg_message_id m, md_batch_size = None\<rparr> False e)))
                     else send_to_consumer (ee_now E) (msg_message_id m) p e)
                | _ \<Rightarrow> send_to_consumer (ee_now E) (msg_message_id m) p e)))"

text \<open>The result says whether there are more messages to process.\<close>

definition process_message ::
  "engine_env \<Rightarrow> pulsar_message \<Rightarrow> ConsumerEngine \<Rightarrow> (pulsar_error, bool) res \<times> ConsumerEngine" where
  "process_message E msg e =
     (let c = command msg in
      if reached_end_of_topic c \<noteq> None then (Inr False, e)
      else if active_consumer_change c \<noteq> None then (Inr True, e)
      else
        case message c of
          Some m \<Rightarrow>
            (case payload msg of
               Some p \<Rightarrow>
                 (case process_payload E m p e of
                    (Inl err, e) \<Rightarrow> (Inl err, e)
                  | (Inr _, e) \<Rightarrow> (Inr True, e))
             | None \<Rightarrow> (Inr True, e))
        | None \<Rightarrow>
            (case close_consumer c of
               Some _ \<Rightarrow>
                 (case reconnect (ee_dbg E) (ee_rc_close E) e of
                    (Inl err, e) \<Rightarrow> (Inl err, e)
                  | (Inr _, e) \<Rightarrow> (Inr True, e))
             | None \<Rightarrow> (Inr True, e)))"

section \<open>The loop\<close>

text \<open>How a turn ends: the loop goes on, the engine returns, or it panics.\<close>

datatype turn = Continue | Return "(pulsar_error, unit) res" | Panic

datatype engine_event =
    MessagesNext "pulsar_message option"
  | EngineNext "EngineMessage option"
  | Timer

definition check_connection ::
  "engine_env \<Rightarrow> ConsumerEngine \<Rightarrow> (pulsar_error, unit) res \<times> ConsumerEngine" where
  "check_connection E e =
     (if is_valid (e_connection e) then (Inr (), e)
      else case connection_error (e_connection e) of
        (Some err, c) \<Rightarrow> reconnect (ee_dbg E) (ee_rc_check E) (e\<lparr>e_connection := c\<rparr>)
      | (None, c) \<Rightarrow> (Inr (), e\<lparr>e_connection := c\<rparr>))"

definition refill ::
  "engine_env \<Rightarrow> ConsumerEngine \<Rightarrow> (pulsar_error, unit) res \<times> ConsumerEngine" where
  "refill E e =
     (if e_remaining_messages e < e_batch_size e div 2 then
        (case on_sender (send_flow (e_id e) (e_batch_size e - e_remaining_messages e)) e of
           (Inr _, e) \<Rightarrow> (Inr (), e\<lparr>e_remaining_messages := e_batch_size e\<rparr>)
         | (Inl Disconnected, e) \<Rightarrow>
             (case reconnect (ee_dbg E) (ee_rc_flow E) e of
                (Inl err, e) \<Rightarrow> (Inl err, e)
              | (Inr _, e) \<Rightarrow>
                  (case on_sender (send_flow (e_id e) (e_batch_size e - e_remaining_messages e)) e of
                     (Inl err, e) \<Rightarrow> (Inl (EConnection err), e)
                   | (Inr _, e) \<Rightarrow> (Inr (), e\<lparr>e_remaining_messages := e_batch_size e\<rparr>)))
         | (Inl err, e) \<Rightarrow> (Inl (EConnection err), e))
      else (Inr (), e))"

text \<open>How many permits a message used: the size of its batch, read as an unsigned number.\<close>

definition permits_used :: "pulsar_message \<Rightarrow> u32" where
  "permits_used msg =
     (case payload msg of
        None \<Rightarrow> 1
      | Some p \<Rightarrow> (case num_messages_in_batch (metadata p) of None \<Rightarrow> 1 | Some n \<Rightarrow> n))"

definition handle_inbound :: "engine_env \<Rightarrow> pulsar_message \<Rightarrow> ConsumerEngine \<Rightarrow> turn \<times> ConsumerEngine"
where
  "handle_inbound E msg e =
     (case process_message E msg
             (e\<lparr>e_remaining_messages := e_remaining_messages e - permits_used msg\<rparr>) of
        (Inr True, e) \<Rightarrow> (Continue, e)
      | (Inr False, e) \<Rightarrow> (Return (Inr ()), e)
      | (Inl err, e) \<Rightarrow>
          (if e_tx_open e then (Continue, e\<lparr>e_tx := e_tx e @ [Inl err]\<rparr>)
           else (Return (Inl (EConsumer (consumer_error_from_send (ee_tx_full E)))), e)))"

fun handle_engine_message ::
  "engine_env \<Rightarrow> EngineMessage \<Rightarrow> ConsumerEngine \<Rightarrow> ConsumerEngine" where
  "handle_engine_message E (EngineAck m cumulative) e = engine_ack m cumulative e"
| "handle_engine_message E (EngineNack m) e = engine_nack m e"
| "handle_engine_message E UnackedRedelivery e = unacked_redelivery (ee_now E) e"
| "handle_engine_message E (GetConnection ch) e =
     e\<lparr>e_connections_given := e_connections_given e @ [ch]\<rparr>"

text \<open>The channel a new or resumed wait listens on.\<close>

definition listening :: "ConsumerEngine \<Rightarrow> nat option" where
  "listening e = (case e_held e of Some ch \<Rightarrow> Some ch | None \<Rightarrow> e_messages_rx e)"

definition wait_for_event ::
  "engine_env \<Rightarrow> engine_event \<Rightarrow> ConsumerEngine \<Rightarrow> turn \<times> ConsumerEngine" where
  "wait_for_event E ev e =
     (case listening e of
        None \<Rightarrow> (Panic, e)
      | Some ch \<Rightarrow>
          (let taken = e\<lparr>e_held := None, e_messages_rx := Some ch\<rparr> in
           case ev of
             Timer \<Rightarrow>
               (Continue,
                case e_held e of
                  Some _ \<Rightarrow> e
                | None \<Rightarrow> e\<lparr>e_held := Some ch, e_messages_rx := None\<rparr>)
           | MessagesNext None \<Rightarrow> (Panic, taken)
           | MessagesNext (Some msg) \<Rightarrow> handle_inbound E msg taken
           | EngineNext None \<Rightarrow> (Return (Inr ()), taken)
           | EngineNext (Some m) \<Rightarrow> (Continue, handle_engine_message E m taken)))"

definition engine_begin ::
  "engine_env \<Rightarrow> ConsumerEngine \<Rightarrow> (pulsar_error, unit) res \<times> ConsumerEngine" where
  "engine_begin E e =
     (case check_connection E e of
        (Inl err, e) \<Rightarrow> (Inl err, e)
      | (Inr _, e) \<Rightarrow> refill E e)"

definition engine_step ::
  "engine_env \<Rightarrow> engine_event \<Rightarrow> ConsumerEngine \<Rightarrow> turn \<times> ConsumerEngine" where
  "engine_step E ev e =
     (case check_connection E e of
        (Inl err, e) \<Rightarrow> (Return (Inl err), e)
      | (Inr _, e) \<Rightarrow>
          (case refill E e of
             (Inl err, e) \<Rightarrow> (Return (Inl err), e)
           | (Inr _, e) \<Rightarrow> wait_for_event E ev e))"

lemma engine_step_begin:
  "engine_step E ev e =
     (case engine_begin E e of
        (Inl err, e) \<Rightarrow> (Return (Inl err), e)
      | (Inr _, e) \<Rightarrow> wait_for_event E ev e)"
  by (simp add: engine_step_def engine_begin_def split: prod.split sum.split)

text \<open>The engine over a sequence of turns; it stops at the first turn that does not continue.\<close>

fun engine_run ::
  "(engine_env \<times> engine_event) list \<Rightarrow> ConsumerEngine \<Rightarrow> turn \<times> ConsumerEngine" where
  "engine_run [] e = (Continue, e)"
| "engine_run ((E, ev) # evs) e =
     (case engine_step E ev e of
        (Continue, e) \<Rightarrow> engine_run evs e
      | (t, e) \<Rightarrow> (t, e))"

section \<open>Flow control\<close>

text \<open>The permits granted to the broker by the flow commands among the messages sent.\<close>

definition granted :: "pulsar_message list \<Rightarrow> nat" where
  "granted ms =
     sum_list (map (\<lambda>m. case flow (command m) of None \<Rightarrow> 0 | Some f \<Rightarrow> unat (flow_message_permits f)) ms)"

definition engine_tx :: "ConsumerEngine \<Rightarrow> pulsar_message list" where
  "engine_tx e = cs_tx (conn_sender (e_connection e))"

definition healthy :: "ConsumerEngine \<Rightarrow> bool" where
  "healthy e \<longleftrightarrow> is_valid (e_connection e) \<and> cs_tx_open (conn_sender (e_connection e))"

text \<open>A turn that does not lead to a new subscription.\<close>

definition calm :: "engine_event \<Rightarrow> bool" where
  "calm ev =
     (case ev of
        MessagesNext (Some m) \<Rightarrow> close_consumer (command m) = None
      | _ \<Rightarrow> True)"

definition consumed :: "engine_event \<Rightarrow> nat" where
  "consumed ev = (case ev of MessagesNext (Some m) \<Rightarrow> unat (permits_used m) | _ \<Rightarrow> 0)"

lemma granted_simps [simp]:
  "granted [] = 0"
  "granted (xs @ ys) = granted xs + granted ys"
  "granted (messages_flow i k # ms) = unat k + granted ms"
  "granted (messages_ack i ids cum # ms) = granted ms"
  "granted (messages_redeliver_unacknowleged_messages i ids # ms) = granted ms"
  by (simp_all add: granted_def proto_simps)

lemma on_sender_healthy:
  assumes "healthy e"
  shows "on_sender (send_flow i k) e =
      (Inr (), e\<lparr>e_connection := (e_connection e)\<lparr>conn_sender := (conn_sender (e_connection e))
         \<lparr>cs_tx := engine_tx e @ [messages_flow i k]\<rparr>\<rparr>\<rparr>)"
    and "on_sender (send_ack i ids cum) e =
      (Inr (), e\<lparr>e_connection := (e_connection e)\<lparr>conn_sender := (conn_sender (e_connection e))
         \<lparr>cs_tx := engine_tx e @ [messages_ack i ids cum]\<rparr>\<rparr>\<rparr>)"
    and "on_sender (send_redeliver_unacknowleged_messages i ids) e =
      (Inr (), e\<lparr>e_connection := (e_connection e)\<lparr>conn_sender := (conn_sender (e_connection e))
         \<lparr>cs_tx := engine_tx e @ [messages_redeliver_unacknowleged_messages i ids]\<rparr>\<rparr>\<rparr>)"
  using assms
  by (simp_all add: on_sender_def send_flow_def send_ack_def
      send_redeliver_unacknowleged_messages_def tx_send_def healthy_def engine_tx_def)

text \<open>What the handling of messages leaves alone: the flow-control state and the channels.\<close>

definition untouched :: "ConsumerEngine \<Rightarrow> ConsumerEngine \<Rightarrow> bool" where
  "untouched e e' \<longleftrightarrow>
     (healthy e \<longrightarrow> healthy e') \<and> granted (engine_tx e') = granted (engine_tx e) \<and>
     e_batch_size e' = e_batch_size e \<and> e_remaining_messages e' = e_remaining_messages e \<and>
     e_held e' = e_held e \<and> e_messages_rx e' = e_messages_rx e \<and>
     conn_id (e_connection e') = conn_id (e_connection e)"

lemma untouched_refl [simp]: "untouched e e"
  by (simp add: untouched_def)

lemma untouched_trans: "untouched a b \<Longrightarrow> untouched b c \<Longrightarrow> untouched a c"
  by (auto simp: untouched_def)

lemma untouched_updates [simp]:
  "untouched a (e\<lparr>e_tx := x1\<rparr>) = untouched a e"
  "untouched a (e\<lparr>e_unacked_messages := x2\<rparr>) = untouched a e"
  "untouched a (e\<lparr>e_dead_letters := x3\<rparr>) = untouched a e"
  "untouched a (e\<lparr>e_connections_given := x4\<rparr>) = untouched a e"
  by (simp_all add: untouched_def healthy_def engine_tx_def)

lemma tx_send_fields:
  "cs_error (snd (tx_send m s)) = cs_error s"
  "cs_tx_open (snd (tx_send m s)) = cs_tx_open s"
  "cs_tx (snd (tx_send m s)) = cs_tx s @ (if cs_tx_open s then [m] else [])"
  by (simp_all add: tx_send_def)

lemma on_sender_untouched [simp]:
  "untouched a (snd (on_sender (send_ack i ids cum) e)) = untouched a e"
  "untouched a (snd (on_sender (send_redeliver_unacknowleged_messages i ids) e)) = untouched a e"
  by (simp_all add: on_sender_def send_ack_def send_redeliver_unacknowleged_messages_def
      untouched_def healthy_def engine_tx_def is_valid_def tx_send_fields split: prod.split)
    (auto simp: tx_send_def split: if_splits)

lemma engine_ack_untouched [simp]: "untouched a (engine_ack m cum e) = untouched a e"
  by (simp add: engine_ack_def)

lemma engine_nack_untouched [simp]: "untouched a (engine_nack m e) = untouched a e"
  by (simp add: engine_nack_def)

lemma unacked_redelivery_untouched [simp]: "untouched a (unacked_redelivery now e) = untouched a e"
proof -
  let ?ids = "map fst (filter (\<lambda>(i, t). t < now) (e_unacked_messages e))"
  obtain r e' where s: "on_sender (send_redeliver_unacknowleged_messages (e_id e) ?ids) e = (r, e')"
    by fastforce
  with on_sender_untouched(2) [of a "e_id e" ?ids e] have "untouched a e' = untouched a e" by simp
  with s show ?thesis by (cases r) (simp_all add: unacked_redelivery_def Let_def)
qed

lemma handle_engine_message_untouched [simp]:
  "untouched a (handle_engine_message E m e) = untouched a e"
  by (cases m) simp_all

lemma send_to_consumer_untouched:
  "send_to_consumer now i p e = (r, e') \<Longrightarrow> untouched e e'"
  by (auto simp: send_to_consumer_def Let_def split: if_splits option.splits)

lemma deliver_batch_preserves:
  assumes step: "\<And>now i p e r e'. I e \<Longrightarrow> send_to_consumer now i p e = (r, e') \<Longrightarrow> I e'"
    and "I e" and "deliver_batch now it e = (r, e')"
  shows "I e'"
  using assms(2,3)
proof (induction now it e arbitrary: r e' rule: deliver_batch.induct)
  case (1 now it e)
  show ?case
  proof (cases "iterator_next it")
    case None
    with "1.prems" show ?thesis by (simp add: deliver_batch.simps [of now it])
  next
    case (Some x)
    obtain i p it' where x: "x = ((i, p), it')" by (metis surj_pair)
    obtain r1 e1 where s: "send_to_consumer now i p e = (r1, e1)" by fastforce
    have e1: "I e1" using "1.prems"(1) s by (rule step)
    show ?thesis
    proof (cases r1)
      case (Inl err)
      with "1.prems" Some x s e1 show ?thesis by (simp add: deliver_batch.simps [of now it])
    next
      case (Inr u)
      with "1.prems" Some x s have "deliver_batch now it' e1 = (r, e')"
        by (simp add: deliver_batch.simps [of now it])
      with "1.IH" [OF Some x [symmetric] refl s [symmetric] Inr] e1 show ?thesis by blast
    qed
  qed
qed

lemma deliver_batch_untouched: "deliver_batch now it e = (r, e') \<Longrightarrow> untouched e e'"
  by (rule deliver_batch_preserves [where I = "untouched e" and now = now and it = it and e = e])
    (auto intro: untouched_trans send_to_consumer_untouched)

lemma process_payload_untouched: "process_payload E m p e = (r, e') \<Longrightarrow> untouched e e'"
  by (auto simp: process_payload_def Let_def split: sum.splits option.splits if_splits
      dest: send_to_consumer_untouched deliver_batch_untouched)

lemma process_message_untouched:
  assumes "process_message E msg e = (r, e')" and "close_consumer (command msg) = None"
  shows "untouched e e'"
proof -
  consider (other) "e' = e"
    | (payload) m p r1 where "process_payload E m p e = (r1, e')"
    using assms
    by (auto simp: process_message_def Let_def split: if_splits option.splits sum.splits prod.splits)
  then show ?thesis by cases (auto dest: process_payload_untouched)
qed

lemma handle_inbound_flow:
  assumes "handle_inbound E msg e = (t, e')" and "close_consumer (command msg) = None"
  shows "untouched (e\<lparr>e_remaining_messages := e_remaining_messages e - permits_used msg\<rparr>) e'"
proof -
  let ?e = "e\<lparr>e_remaining_messages := e_remaining_messages e - permits_used msg\<rparr>"
  obtain r e1 where p: "process_message E msg ?e = (r, e1)" by fastforce
  have "untouched ?e e1" using p assms(2) by (rule process_message_untouched)
  with assms(1) p show ?thesis
    by (auto simp: handle_inbound_def split: sum.splits bool.splits if_splits)
qed

lemma check_connection_healthy: "healthy e \<Longrightarrow> check_connection E e = (Inr (), e)"
  by (simp add: check_connection_def healthy_def)

text \<open>On a healthy connection the refill grants what is missing to the full window.\<close>

lemma refill_healthy:
  assumes "healthy e" and "e_remaining_messages e \<le> e_batch_size e"
  obtains e1 where "refill E e = (Inr (), e1)" "healthy e1" "e_batch_size e1 = e_batch_size e"
    "e_batch_size e div 2 \<le> e_remaining_messages e1" "e_remaining_messages e1 \<le> e_batch_size e"
    "granted (engine_tx e1) + unat (e_remaining_messages e) =
       granted (engine_tx e) + unat (e_remaining_messages e1)"
    "e_remaining_messages e \<le> e_remaining_messages e1" "e_held e1 = e_held e" "e_messages_rx e1 = e_messages_rx e"
proof (cases "e_remaining_messages e < e_batch_size e div 2")
  case True
  let ?e1 = "snd (on_sender (send_flow (e_id e) (e_batch_size e - e_remaining_messages e)) e)
    \<lparr>e_remaining_messages := e_batch_size e\<rparr>"
  have "unat (e_batch_size e - e_remaining_messages e) =
      unat (e_batch_size e) - unat (e_remaining_messages e)"
    using assms(2) by (rule unat_sub)
  moreover have "unat (e_remaining_messages e) \<le> unat (e_batch_size e)"
    using assms(2) by (simp add: word_le_nat_alt)
  moreover have "e_batch_size e div 2 \<le> e_batch_size e"
    by (simp add: word_le_nat_alt unat_div)
  moreover have "refill E e = (Inr (), ?e1)"
    using True assms(1) by (simp add: refill_def on_sender_healthy)
  ultimately show thesis
    using assms
    by (intro that [of ?e1]) (simp_all add: on_sender_healthy healthy_def is_valid_def engine_tx_def)
next
  case False
  then show thesis using assms by (intro that [of e]) (simp_all add: refill_def)
qed

text \<open>The flow-control state of a turn: how much is granted, used and left.\<close>

definition flow_balance :: "nat \<Rightarrow> ConsumerEngine \<Rightarrow> ConsumerEngine \<Rightarrow> bool" where
  "flow_balance n e e' \<longleftrightarrow>
     healthy e' \<and> e_batch_size e' = e_batch_size e \<and> e_remaining_messages e' \<le> e_batch_size e' \<and>
     granted (engine_tx e') + unat (e_remaining_messages e) =
       granted (engine_tx e) + unat (e_remaining_messages e') + n"

lemma flow_balance_trans:
  "flow_balance n a b \<Longrightarrow> flow_balance m b c \<Longrightarrow> flow_balance (n + m) a c"
  by (auto simp: flow_balance_def)

lemma untouched_balance:
  assumes "untouched e e'" and "healthy e" and "e_remaining_messages e \<le> e_batch_size e"
  shows "flow_balance 0 e e'"
  using assms by (simp add: untouched_def flow_balance_def)

lemma wait_for_event_balance:
  assumes "wait_for_event E ev e = (t, e')" and "healthy e" and "calm ev"
    and "e_remaining_messages e \<le> e_batch_size e" and "t \<noteq> Panic"
    and "consumed ev \<le> unat (e_remaining_messages e)"
  shows "flow_balance (consumed ev) e e'"
proof -
  obtain ch where ch: "listening e = Some ch"
    using assms(1,5) by (cases "listening e") (auto simp: wait_for_event_def)
  let ?e = "e\<lparr>e_held := None, e_messages_rx := Some ch\<rparr>"
  have same: "flow_balance 0 e ?e" "healthy ?e" "e_remaining_messages ?e \<le> e_batch_size ?e"
    using assms(2,4) by (simp_all add: flow_balance_def healthy_def engine_tx_def)
  show ?thesis
  proof (cases ev)
    case Timer
    with assms ch show ?thesis
      by (auto simp: wait_for_event_def flow_balance_def healthy_def engine_tx_def consumed_def
          Let_def split: option.splits)
  next
    case (EngineNext m)
    then have "untouched ?e e'"
      using assms(1) ch by (auto simp: wait_for_event_def Let_def split: option.splits)
    from flow_balance_trans [OF same(1) untouched_balance [OF this same(2,3)]] EngineNext
    show ?thesis by (simp add: consumed_def)
  next
    case (MessagesNext m)
    with assms(1,5) ch obtain msg where m: "m = Some msg"
      by (cases m) (auto simp: wait_for_event_def Let_def)
    with MessagesNext assms(1) ch have "handle_inbound E msg ?e = (t, e')"
      by (simp add: wait_for_event_def Let_def)
    then have f: "untouched (?e\<lparr>e_remaining_messages := e_remaining_messages e - permits_used msg\<rparr>) e'"
      using handle_inbound_flow [of E msg ?e] assms(3) MessagesNext m by (simp add: calm_def)
    have le: "permits_used msg \<le> e_remaining_messages e"
      using assms(6) MessagesNext m by (simp add: consumed_def word_le_nat_alt)
    then have "unat (e_remaining_messages e - permits_used msg) =
        unat (e_remaining_messages e) - unat (permits_used msg)"
      by (rule unat_sub)
    moreover from this le assms(4) have
      "e_remaining_messages e - permits_used msg \<le> e_batch_size e"
      by (simp add: word_le_nat_alt)
    ultimately show ?thesis
      using f assms(2) le MessagesNext m
      by (auto simp: untouched_def flow_balance_def consumed_def healthy_def engine_tx_def
          word_le_nat_alt)
  qed
qed

lemma engine_step_balance:
  assumes "engine_step E ev e = (t, e')" and "healthy e" and "calm ev"
    and "e_remaining_messages e \<le> e_batch_size e" and "t \<noteq> Panic"
    and "consumed ev \<le> max (unat (e_remaining_messages e)) (unat (e_batch_size e div 2))"
  shows "flow_balance (consumed ev) e e'"
proof -
  from refill_healthy [OF assms(2,4), of E] obtain e1 where r: "refill E e = (Inr (), e1)"
    "healthy e1" "e_batch_size e1 = e_batch_size e" "e_batch_size e div 2 \<le> e_remaining_messages e1"
    "e_remaining_messages e1 \<le> e_batch_size e"
    "granted (engine_tx e1) + unat (e_remaining_messages e) =
       granted (engine_tx e) + unat (e_remaining_messages e1)"
    "e_remaining_messages e \<le> e_remaining_messages e1"
    by blast
  have "wait_for_event E ev e1 = (t, e')"
    using assms(1,2) r(1) by (simp add: engine_step_def check_connection_healthy)
  moreover have "consumed ev \<le> unat (e_remaining_messages e1)"
    using assms(6) r(4,7) by (simp add: word_le_nat_alt max_def split: if_splits)
  ultimately have "flow_balance (consumed ev) e1 e'"
    using wait_for_event_balance r assms(3,5) by simp
  with r show ?thesis by (auto simp: flow_balance_def)
qed

lemma engine_run_balance:
  assumes "engine_run evs e = (Continue, e')" and "healthy e"
    and "e_remaining_messages e \<le> e_batch_size e"
    and "\<forall>(E, ev) \<in> set evs. calm ev \<and> consumed ev \<le> unat (e_batch_size e div 2)"
  shows "flow_balance (sum_list (map (\<lambda>x. consumed (snd x)) evs)) e e'"
  using assms
proof (induction evs arbitrary: e)
  case Nil
  then show ?case by (simp add: flow_balance_def)
next
  case (Cons x evs)
  obtain E ev where x: "x = (E, ev)" by fastforce
  with Cons.prems(1) obtain e1 where st: "engine_step E ev e = (Continue, e1)"
    and run: "engine_run evs e1 = (Continue, e')"
    by (auto split: turn.splits prod.splits)
  have b: "flow_balance (consumed ev) e e1"
    using engine_step_balance [OF st] Cons.prems x by (auto simp: max_def)
  then have "flow_balance (sum_list (map (\<lambda>x. consumed (snd x)) evs)) e1 e'"
    using Cons.IH [OF run] Cons.prems(4) by (auto simp: flow_balance_def)
  from flow_balance_trans [OF b this] x show ?case by simp
qed

section \<open>Windows that stop moving\<close>

text \<open>A window of one message is never refilled: half of it is nothing.\<close>

lemma refill_window_one: "e_batch_size e = 1 \<Longrightarrow> refill E e = (Inr (), e)"
  by (simp add: refill_def word_less_nat_alt unat_div)

lemma engine_step_window_one:
  assumes "engine_step E ev e = (Continue, e')" and "healthy e" and "calm ev"
    and "e_batch_size e = 1"
  shows "healthy e' \<and> e_batch_size e' = 1 \<and> granted (engine_tx e') = granted (engine_tx e)"
proof -
  have "wait_for_event E ev e = (Continue, e')"
    using assms(1,2,4) by (simp add: engine_step_def check_connection_healthy refill_window_one)
  then obtain ch where ch: "listening e = Some ch"
    by (cases "listening e") (auto simp: wait_for_event_def)
  let ?e = "e\<lparr>e_held := None, e_messages_rx := Some ch\<rparr>"
  consider (timer) "e' = e" | (timer') "e' = e\<lparr>e_held := Some ch, e_messages_rx := None\<rparr>"
    | (same) "untouched ?e e'"
    | (inbound) msg where "ev = MessagesNext (Some msg)" "handle_inbound E msg ?e = (Continue, e')"
    using \<open>wait_for_event E ev e = (Continue, e')\<close> ch
    by (auto simp: wait_for_event_def Let_def split: engine_event.splits option.splits)
  then show ?thesis
  proof cases
    case timer
    with assms(2,4) show ?thesis by simp
  next
    case timer'
    with assms(2,4) show ?thesis by (simp add: healthy_def engine_tx_def)
  next
    case same
    with assms(2,4) show ?thesis by (simp add: untouched_def healthy_def engine_tx_def)
  next
    case (inbound msg)
    with handle_inbound_flow [OF inbound(2)] assms show ?thesis
      by (simp add: untouched_def calm_def healthy_def engine_tx_def)
  qed
qed

lemma engine_run_window_one:
  assumes "engine_run evs e = (Continue, e')" and "healthy e" and "e_batch_size e = 1"
    and "\<forall>(E, ev) \<in> set evs. calm ev"
  shows "granted (engine_tx e') = granted (engine_tx e)"
  using assms
proof (induction evs arbitrary: e)
  case Nil
  then show ?case by simp
next
  case (Cons x evs)
  obtain E ev where x: "x = (E, ev)" by fastforce
  with Cons.prems(1) obtain e1 where st: "engine_step E ev e = (Continue, e1)"
    and run: "engine_run evs e1 = (Continue, e')"
    by (auto split: turn.splits prod.splits)
  from engine_step_window_one [OF st] Cons.prems x
  have "healthy e1" "e_batch_size e1 = 1" "granted (engine_tx e1) = granted (engine_tx e)" by auto
  with Cons.IH [OF run] Cons.prems(4) show ?case by simp
qed

lemma half_u32: "unat ((b :: u32) div 2) < 2 ^ 31"
proof -
  have "unat b < 2 ^ 32" using unsigned_less [of b, where ?'a = nat] by simp
  then show ?thesis by (simp add: unat_div)
qed

lemma overdrawn_value:
  assumes "unat (r :: u32) < unat n"
  shows "unat (r - n) = unat r + 2 ^ 32 - unat n"
proof -
  have "unat n < 2 ^ 32" using unsigned_less [of n, where ?'a = nat] by simp
  with unat_sub_if_size [of r n] assms show ?thesis by (simp add: word_size)
qed

section \<open>Delivery\<close>

text \<open>What the consumer gets for the message at a position of a batch.\<close>

definition batch_item ::
  "message_id_data \<Rightarrow> message_metadata \<Rightarrow> nat \<Rightarrow> BatchedMessage \<Rightarrow> message_id_data \<times> payload" where
  "batch_item i md k m =
     (with_batch_index i (Some (of_nat k)),
      \<lparr>metadata = md\<lparr>properties := sm_properties (bm_metadata m),
                     partition_key := sm_partition_key (bm_metadata m),
                     event_time := sm_event_time (bm_metadata m)\<rparr>,
       data = bm_payload m\<rparr>)"

definition batch_items ::
  "message_id_data \<Rightarrow> message_metadata \<Rightarrow> nat \<Rightarrow> BatchedMessage list \<Rightarrow> (message_id_data \<times> payload) list"
where
  "batch_items i md k ms = map (\<lambda>(j, m). batch_item i md j m) (enumerate k ms)"

lemma batch_items_simps [simp]:
  "batch_items i md k [] = []"
  "batch_items i md k (m # ms) = batch_item i md k m # batch_items i md (Suc k) ms"
  by (simp_all add: batch_items_def)

lemma send_to_consumer_open:
  assumes "e_tx_open e"
  obtains e1 where "send_to_consumer now i p e = (Inr (), e1)" "e_tx e1 = e_tx e @ [Inr (i, p)]"
    "e_tx_open e1"
  using assms by (cases "e_redelivery_delay e") (auto simp: send_to_consumer_def Let_def)

lemma iterator_next_item:
  assumes "k < unat n"
  shows "iterator_next \<lparr>it_messages = m # ms, it_message_id = i, it_metadata = md,
      it_total_messages = n, it_current_index = of_nat k\<rparr> =
    Some (batch_item i md k m, \<lparr>it_messages = ms, it_message_id = i, it_metadata = md,
      it_total_messages = n, it_current_index = of_nat (Suc k)\<rparr>)"
proof -
  have "k < 2 ^ 32" using assms unsigned_less [of n, where ?'a = nat] by simp
  then have "unat (of_nat k :: u32) \<noteq> unat n" using assms by simp
  then have "n - of_nat k \<noteq> 0" by auto
  then show ?thesis by (simp add: iterator_next_def batch_item_def add.commute)
qed

lemma deliver_batch_items:
  assumes "e_tx_open e" and "k + length ms \<le> unat n"
  shows "\<exists>e1. deliver_batch now \<lparr>it_messages = ms, it_message_id = i, it_metadata = md,
      it_total_messages = n, it_current_index = of_nat k\<rparr> e = (Inr (), e1) \<and>
    e_tx e1 = e_tx e @ map Inr (batch_items i md k ms)"
  using assms
proof (induction ms arbitrary: k e)
  case Nil
  show ?case by (subst deliver_batch.simps) (simp add: iterator_next_def)
next
  case (Cons m ms)
  obtain i1 p1 where it: "batch_item i md k m = (i1, p1)" by fastforce
  obtain e1 where e1: "send_to_consumer now i1 p1 e = (Inr (), e1)"
    "e_tx e1 = e_tx e @ [Inr (i1, p1)]" "e_tx_open e1"
    using Cons.prems(1) by (rule send_to_consumer_open)
  have "iterator_next \<lparr>it_messages = m # ms, it_message_id = i, it_metadata = md,
      it_total_messages = n, it_current_index = of_nat k\<rparr> =
    Some ((i1, p1), \<lparr>it_messages = ms, it_message_id = i, it_metadata = md,
      it_total_messages = n, it_current_index = of_nat (Suc k)\<rparr>)"
    using iterator_next_item [of k n] Cons.prems(2) it by simp
  with Cons.IH [of e1 "Suc k"] e1 Cons.prems(2) it show ?case
    by (subst deliver_batch.simps) simp
qed

lemma reconnect_held: "reconnect dbg R e = (r, e') \<Longrightarrow> e_held e' = e_held e"
  by (auto simp: reconnect_def on_sender_def split: sum.splits prod.splits)

lemma check_connection_held: "check_connection E e = (r, e') \<Longrightarrow> e_held e' = e_held e"
  by (auto simp: check_connection_def split: if_splits prod.splits option.splits dest: reconnect_held)

lemma on_sender_held: "on_sender f e = (r, e') \<Longrightarrow> e_held e' = e_held e"
  by (auto simp: on_sender_def split: prod.splits)

lemma refill_held: "refill E e = (r, e') \<Longrightarrow> e_held e' = e_held e"
  by (auto simp: refill_def split: if_splits prod.splits sum.splits connection_error.splits
      dest!: reconnect_held on_sender_held)

lemma untouched_listening: "untouched e e' \<Longrightarrow> listening e' = listening e"
  by (simp add: untouched_def listening_def split: option.split)

lemma wait_for_event_listening:
  assumes "wait_for_event E ev e = (t, e')" and "listening e = Some ch" and "calm ev"
    and "t \<noteq> Panic"
  shows "listening e' = Some ch"
proof -
  let ?e = "e\<lparr>e_held := None, e_messages_rx := Some ch\<rparr>"
  have e: "listening ?e = Some ch" by (simp add: listening_def)
  show ?thesis
  proof (cases ev)
    case Timer
    with assms(1,2) have "e' = (case e_held e of Some _ \<Rightarrow> e | None \<Rightarrow> e\<lparr>e_held := Some ch, e_messages_rx := None\<rparr>)"
      by (simp add: wait_for_event_def Let_def)
    with assms(2) show ?thesis by (simp add: listening_def split: option.splits)
  next
    case (EngineNext r)
    with assms(1,2) have "untouched ?e e'"
      by (cases r) (auto simp: wait_for_event_def Let_def)
    with e show ?thesis by (simp add: untouched_listening)
  next
    case (MessagesNext r)
    with assms(1,2,4) obtain msg where msg: "r = Some msg"
      by (cases r) (simp_all add: wait_for_event_def Let_def)
    with MessagesNext assms(1,2) have "handle_inbound E msg ?e = (t, e')"
      by (simp add: wait_for_event_def Let_def)
    from handle_inbound_flow [OF this] MessagesNext msg assms(3)
    have "untouched (?e\<lparr>e_remaining_messages := e_remaining_messages e - permits_used msg\<rparr>) e'"
      by (simp add: calm_def)
    then show ?thesis by (drule_tac untouched_listening) (simp add: listening_def)
  qed
qed

lemma send_to_consumer_keeps_open: "send_to_consumer now i p e = (r, e') \<Longrightarrow> e_tx_open e' = e_tx_open e"
  by (auto simp: send_to_consumer_def Let_def split: if_splits option.splits)

lemma deliver_batch_keeps_open: "deliver_batch now it e = (r, e') \<Longrightarrow> e_tx_open e' = e_tx_open e"
  by (rule deliver_batch_preserves [where I = "\<lambda>x. e_tx_open x = e_tx_open e" and now = now and it = it and e = e])
    (auto dest: send_to_consumer_keeps_open)

lemma process_payload_open: "process_payload E m p e = (r, e') \<Longrightarrow> e_tx_open e' = e_tx_open e"
  by (auto simp: process_payload_def engine_ack_def on_sender_def Let_def
      split: sum.splits option.splits if_splits prod.splits
      dest: send_to_consumer_keeps_open deliver_batch_keeps_open)

text \<open>A successful reconnection hands the close of the consumer over: if before it the engine held the signal
  of the only task that would close the consumer, then after it only the new task would, on the new
  connection.\<close>

definition pending_closes :: "ConsumerEngine \<Rightarrow> (nat \<times> i64) list" where
  "pending_closes e = filter (\<lambda>(n, c). n \<notin> set (e_signals_sent e)) (e_close_tasks e)"

lemma reconnect_close_tasks:
  assumes "reconnect dbg R e = (Inr (), e')" and "rc_spawned R"
    and "map fst (pending_closes e) = [e_drop_signal e]" and "\<forall>n \<in> set (e_signals_sent e). n < e_drop_signal e"
  shows "pending_closes e' = [(e_drop_signal e', conn_id (e_connection e'))] \<and>
    (\<forall>n \<in> set (e_signals_sent e'). n < e_drop_signal e')"
proof -
  obtain conn s where e': "e' = e\<lparr>e_connection := conn\<lparr>conn_sender := s\<rparr>, e_messages_rx := Some (rc_channel R),
      e_close_tasks := e_close_tasks e @ [(Suc (e_drop_signal e), conn_id conn)],
      e_drop_signal := Suc (e_drop_signal e), e_signals_sent := e_signals_sent e @ [e_drop_signal e]\<rparr>"
    using assms(1,2) by (auto simp: reconnect_def on_sender_def Let_def split: sum.splits prod.splits)
  have "filter (\<lambda>(n, c). n \<notin> set (e_signals_sent e @ [e_drop_signal e])) (e_close_tasks e) =
      filter (\<lambda>(n, c). n \<noteq> e_drop_signal e) (pending_closes e)"
    by (auto simp: pending_closes_def intro: filter_cong)
  also have "\<dots> = []" using assms(3) by (auto simp: filter_empty_conv)
  finally show ?thesis using assms(4) e' by (auto simp: pending_closes_def)
qed

section \<open>Instances for concrete inputs\<close>

definition ex_connection :: "i64 \<Rightarrow> Connection" where
  "ex_connection i =
     \<lparr>conn_id = i, conn_url = ex_url, conn_sender = connection_sender_new shared_error_new\<rparr>"

definition ex_engine :: "u32 \<Rightarrow> ConsumerEngine" where
  "ex_engine n =
     engine_new (ex_connection 1) ''t'' ''s'' Shared 2 None 0 n (Some 1000)
       (Some \<lparr>max_redeliver_count = 3, dead_letter_topic = ''dlq''\<rparr>) consumer_options_default"

definition ex_reconnect :: reconnect_env where
  "ex_reconnect =
     \<lparr>rc_lookup = Inr \<lparr>broker_address_url = ex_url, broker_url = ''broker'', broker_proxy = False\<rparr>,
      rc_connection = (\<lambda>a. Inr (ex_connection 9)), rc_response = Answered (ex_success 0),
      rc_channel = 5, rc_spawned = True\<rparr>"

definition ex_env :: engine_env where
  "ex_env =
     \<lparr>ee_dbg = (\<lambda>c. ''''), ee_wire = be_wire, ee_prost = ex_single,
      ee_codecs = \<lparr>c_lz4 = None, c_zlib = None, c_zstd = None, c_snappy = None\<rparr>,
      ee_show_i32 = (\<lambda>i. ''?''), ee_now = 10, ee_dead_letter = (\<lambda>t d. Inr (Inr ())),
      ee_tx_full = False, ee_rc_check = ex_reconnect, ee_rc_flow = ex_reconnect,
      ee_rc_close = ex_reconnect\<rparr>"

definition ex_inbound :: "u32 option \<Rightarrow> pulsar_message" where
  "ex_inbound redeliveries =
     \<lparr>command = default_base_command
        \<lparr>command_type := command_type_code TMessage,
         message := Some (CommandMessage 2 (MessageIdData 1 7 None None [] None None) redeliveries)\<rparr>,
      payload = Some \<lparr>metadata = default_message_metadata, data = [1, 2]\<rparr>\<rparr>"

lemmas ex_engine_defs = ex_engine_def ex_connection_def engine_new_def connection_sender_new_def
  shared_error_new_def ex_env_def ex_reconnect_def ex_inbound_def ex_url_def

lemmas engine_defs = engine_step_def check_connection_def refill_def wait_for_event_def listening_def
  handle_inbound_def process_message_def process_payload_def decompress_def send_to_consumer_def
  permits_used_def is_valid_def shared_error_is_set_def

lemma ex_engine_healthy [simp]: "healthy (ex_engine n)"
  by (simp add: healthy_def is_valid_def shared_error_is_set_def ex_engine_defs)

lemma ex_engine_fields [simp]:
  "e_remaining_messages (ex_engine n) = n"
  "e_batch_size (ex_engine n) = n"
  "e_tx_open (ex_engine n)"
  by (simp_all add: ex_engine_defs)

lemma ex_inbound_calm [simp]:
  "calm (MessagesNext (Some (ex_inbound r)))"
  "consumed (MessagesNext (Some (ex_inbound r))) = 1"
  by (simp_all add: calm_def consumed_def permits_used_def ex_inbound_def proto_simps
      default_message_metadata_def)

section \<open>Properties of the consumer engine\<close>

text \<open>C12: Flow control on one working connection. As long as the connection is not found broken, the
  broker does not close the consumer and no message counts for more than half of the window, after
  any number of turns the permits granted to the broker less the messages counted are
  exactly the number the engine counts with, and that never exceeds the window.\<close>

theorem flow_control_window:
  assumes "engine_run evs e = (Continue, e')" and "healthy e"
    and "e_remaining_messages e \<le> e_batch_size e"
    and "\<forall>(E, ev) \<in> set evs. calm ev \<and> consumed ev \<le> unat (e_batch_size e div 2)"
  shows "granted (engine_tx e') + unat (e_remaining_messages e) =
      granted (engine_tx e) + unat (e_remaining_messages e')
      + sum_list (map (\<lambda>x. consumed (snd x)) evs) \<and>
    e_remaining_messages e' \<le> e_batch_size e'"
  using engine_run_balance [OF assms] by (auto simp: flow_balance_def)

lemma ex_engine_turn:
  "engine_step ex_env (MessagesNext (Some (ex_inbound None))) (ex_engine 10) =
     (Continue, (ex_engine 10)
        \<lparr>e_remaining_messages := 9,
         e_tx := [Inr (MessageIdData 1 7 None None [] None None,
                       \<lparr>metadata = default_message_metadata, data = [1, 2]\<rparr>)],
         e_unacked_messages := [(MessageIdData 1 7 None None [] None None, 1010)]\<rparr>)"
  by (simp add: engine_defs ex_engine_defs proto_simps default_message_metadata_def Let_def)

theorem flow_control_window_witness:
  "granted (engine_tx (snd (engine_run [(ex_env, MessagesNext (Some (ex_inbound None)))] (ex_engine 10))))
     + unat (e_remaining_messages (ex_engine 10)) =
   granted (engine_tx (ex_engine 10))
     + unat (e_remaining_messages
         (snd (engine_run [(ex_env, MessagesNext (Some (ex_inbound None)))] (ex_engine 10))))
     + sum_list (map (\<lambda>x. consumed (snd x)) [(ex_env, MessagesNext (Some (ex_inbound None)))]) \<and>
   e_remaining_messages
     (snd (engine_run [(ex_env, MessagesNext (Some (ex_inbound None)))] (ex_engine 10)))
     \<le> e_batch_size (snd (engine_run [(ex_env, MessagesNext (Some (ex_inbound None)))] (ex_engine 10)))"
  by (rule flow_control_window)
    (simp_all add: ex_engine_turn)

text \<open>A window of one starves. An engine whose batch size is 1 never grants another permit on its
  connection: half of the window is 0 and no count is below it. After the first message the
  broker has no permit left, and the consumer receives nothing more.\<close>

theorem batch_size_one_starves:
  assumes "engine_run evs e = (Continue, e')" and "healthy e" and "e_batch_size e = 1"
    and "\<forall>(E, ev) \<in> set evs. calm ev"
  shows "granted (engine_tx e') = granted (engine_tx e)"
  using assms by (rule engine_run_window_one)

lemma ex_engine_one_turn:
  "engine_step ex_env (MessagesNext (Some (ex_inbound None))) (ex_engine 1) =
     (Continue, (ex_engine 1)
        \<lparr>e_remaining_messages := 0,
         e_tx := [Inr (MessageIdData 1 7 None None [] None None,
                       \<lparr>metadata = default_message_metadata, data = [1, 2]\<rparr>)],
         e_unacked_messages := [(MessageIdData 1 7 None None [] None None, 1010)]\<rparr>)"
  by (simp add: engine_defs ex_engine_defs proto_simps default_message_metadata_def Let_def)

theorem batch_size_one_starves_witness:
  "granted (engine_tx (snd (engine_run [(ex_env, MessagesNext (Some (ex_inbound None)))] (ex_engine 1)))) =
   granted (engine_tx (ex_engine 1))"
  by (rule batch_size_one_starves [where evs = "[(ex_env, MessagesNext (Some (ex_inbound None)))]"])
    (simp_all add: ex_engine_one_turn)

text \<open>C37: An overdrawn window is lost. If a batch arrives that counts for more messages than the engine has
  left (by at most \<open>2\<^sup>3\<^sup>1\<close>), the 32-bit counter wraps around in that turn (the arithmetic of a release build), and
  the engine then considers its window full: the next turn grants nothing.\<close>

theorem overdrawn_window_not_refilled:
  assumes "healthy e" and "e_batch_size e div 2 \<le> e_remaining_messages e"
    and "payload msg = Some p" and "num_messages_in_batch (metadata p) = Some n"
    and "close_consumer (command msg) = None"
    and "unat (e_remaining_messages e) < unat n" and "unat n \<le> unat (e_remaining_messages e) + 2 ^ 31"
    and "engine_step E (MessagesNext (Some msg)) e = (Continue, e')"
  shows "unat (e_remaining_messages e') = unat (e_remaining_messages e) + 2 ^ 32 - unat n \<and>
    engine_begin E' e' = (Inr (), e')"
proof -
  have none: "engine_begin E e = (Inr (), e)"
    using assms(1,2) by (simp add: engine_begin_def check_connection_healthy refill_def leD)
  obtain ch where ch: "listening e = Some ch"
    using assms(8) none by (cases "listening e") (auto simp: engine_step_begin wait_for_event_def)
  let ?e = "e\<lparr>e_held := None, e_messages_rx := Some ch\<rparr>"
  have "handle_inbound E msg ?e = (Continue, e')"
    using assms(8) none ch by (simp add: engine_step_begin wait_for_event_def Let_def)
  from handle_inbound_flow [OF this assms(5)]
  have u: "untouched (?e\<lparr>e_remaining_messages := e_remaining_messages e - n\<rparr>) e'"
    using assms(3,4) by (simp add: permits_used_def)
  then have rest: "e_remaining_messages e' = e_remaining_messages e - n" "e_batch_size e' = e_batch_size e"
    by (simp_all add: untouched_def)
  have "healthy e'" using u assms(1) by (simp add: untouched_def healthy_def)
  moreover have "unat (e_remaining_messages e - n) = unat (e_remaining_messages e) + 2 ^ 32 - unat n"
    using overdrawn_value [OF assms(6)] .
  moreover from this assms(6,7) have "\<not> e_remaining_messages e' < e_batch_size e' div 2"
    using half_u32 [of "e_batch_size e"] rest by (simp add: word_less_nat_alt not_less)
  ultimately show ?thesis using rest by (simp add: engine_begin_def check_connection_healthy refill_def)
qed

definition ex_big_batch :: pulsar_message where
  "ex_big_batch = (ex_inbound None)
     \<lparr>payload := Some \<lparr>metadata = default_message_metadata\<lparr>num_messages_in_batch := Some 20\<rparr>, data = []\<rparr>\<rparr>"

lemma ex_big_batch_turn:
  "engine_step ex_env (MessagesNext (Some ex_big_batch)) (ex_engine 10) =
     (Continue, snd (engine_step ex_env (MessagesNext (Some ex_big_batch)) (ex_engine 10)))"
proof -
  obtain r e1 where "process_payload ex_env (CommandMessage 2 (MessageIdData 1 7 None None [] None None) None)
      \<lparr>metadata = default_message_metadata\<lparr>num_messages_in_batch := Some 20\<rparr>, data = []\<rparr>
      ((ex_engine 10)\<lparr>e_held := None, e_messages_rx := Some 0, e_remaining_messages := - 10\<rparr>) = (r, e1)" by fastforce
  moreover from this have "e_tx_open e1" by (auto dest: process_payload_open)
  moreover have "listening (ex_engine 10) = Some 0" by (simp add: ex_engine_defs listening_def)
  moreover have "engine_begin ex_env (ex_engine 10) = (Inr (), ex_engine 10)"
    by (simp add: engine_begin_def check_connection_healthy refill_def word_less_nat_alt unat_div)
  ultimately show ?thesis
    by (simp add: engine_step_begin wait_for_event_def handle_inbound_def process_message_def ex_big_batch_def
        ex_inbound_def permits_used_def proto_simps Let_def split: sum.split)
qed

theorem overdrawn_window_not_refilled_witness:
  "unat (e_remaining_messages (snd (engine_step ex_env (MessagesNext (Some ex_big_batch)) (ex_engine 10)))) =
     unat (e_remaining_messages (ex_engine 10)) + 2 ^ 32 - unat (20 :: u32) \<and>
   engine_begin ex_env (snd (engine_step ex_env (MessagesNext (Some ex_big_batch)) (ex_engine 10))) =
     (Inr (), snd (engine_step ex_env (MessagesNext (Some ex_big_batch)) (ex_engine 10)))"
  by (rule overdrawn_window_not_refilled [OF _ _ _ _ _ _ _ ex_big_batch_turn,
        where p = "\<lparr>metadata = default_message_metadata\<lparr>num_messages_in_batch := Some 20\<rparr>, data = []\<rparr>"])
    (simp_all add: ex_big_batch_def ex_inbound_def proto_simps word_le_nat_alt unat_div)

text \<open>Batches. An uncompressed payload that holds the serialized messages of a batch is
  delivered to the consumer as exactly these messages, in their order, each under the
  identifier of the batch with its position as batch index and with its own properties, key and
  event time.\<close>

theorem batch_delivered:
  assumes "wire_format (ee_wire E)" and "\<forall>b \<in> set ms. batchable (ee_prost E) b"
    and "length ms < 2 ^ 32" and "e_tx_open e" and "compression md = None"
    and "num_messages_in_batch md = Some (of_nat (length ms))"
  shows "\<exists>e1. process_payload E m
      \<lparr>metadata = md, data = fold (serialize (ee_wire E) (ee_prost E)) ms []\<rparr> e = (Inr (), e1) \<and>
    e_tx e1 = e_tx e @ map Inr (batch_items (msg_message_id m) md 0 ms)"
proof -
  have "count_batched (ee_wire E) (ee_prost E) (length ms)
      (fold (serialize (ee_wire E) (ee_prost E)) ms []) = Inr ([], ms)"
    using wire_format.count_batched_printed [OF assms(1,2), of "[]"] by (simp add: fold_serialize)
  then have "parse_batched_message (ee_wire E) (ee_prost E) (of_nat (length ms))
      (fold (serialize (ee_wire E) (ee_prost E)) ms []) = Inr ms"
    using assms(3) by (simp add: parse_batched_message_def)
  with deliver_batch_items [OF assms(4), of 0 ms "of_nat (length ms)"] assms(3,5,6)
  show ?thesis by (simp add: process_payload_def decompress_def iterator_new_def)
qed

theorem batch_delivered_witness:
  "\<exists>e1. process_payload ex_env (CommandMessage 2 (MessageIdData 1 7 None None [] None None) None)
      \<lparr>metadata = default_message_metadata\<lparr>num_messages_in_batch := Some (of_nat (length [ex_batched [7], ex_batched [8, 9]]))\<rparr>,
       data = fold (serialize (ee_wire ex_env) (ee_prost ex_env)) [ex_batched [7], ex_batched [8, 9]] []\<rparr>
      (ex_engine 10) = (Inr (), e1) \<and>
    e_tx e1 = e_tx (ex_engine 10) @ map Inr (batch_items
      (msg_message_id (CommandMessage 2 (MessageIdData 1 7 None None [] None None) None))
      (default_message_metadata\<lparr>num_messages_in_batch := Some (of_nat (length [ex_batched [7], ex_batched [8, 9]]))\<rparr>)
      0 [ex_batched [7], ex_batched [8, 9]])"
proof (rule batch_delivered)
  show "wire_format (ee_wire ex_env)" by (simp add: ex_env_def be.wire_format_axioms)
qed (simp_all add: batchable_ex_batched ex_engine_defs default_message_metadata_def)


text \<open>A message in a batch is delivered whatever its count: the count and the policy are not looked at.\<close>

lemma batched_never_dead_lettered:
  assumes "decompress (ee_codecs E) (ee_show_i32 E) p = Inr q" and "num_messages_in_batch (metadata q) = Some n"
  shows "process_payload E (CommandMessage c i k) p e = process_payload E (CommandMessage c i k') p e"
  using assms by (simp add: process_payload_def)


text \<open>A stale channel survives a reconnection. If the timer interrupted the engine's wait and the
  connection is found broken at the next turn, the engine subscribes again with a new channel but
  resumes the interrupted wait: it goes on listening to the channel of the old subscription.\<close>

theorem interrupted_wait_keeps_old_channel:
  assumes "e_held e = Some old" and "calm ev" and "engine_step E ev e = (Continue, e')"
  shows "listening e' = Some old"
proof -
  obtain r1 e1 where c: "check_connection E e = (r1, e1)" by fastforce
  obtain r2 e2 where f: "refill E e1 = (r2, e2)" by fastforce
  have "e_held e2 = Some old"
    using assms(1) check_connection_held [OF c] refill_held [OF f] by simp
  then have "listening e2 = Some old" by (simp add: listening_def)
  moreover have "wait_for_event E ev e2 = (Continue, e')"
    using assms(3) c f by (auto simp: engine_step_def split: sum.splits)
  ultimately show ?thesis using assms(2) wait_for_event_listening [of E ev e2 Continue e' old] by simp
qed

definition ex_broken :: ConsumerEngine where
  "ex_broken =
     (ex_engine 10)
       \<lparr>e_connection := (ex_connection 1)
          \<lparr>conn_sender := set_cs_error Disconnected (connection_sender_new shared_error_new)\<rparr>,
        e_held := Some 0, e_messages_rx := None\<rparr>"

lemma ex_broken_reconnects:
  "engine_step ex_env Timer ex_broken = (Continue, snd (engine_step ex_env Timer ex_broken)) \<and>
   conn_id (e_connection (snd (engine_step ex_env Timer ex_broken))) = 9 \<and>
   e_messages_rx (snd (engine_step ex_env Timer ex_broken)) = Some 5"
  by (simp add: ex_broken_def engine_defs ex_engine_defs reconnect_def on_sender_def
      sender_subscribe_def send_message_def next_request_id_eq open_channel_def registrations_send_def
      tx_send_def send_flow_def set_cs_error_def shared_error_set_def connection_error_def
      shared_error_remove_def extract_message_def ex_success_def proto_simps
      Let_def)

theorem interrupted_wait_keeps_old_channel_witness:
  "listening (snd (engine_step ex_env Timer ex_broken)) = Some 0 \<and>
   e_messages_rx (snd (engine_step ex_env Timer ex_broken)) = Some 5"
  using interrupted_wait_keeps_old_channel [of ex_broken 0 Timer ex_env] ex_broken_reconnects
  by (simp add: ex_broken_def calm_def)

text \<open>A closed message channel is fatal. When the channel on which the messages of the broker
  arrive is closed, as it is when the connection's receiver ends, the engine panics; the code
  that would subscribe again comes after the panic and is never reached.\<close>

theorem closed_message_channel_panics:
  assumes "healthy e" and "e_remaining_messages e \<le> e_batch_size e"
  shows "fst (engine_step E (MessagesNext None) e) = Panic"
proof -
  from refill_healthy [OF assms, of E] obtain e1 where "refill E e = (Inr (), e1)" by blast
  then show ?thesis
    using assms(1)
    by (simp add: engine_step_def check_connection_healthy wait_for_event_def Let_def
        split: option.split)
qed

theorem closed_message_channel_panics_witness:
  "fst (engine_step ex_env (MessagesNext None) (ex_engine 10)) = Panic"
  by (rule closed_message_channel_panics) simp_all

lemma fold_delete_filter:
  "fold AList.delete ks xs = filter (\<lambda>(k, v). k \<notin> set ks) xs"
  by (induction ks arbitrary: xs) (auto simp: AList.delete_eq intro: filter_cong)

text \<open>C25: redelivery of unacknowledged messages. At every tick the engine asks the broker, in one
  command, for exactly the messages whose delay has passed, and keeps track of exactly the
  others; if there are none it sends nothing.\<close>

theorem redelivery_exact:
  assumes "healthy e" and "distinct (map fst (e_unacked_messages e))"
  shows "e_unacked_messages (unacked_redelivery now e) =
      filter (\<lambda>(i, t). now \<le> t) (e_unacked_messages e) \<and>
    engine_tx (unacked_redelivery now e) = engine_tx e @
      (let ids = map fst (filter (\<lambda>(i, t). t < now) (e_unacked_messages e)) in
       if ids = [] then [] else [messages_redeliver_unacknowleged_messages (e_id e) ids])"
proof -
  let ?xs = "e_unacked_messages e"
  let ?ids = "map fst (filter (\<lambda>(i, t). t < now) ?xs)"
  have expired: "k \<notin> set ?ids \<longleftrightarrow> now \<le> t" if "(k, t) \<in> set ?xs" for k t
    using that assms(2) by (force dest: eq_key_imp_eq_value simp: not_less)
  have "filter (\<lambda>(k, v). k \<notin> set ?ids) ?xs = filter (\<lambda>(i, t). now \<le> t) ?xs"
    using expired by (intro filter_cong) blast+
  moreover have "?ids = [] \<Longrightarrow> filter (\<lambda>(i, t). now \<le> t) ?xs = ?xs"
    by (auto simp: filter_empty_conv not_less intro!: filter_True)
  ultimately show ?thesis
    using assms(1)
    by (simp add: unacked_redelivery_def Let_def on_sender_healthy fold_delete_filter engine_tx_def
        del: map_is_Nil_conv)
qed

theorem redelivery_exact_witness:
  "e_unacked_messages (unacked_redelivery 20 ((ex_engine 10)\<lparr>e_unacked_messages :=
      [(MessageIdData 1 7 None None [] None None, 15), (MessageIdData 1 8 None None [] None None, 30)]\<rparr>)) =
    filter (\<lambda>(i, t). 20 \<le> t) (e_unacked_messages ((ex_engine 10)\<lparr>e_unacked_messages :=
      [(MessageIdData 1 7 None None [] None None, 15), (MessageIdData 1 8 None None [] None None, 30)]\<rparr>)) \<and>
   engine_tx (unacked_redelivery 20 ((ex_engine 10)\<lparr>e_unacked_messages :=
      [(MessageIdData 1 7 None None [] None None, 15), (MessageIdData 1 8 None None [] None None, 30)]\<rparr>)) =
    engine_tx ((ex_engine 10)\<lparr>e_unacked_messages :=
      [(MessageIdData 1 7 None None [] None None, 15), (MessageIdData 1 8 None None [] None None, 30)]\<rparr>) @
    (let ids = map fst (filter (\<lambda>(i, t). t < 20) (e_unacked_messages ((ex_engine 10)\<lparr>e_unacked_messages :=
      [(MessageIdData 1 7 None None [] None None, 15), (MessageIdData 1 8 None None [] None None, 30)]\<rparr>))) in
     if ids = [] then []
     else [messages_redeliver_unacknowleged_messages (e_id ((ex_engine 10)\<lparr>e_unacked_messages :=
      [(MessageIdData 1 7 None None [] None None, 15), (MessageIdData 1 8 None None [] None None, 30)]\<rparr>)) ids])"
  by (rule redelivery_exact) (simp_all add: healthy_def is_valid_def shared_error_is_set_def ex_engine_defs)

section \<open>Permits and reconnection\<close>

text \<open>What a successful subscription leaves on the connection: a message that grants nothing.\<close>

lemma sender_subscribe_grants:
  assumes "sender_subscribe dbg ch topic sub st i name options w s = (Inr r, s')"
  shows "granted (cs_tx s') = granted (cs_tx s) \<and> cs_tx_open s'"
  using assms
  by (auto simp: sender_subscribe_def next_request_id_eq registrations_send_def send_message_def
      open_channel_def tx_send_def granted_def proto_simps Let_def split: if_splits awaited.splits)

lemma reconnect_grants:
  assumes "reconnect dbg R e = (Inr (), e')" and "rc_lookup R = Inr a" and "rc_connection R a = Inr conn"
  shows "granted (engine_tx e') = granted (cs_tx (conn_sender conn)) + unat (e_batch_size e) \<and>
    cs_tx_open (conn_sender (e_connection e')) \<and> e_remaining_messages e' = e_remaining_messages e \<and>
    e_batch_size e' = e_batch_size e"
proof -
  obtain r s1 where s1: "sender_subscribe dbg (rc_channel R) (e_topic e) (e_subscription e) (e_sub_type e)
      (e_id e) (e_name e) (e_options e) (rc_response R) (conn_sender conn) = (r, s1)" by fastforce
  with assms obtain x where r: "r = Inr x"
    by (cases r) (auto simp: reconnect_def on_sender_def)
  obtain q s2 where s2: "send_flow (e_id e) (e_batch_size e) s1 = (q, s2)" by fastforce
  with assms s1 r have q: "q = Inr ()" by (cases q) (auto simp: reconnect_def on_sender_def)
  have s2': "s2 = s1\<lparr>cs_tx := cs_tx s1 @ [messages_flow (e_id e) (e_batch_size e)]\<rparr>"
    using s2 q by (auto simp: send_flow_def tx_send_def split: if_splits)
  show ?thesis
    using assms s1 s2 r q sender_subscribe_grants [of dbg] s2'
    by (fastforce simp: reconnect_def on_sender_def engine_tx_def)
qed

text \<open>C34: A reconnection overdraws the window. It grants the whole batch size on the new connection but
  leaves the engine's count of remaining messages as it was; if that is below half of the window, the
  same turn grants the difference again. The broker then has more permits than the window the
  engine counts with.\<close>

theorem reconnection_grants_beyond_window:
  assumes "connection_error (e_connection e) = (Some err, c)" and "\<not> is_valid (e_connection e)"
    and "rc_lookup (ee_rc_check E) = Inr a" and "rc_connection (ee_rc_check E) a = Inr conn"
    and "granted (cs_tx (conn_sender conn)) = 0"
    and "check_connection E e = (Inr (), e1)" and "e_remaining_messages e < e_batch_size e div 2"
  shows "\<exists>e'. refill E e1 = (Inr (), e') \<and> e_remaining_messages e' = e_batch_size e \<and>
    granted (engine_tx e') + unat (e_remaining_messages e) = 2 * unat (e_batch_size e) \<and>
    unat (e_remaining_messages e') < granted (engine_tx e')"
proof -
  have rc: "reconnect (ee_dbg E) (ee_rc_check E) (e\<lparr>e_connection := c\<rparr>) = (Inr (), e1)"
    using assms(1,2,6) by (simp add: check_connection_def)
  from reconnect_grants [OF rc assms(3,4)] assms(5)
  have e1: "granted (engine_tx e1) = unat (e_batch_size e)" "cs_tx_open (conn_sender (e_connection e1))"
      "e_remaining_messages e1 = e_remaining_messages e" "e_batch_size e1 = e_batch_size e"
    by simp_all
  let ?e' = "snd (on_sender (send_flow (e_id e1) (e_batch_size e1 - e_remaining_messages e1)) e1)
    \<lparr>e_remaining_messages := e_batch_size e\<rparr>"
  have lt: "unat (e_remaining_messages e) < unat (e_batch_size e)"
    using assms(7) by (simp add: word_less_nat_alt unat_div)
  then have d: "unat (e_batch_size e - e_remaining_messages e) =
      unat (e_batch_size e) - unat (e_remaining_messages e)"
    by (intro unat_sub) (simp add: word_le_nat_alt)
  have "refill E e1 = (Inr (), ?e')"
    using assms(7) e1 by (simp add: refill_def on_sender_def send_flow_def tx_send_def)
  moreover have "granted (engine_tx ?e') = unat (e_batch_size e) + unat (e_batch_size e - e_remaining_messages e)"
    using e1 by (simp add: on_sender_def send_flow_def tx_send_def engine_tx_def)
  ultimately show ?thesis using lt d by auto
qed

theorem reconnection_grants_beyond_window_witness:
  "\<exists>e1 e'. check_connection ex_env (ex_broken\<lparr>e_remaining_messages := 4\<rparr>) = (Inr (), e1) \<and>
    refill ex_env e1 = (Inr (), e') \<and> e_remaining_messages e' = 10 \<and>
    granted (engine_tx e') + unat (4 :: u32) = 2 * unat (10 :: u32) \<and>
    unat (e_remaining_messages e') < granted (engine_tx e')"
proof -
  let ?e = "ex_broken\<lparr>e_remaining_messages := 4\<rparr>"
  have e: "e_batch_size ?e = 10" "e_remaining_messages ?e = 4" by (simp_all add: ex_broken_def)
  have "\<exists>e1. check_connection ex_env ?e = (Inr (), e1)"
    by (simp add: ex_broken_def engine_defs ex_engine_defs reconnect_def on_sender_def
        sender_subscribe_def send_message_def next_request_id_eq open_channel_def registrations_send_def
        tx_send_def send_flow_def set_cs_error_def shared_error_set_def connection_error_def
        shared_error_remove_def extract_message_def ex_success_def proto_simps Let_def)
  then obtain e1 where e1: "check_connection ex_env ?e = (Inr (), e1)" by blast
  have "\<exists>err c. connection_error (e_connection ?e) = (Some err, c)" "\<not> is_valid (e_connection ?e)"
    by (simp_all add: ex_broken_def connection_error_def shared_error_remove_def set_cs_error_def
        shared_error_set_def is_valid_def shared_error_is_set_def)
  moreover have "rc_lookup (ee_rc_check ex_env) =
      Inr \<lparr>broker_address_url = ex_url, broker_url = ''broker'', broker_proxy = False\<rparr>"
    "\<And>a. rc_connection (ee_rc_check ex_env) a = Inr (ex_connection 9)"
    "granted (cs_tx (conn_sender (ex_connection 9))) = 0"
    by (simp_all add: ex_env_def ex_reconnect_def ex_connection_def connection_sender_new_def)
  moreover have "e_remaining_messages ?e < e_batch_size ?e div 2"
    unfolding e by (simp add: word_less_nat_alt unat_div)
  ultimately show ?thesis
    using reconnection_grants_beyond_window [of ?e _ _ ex_env] e1 e by metis
qed

text \<open>Every message of the broker is counted as a received one. A notice that another consumer became the
  active one, for which the broker uses no permit, lowers the count of the engine by one.\<close>

lemma notice_counted_as_message:
  assumes "healthy e" and "listening e \<noteq> None" and "e_batch_size e div 2 \<le> e_remaining_messages e"
    and "active_consumer_change (command m) \<noteq> None" and "reached_end_of_topic (command m) = None"
    and "payload m = None"
  shows "\<exists>e'. engine_step E (MessagesNext (Some m)) e = (Continue, e') \<and>
    e_remaining_messages e' = e_remaining_messages e - 1 \<and> e_tx e' = e_tx e \<and> engine_tx e' = engine_tx e"
  using assms
  by (auto simp: engine_step_def check_connection_healthy refill_def wait_for_event_def handle_inbound_def
      process_message_def permits_used_def engine_tx_def Let_def not_less)

end
