(* ===== verification/Manager.thy ===== *)
theory Manager
  imports Retry
begin

text \<open>
  \<open>ConnectionManager\<close> of \<open>src/connection_manager.rs\<close>: the pool of connections, one per broker
  address. The table is shared by all tasks of the client and locked only for short sections;
  each section is one definition here, and \<open>manager_step\<close> interleaves the sections of any number
  of tasks. A task that waits for another one's connection is named by its one-shot channel; the
  channels the manager has completed are in \<open>mgr_notified\<close>.

  Opening a connection is \<open>connection_new\<close> of the theory \<open>Connection\<close>, with one network
  behaviour and one random number per attempt. Durations are in milliseconds.
\<close>

section \<open>Options\<close>

record ConnectionRetryOptions =
  min_backoff :: nat
  max_backoff :: nat
  conn_max_retries :: u32
  connection_timeout :: nat
  keep_alive :: nat

definition connection_retry_options_default :: ConnectionRetryOptions where
  "connection_retry_options_default =
     \<lparr>min_backoff = 10, max_backoff = 30000, conn_max_retries = 12, connection_timeout = 10000,
      keep_alive = 60000\<rparr>"

record TlsOptions =
  tls_certificate_chain :: "bytes option"
  allow_insecure_connection :: bool
  tls_hostname_verification_enabled :: bool

definition tls_options_default :: TlsOptions where
  "tls_options_default =
     \<lparr>tls_certificate_chain = None, allow_insecure_connection = False,
      tls_hostname_verification_enabled = True\<rparr>"

section \<open>State\<close>

datatype ConnectionStatus =
    Connected Connection
  | Connecting "nat list"

record ConnectionManager =
  mgr_url :: url
  mgr_auth :: "auth_provider option"
  mgr_kind :: executor_kind
  mgr_connections :: "BrokerAddress \<rightharpoonup> ConnectionStatus"
  mgr_retry :: ConnectionRetryOptions
  mgr_operation_retry :: OperationRetryOptions
  mgr_tls :: TlsOptions
  mgr_certificates :: "bytes list"
  mgr_notified :: "(nat \<times> (connection_error, Connection) res) list"

text \<open>Brokers are named by host and port; the port is 6650 if the URL has none.\<close>

definition host_port :: "url \<Rightarrow> u16 \<Rightarrow> string option" where
  "host_port u d =
     map_option (\<lambda>h. h @ '':'' @ show_nat (unat (case url_port u of None \<Rightarrow> d | Some p \<Rightarrow> p)))
       (url_host u)"

text \<open>The manager is only built for URLs with a host, so that \<open>host_str().unwrap()\<close> is defined.\<close>

definition get_base_address :: "ConnectionManager \<Rightarrow> BrokerAddress" where
  "get_base_address M =
     \<lparr>broker_address_url = mgr_url M, broker_url = the (host_port (mgr_url M) 6650),
      broker_proxy = False\<rparr>"

section \<open>Sections under the lock\<close>

datatype lookup_result = Found Connection | Open | Wait nat

text \<open>The first section of \<open>get_connection\<close>; \<open>ch\<close> is the channel it opens if it has to wait.\<close>

definition get_connection_check ::
  "BrokerAddress \<Rightarrow> nat \<Rightarrow> ConnectionManager \<Rightarrow> lookup_result \<times> ConnectionManager" where
  "get_connection_check broker ch M =
     (case mgr_connections M broker of
        None \<Rightarrow> (Open, M)
      | Some (Connected conn) \<Rightarrow> (if is_valid conn then Found conn else Open, M)
      | Some (Connecting v) \<Rightarrow>
          (Wait ch, M\<lparr>mgr_connections :=
             (mgr_connections M)(broker \<mapsto> Connecting (v @ [ch]))\<rparr>))"

text \<open>The section at the start of \<open>connect_inner\<close>: whether to wait for a task that is already
  connecting, which it recognises by the tasks that wait for it.\<close>

definition connect_inner_enter ::
  "BrokerAddress \<Rightarrow> nat \<Rightarrow> ConnectionManager \<Rightarrow> lookup_result \<times> ConnectionManager" where
  "connect_inner_enter broker ch M =
     (let conns = (case mgr_connections M broker of
                     None \<Rightarrow> (mgr_connections M)(broker \<mapsto> Connecting [])
                   | Some _ \<Rightarrow> mgr_connections M)
      in
      case conns broker of
        Some (Connecting v) \<Rightarrow>
          (if v = [] then (Open, M\<lparr>mgr_connections := conns\<rparr>)
           else (Wait ch, M\<lparr>mgr_connections := conns(broker \<mapsto> Connecting (v @ [ch]))\<rparr>))
      | _ \<Rightarrow> (Open, M\<lparr>mgr_connections := conns\<rparr>))"

definition notify ::
  "nat list \<Rightarrow> (connection_error, Connection) res \<Rightarrow> ConnectionManager \<Rightarrow> ConnectionManager" where
  "notify chs r M = M\<lparr>mgr_notified := mgr_notified M @ map (\<lambda>ch. (ch, r)) chs\<rparr>"

definition connect_failed :: "BrokerAddress \<Rightarrow> ConnectionManager \<Rightarrow> ConnectionManager" where
  "connect_failed broker M =
     (let M' = M\<lparr>mgr_connections := (mgr_connections M)(broker := None)\<rparr> in
      case mgr_connections M broker of
        Some (Connecting v) \<Rightarrow> notify v (Inl Canceled) M'
      | _ \<Rightarrow> M')"

definition connect_succeeded ::
  "BrokerAddress \<Rightarrow> Connection \<Rightarrow> ConnectionManager \<Rightarrow> ConnectionManager" where
  "connect_succeeded broker c M =
     (let M' = M\<lparr>mgr_connections := (mgr_connections M)(broker \<mapsto> Connected c)\<rparr> in
      case mgr_connections M broker of
        Some (Connecting v) \<Rightarrow> notify v (Inr c) M'
      | _ \<Rightarrow> M')"

text \<open>\<open>strong\<close> counts the references to a connection, the manager's own included.\<close>

definition check_connections :: "(Connection \<Rightarrow> nat) \<Rightarrow> ConnectionManager \<Rightarrow> ConnectionManager" where
  "check_connections strong M =
     M\<lparr>mgr_connections := (\<lambda>b. case mgr_connections M b of
          Some (Connected conn) \<Rightarrow>
            (if is_valid conn \<and> 1 < strong conn then Some (Connected conn) else None)
        | s \<Rightarrow> s)\<rparr>"

section \<open>Opening a connection\<close>

text \<open>\<open>2u32.saturating_pow\<close> and the delay before the next attempt.\<close>

definition saturating_pow2 :: "nat \<Rightarrow> nat" where
  "saturating_pow2 r = min (2 ^ r) (2 ^ 32 - 1)"

definition backoff :: "ConnectionRetryOptions \<Rightarrow> u32 \<Rightarrow> nat \<Rightarrow> nat" where
  "backoff R retries jitter =
     min (min_backoff R * saturating_pow2 (unat retries)) (max_backoff R) + min_backoff R * jitter"

text \<open>
  The loop of \<open>connect_inner\<close>: each attempt comes with the behaviour of the network and the
  random jitter that follows it. The result is \<open>None\<close> while attempts are still to come; the
  list are the delays between the attempts.
\<close>

fun connect_loop ::
  "ConnectionRetryOptions \<Rightarrow> ('a \<Rightarrow> (connection_error, Connection) res) \<Rightarrow> ('a \<times> nat) list \<Rightarrow> u32
     \<Rightarrow> (connection_error, Connection) res option \<times> nat list" where
  "connect_loop R attempt [] current_retries = (None, [])"
| "connect_loop R attempt ((N, jitter) # Ns) current_retries =
     (case attempt N of
        Inr c \<Rightarrow> (Some (Inr c), [])
      | Inl (Io e) \<Rightarrow>
          (if io_kind e \<noteq> ConnectionRefused \<and> io_kind e \<noteq> TimedOut then (Some (Inl (Io e)), [])
           else if current_retries = conn_max_retries R then (Some (Inl (Io e)), [])
           else
             (case connect_loop R attempt Ns (current_retries + 1) of
                (r, ds) \<Rightarrow> (r, backoff R current_retries jitter # ds)))
      | Inl e \<Rightarrow> (Some (Inl e), []))"

definition open_attempt ::
  "(base_command \<Rightarrow> string) \<Rightarrow> ConnectionManager \<Rightarrow> BrokerAddress \<Rightarrow> net
     \<Rightarrow> (connection_error, Connection) res" where
  "open_attempt dbg M broker N =
     connection_new dbg N (mgr_kind M) (broker_address_url broker) (mgr_auth M)
       (if broker_proxy broker then Some (broker_url broker) else None) (mgr_certificates M)
       (allow_insecure_connection (mgr_tls M)) (tls_hostname_verification_enabled (mgr_tls M))"

definition connect_open ::
  "(base_command \<Rightarrow> string) \<Rightarrow> ConnectionManager \<Rightarrow> BrokerAddress \<Rightarrow> (net \<times> nat) list
     \<Rightarrow> (connection_error, Connection) res option \<times> nat list" where
  "connect_open dbg M broker Ns = connect_loop (mgr_retry M) (open_attempt dbg M broker) Ns 0"

text \<open>
  \<open>connect\<close> and \<open>get_connection\<close> as one task sees them when it runs alone: \<open>spawned\<close> is whether
  the executor takes the heartbeat task, \<open>waited\<close> what a wait for another task would give.
\<close>

definition connect_finish ::
  "BrokerAddress \<Rightarrow> bool \<Rightarrow> (connection_error, Connection) res \<Rightarrow> ConnectionManager
     \<Rightarrow> (connection_error, Connection) res \<times> ConnectionManager" where
  "connect_finish broker spawned r M =
     (case r of
        Inl e \<Rightarrow> (Inl e, connect_failed broker M)
      | Inr c \<Rightarrow>
          (if spawned then (Inr c, connect_succeeded broker c M) else (Inl Shutdown, M)))"

definition manager_connect ::
  "(base_command \<Rightarrow> string) \<Rightarrow> BrokerAddress \<Rightarrow> nat \<Rightarrow> (net \<times> nat) list \<Rightarrow> bool
     \<Rightarrow> (connection_error, Connection) res option \<Rightarrow> ConnectionManager
     \<Rightarrow> (connection_error, Connection) res option \<times> ConnectionManager" where
  "manager_connect dbg broker ch Ns spawned waited M =
     (case connect_inner_enter broker ch M of (w, M) \<Rightarrow>
        (case (case w of Wait _ \<Rightarrow> waited | _ \<Rightarrow> fst (connect_open dbg M broker Ns)) of
           None \<Rightarrow> (None, M)
         | Some r \<Rightarrow> (case connect_finish broker spawned r M of (r, M) \<Rightarrow> (Some r, M))))"

definition get_connection ::
  "(base_command \<Rightarrow> string) \<Rightarrow> BrokerAddress \<Rightarrow> nat \<Rightarrow> (net \<times> nat) list \<Rightarrow> bool
     \<Rightarrow> (connection_error, Connection) res option \<Rightarrow> ConnectionManager
     \<Rightarrow> (connection_error, Connection) res option \<times> ConnectionManager" where
  "get_connection dbg broker ch Ns spawned waited M =
     (case get_connection_check broker ch M of
        (Found c, M) \<Rightarrow> (Some (Inr c), M)
      | (Open, M) \<Rightarrow> manager_connect dbg broker ch Ns spawned waited M
      | (Wait _, M) \<Rightarrow> (waited, M))"

definition get_base_connection ::
  "(base_command \<Rightarrow> string) \<Rightarrow> nat \<Rightarrow> (net \<times> nat) list \<Rightarrow> bool
     \<Rightarrow> (connection_error, Connection) res option \<Rightarrow> ConnectionManager
     \<Rightarrow> (connection_error, Connection) res option \<times> ConnectionManager" where
  "get_base_connection dbg ch Ns spawned waited M =
     get_connection dbg (get_base_address M) ch Ns spawned waited M"

text \<open>
  \<open>ConnectionManager::new\<close>: \<open>parse_url\<close>, \<open>parse_pem\<close> and \<open>from_der\<close> are the libraries that read
  URLs and certificates; \<open>initialized\<close> is what the authentication provider answers.
\<close>

definition load_certificates ::
  "(bytes \<Rightarrow> (string, bytes list) res) \<Rightarrow> (bytes \<Rightarrow> (string, bytes) res) \<Rightarrow> bytes option
     \<Rightarrow> (connection_error, bytes list) res" where
  "load_certificates parse_pem from_der chain =
     (case chain of
        None \<Rightarrow> Inr []
      | Some pem \<Rightarrow>
          bind_res (map_err (\<lambda>e. Io (IoError OtherKind e)) (parse_pem pem)) (\<lambda>certs.
            fold (\<lambda>cert acc. bind_res acc (\<lambda>v.
                    bind_res (map_err (\<lambda>e. Io (IoError OtherKind e)) (from_der cert)) (\<lambda>c.
                      Inr (v @ [c])))) (rev certs) (Inr [])))"

definition manager_new ::
  "(base_command \<Rightarrow> string) \<Rightarrow> (string \<Rightarrow> url option) \<Rightarrow> (bytes \<Rightarrow> (string, bytes list) res)
     \<Rightarrow> (bytes \<Rightarrow> (string, bytes) res) \<Rightarrow> string \<Rightarrow> auth_provider option
     \<Rightarrow> (authentication_error, unit) res \<Rightarrow> ConnectionRetryOptions option \<Rightarrow> OperationRetryOptions
     \<Rightarrow> TlsOptions option \<Rightarrow> executor_kind \<Rightarrow> (net \<times> nat) list \<Rightarrow> bool
     \<Rightarrow> (connection_error, ConnectionManager) res option" where
  "manager_new dbg parse_url parse_pem from_der u auth initialized retry operation_retry tls kind Ns
       spawned =
     (let retry = (case retry of None \<Rightarrow> connection_retry_options_default | Some r \<Rightarrow> r);
          tls = (case tls of None \<Rightarrow> tls_options_default | Some t \<Rightarrow> t) in
      case parse_url u of
        None \<Rightarrow> Some (Inl NotFound)
      | Some url \<Rightarrow>
          (if url_host url = None then Some (Inl NotFound)
           else
             case load_certificates parse_pem from_der (tls_certificate_chain tls) of
               Inl e \<Rightarrow> Some (Inl e)
             | Inr certs \<Rightarrow>
                 (case (if auth = None then Inr () else map_err connection_error_from_auth initialized) of
                    Inl e \<Rightarrow> Some (Inl e)
                  | Inr _ \<Rightarrow>
                      (let M = \<lparr>mgr_url = url, mgr_auth = auth, mgr_kind = kind,
                                mgr_connections = Map.empty, mgr_retry = retry,
                                mgr_operation_retry = operation_retry, mgr_tls = tls,
                                mgr_certificates = certs, mgr_notified = []\<rparr> in
                       case manager_connect dbg (get_base_address M) 0 Ns spawned None M of
                         (None, M) \<Rightarrow> None
                       | (Some (Inl e), M) \<Rightarrow> Some (Inl e)
                       | (Some (Inr _), M) \<Rightarrow> Some (Inr M)))))"

section \<open>Concurrent tasks\<close>

text \<open>Where a call of \<open>get_connection\<close> is.\<close>

datatype task =
    Checking BrokerAddress
  | Entering BrokerAddress
  | Opening BrokerAddress
  | Opened BrokerAddress Connection
  | WaitingOuter BrokerAddress nat
  | WaitingInner BrokerAddress nat
  | Finished BrokerAddress "(connection_error, Connection) res"

text \<open>\<open>sys_abandoned\<close> records the brokers to which a call was opening a connection when it was dropped or
  could not spawn its task, and whose entry nobody has replaced or removed since.\<close>

record manager_system =
  sys_tasks :: "nat \<rightharpoonup> task"
  sys_next :: nat
  sys_manager :: ConnectionManager
  sys_abandoned :: "BrokerAddress set"

definition abandons :: "task \<Rightarrow> BrokerAddress set" where
  "abandons x = (case x of Opening b \<Rightarrow> {b} | Opened b c \<Rightarrow> {b} | _ \<Rightarrow> {})"

text \<open>
  The steps of the tasks that share the manager. The argument says whether the executor can still
  spawn tasks. A connection of the pool may break at any time: its shared error is set. A call may be
  dropped wherever it is, as the crate itself does: \<open>try_join_all\<close> in \<open>src/producer.rs\<close> and
  \<open>src/service_discovery.rs\<close> drops the other futures when one fails, and \<open>update_topics\<close> in \<open>src/consumer.rs\<close> the
  pending discovery. Nothing cleans up after a dropped call.
\<close>

inductive manager_step :: "bool \<Rightarrow> manager_system \<Rightarrow> manager_system \<Rightarrow> bool" for spawns :: bool where
  call: "sys_tasks s t = None \<Longrightarrow>
    manager_step spawns s (s\<lparr>sys_tasks := (sys_tasks s)(t \<mapsto> Checking b)\<rparr>)"
| check_found: "sys_tasks s t = Some (Checking b) \<Longrightarrow>
    get_connection_check b (sys_next s) (sys_manager s) = (Found c, M) \<Longrightarrow>
    manager_step spawns s (s\<lparr>sys_tasks := (sys_tasks s)(t \<mapsto> Finished b (Inr c)), sys_manager := M\<rparr>)"
| check_open: "sys_tasks s t = Some (Checking b) \<Longrightarrow>
    get_connection_check b (sys_next s) (sys_manager s) = (Open, M) \<Longrightarrow>
    manager_step spawns s (s\<lparr>sys_tasks := (sys_tasks s)(t \<mapsto> Entering b), sys_manager := M\<rparr>)"
| check_wait: "sys_tasks s t = Some (Checking b) \<Longrightarrow>
    get_connection_check b (sys_next s) (sys_manager s) = (Wait ch, M) \<Longrightarrow>
    manager_step spawns s (s\<lparr>sys_tasks := (sys_tasks s)(t \<mapsto> WaitingOuter b ch),
      sys_next := Suc (sys_next s), sys_manager := M\<rparr>)"
| enter_open: "sys_tasks s t = Some (Entering b) \<Longrightarrow>
    connect_inner_enter b (sys_next s) (sys_manager s) = (Open, M) \<Longrightarrow>
    manager_step spawns s (s\<lparr>sys_tasks := (sys_tasks s)(t \<mapsto> Opening b), sys_manager := M\<rparr>)"
| enter_wait: "sys_tasks s t = Some (Entering b) \<Longrightarrow>
    connect_inner_enter b (sys_next s) (sys_manager s) = (Wait ch, M) \<Longrightarrow>
    manager_step spawns s (s\<lparr>sys_tasks := (sys_tasks s)(t \<mapsto> WaitingInner b ch),
      sys_next := Suc (sys_next s), sys_manager := M\<rparr>)"
| open_ok: "sys_tasks s t = Some (Opening b) \<Longrightarrow>
    fst (connect_open dbg (sys_manager s) b Ns) = Some (Inr c) \<Longrightarrow>
    manager_step spawns s (s\<lparr>sys_tasks := (sys_tasks s)(t \<mapsto> Opened b c)\<rparr>)"
| open_err: "sys_tasks s t = Some (Opening b) \<Longrightarrow>
    fst (connect_open dbg (sys_manager s) b Ns) = Some (Inl e) \<Longrightarrow>
    manager_step spawns s (s\<lparr>sys_tasks := (sys_tasks s)(t \<mapsto> Finished b (Inl e)),
      sys_manager := connect_failed b (sys_manager s), sys_abandoned := sys_abandoned s - {b}\<rparr>)"
| publish: "sys_tasks s t = Some (Opened b c) \<Longrightarrow>
    manager_step spawns s (s\<lparr>sys_tasks := (sys_tasks s)(t \<mapsto> Finished b (Inr c)),
      sys_manager := connect_succeeded b c (sys_manager s), sys_abandoned := sys_abandoned s - {b}\<rparr>)"
| spawn_failed: "\<not> spawns \<Longrightarrow> sys_tasks s t = Some (Opened b c) \<Longrightarrow>
    manager_step spawns s (s\<lparr>sys_tasks := (sys_tasks s)(t \<mapsto> Finished b (Inl Shutdown)),
      sys_abandoned := insert b (sys_abandoned s)\<rparr>)"
| dropped_call: "sys_tasks s t = Some x \<Longrightarrow>
    manager_step spawns s (s\<lparr>sys_tasks := (sys_tasks s)(t := None),
      sys_abandoned := abandons x \<union> sys_abandoned s\<rparr>)"
| outer_done: "sys_tasks s t = Some (WaitingOuter b ch) \<Longrightarrow>
    (ch, r) \<in> set (mgr_notified (sys_manager s)) \<Longrightarrow>
    manager_step spawns s (s\<lparr>sys_tasks := (sys_tasks s)(t \<mapsto> Finished b r)\<rparr>)"
| inner_ok: "sys_tasks s t = Some (WaitingInner b ch) \<Longrightarrow>
    (ch, Inr c) \<in> set (mgr_notified (sys_manager s)) \<Longrightarrow>
    manager_step spawns s (s\<lparr>sys_tasks := (sys_tasks s)(t \<mapsto> Opened b c)\<rparr>)"
| inner_err: "sys_tasks s t = Some (WaitingInner b ch) \<Longrightarrow>
    (ch, Inl e) \<in> set (mgr_notified (sys_manager s)) \<Longrightarrow>
    manager_step spawns s (s\<lparr>sys_tasks := (sys_tasks s)(t \<mapsto> Finished b (Inl e)),
      sys_manager := connect_failed b (sys_manager s), sys_abandoned := sys_abandoned s - {b}\<rparr>)"
| breaks: "mgr_connections (sys_manager s) b = Some (Connected c) \<Longrightarrow>
    manager_step spawns s (s\<lparr>sys_manager := (sys_manager s)\<lparr>mgr_connections :=
      (mgr_connections (sys_manager s))(b \<mapsto>
        Connected (c\<lparr>conn_sender := set_cs_error e (conn_sender c)\<rparr>))\<rparr>\<rparr>)"
| clean: "manager_step spawns s
    (s\<lparr>sys_manager := check_connections strong (sys_manager s)\<rparr>)"

inductive_cases manager_stepE: "manager_step spawns s s'"

text \<open>The system starts with a pool that is empty or holds the connection \<open>new\<close> opened.\<close>

definition manager_start :: "manager_system \<Rightarrow> bool" where
  "manager_start s \<longleftrightarrow>
     sys_tasks s = Map.empty \<and> sys_next s = 0 \<and> sys_abandoned s = {} \<and> mgr_notified (sys_manager s) = [] \<and>
     (\<forall>b st. mgr_connections (sys_manager s) b = Some st \<longrightarrow>
        (\<exists>c. st = Connected c \<and> conn_url c = broker_address_url b))"

section \<open>Lemmas on the sections\<close>

definition waiters :: "ConnectionManager \<Rightarrow> BrokerAddress \<Rightarrow> nat list" where
  "waiters M b = (case mgr_connections M b of Some (Connecting v) \<Rightarrow> v | _ \<Rightarrow> [])"

lemma connect_failed_simps [simp]:
  "mgr_connections (connect_failed b M) = (mgr_connections M)(b := None)"
  "mgr_notified (connect_failed b M) = mgr_notified M @ map (\<lambda>ch. (ch, Inl Canceled)) (waiters M b)"
  by (simp_all add: connect_failed_def notify_def waiters_def Let_def
      split: option.split ConnectionStatus.split)

lemma connect_succeeded_simps [simp]:
  "mgr_connections (connect_succeeded b c M) = (mgr_connections M)(b \<mapsto> Connected c)"
  "mgr_notified (connect_succeeded b c M) = mgr_notified M @ map (\<lambda>ch. (ch, Inr c)) (waiters M b)"
  by (simp_all add: connect_succeeded_def notify_def waiters_def Let_def
      split: option.split ConnectionStatus.split)

lemma get_connection_check_iff:
  "get_connection_check b ch M = (Found c, M') \<longleftrightarrow>
     M' = M \<and> mgr_connections M b = Some (Connected c) \<and> is_valid c"
  "get_connection_check b ch M = (Open, M') \<longleftrightarrow>
     M' = M \<and> (\<forall>v. mgr_connections M b \<noteq> Some (Connecting v)) \<and>
     (\<forall>c. mgr_connections M b = Some (Connected c) \<longrightarrow> \<not> is_valid c)"
  "get_connection_check b ch M = (Wait ch', M') \<longleftrightarrow>
     (\<exists>v. mgr_connections M b = Some (Connecting v) \<and> ch' = ch \<and>
        M' = M\<lparr>mgr_connections := (mgr_connections M)(b \<mapsto> Connecting (v @ [ch]))\<rparr>)"
  by (auto simp: get_connection_check_def split: option.splits ConnectionStatus.splits if_splits)

lemma connect_inner_enter_iff:
  "connect_inner_enter b ch M = (Open, M') \<longleftrightarrow>
     (\<exists>c. mgr_connections M b = Some (Connected c) \<and> M' = M) \<or>
     (mgr_connections M b = Some (Connecting []) \<and> M' = M) \<or>
     (mgr_connections M b = None \<and>
        M' = M\<lparr>mgr_connections := (mgr_connections M)(b \<mapsto> Connecting [])\<rparr>)"
  "connect_inner_enter b ch M = (Wait ch', M') \<longleftrightarrow>
     (\<exists>v. mgr_connections M b = Some (Connecting v) \<and> v \<noteq> [] \<and> ch' = ch \<and>
        M' = M\<lparr>mgr_connections := (mgr_connections M)(b \<mapsto> Connecting (v @ [ch]))\<rparr>)"
  by (auto simp: connect_inner_enter_def Let_def split: option.splits ConnectionStatus.splits if_splits)

lemma check_connections_simps [simp]:
  "mgr_connections (check_connections strong M) b = Some (Connecting v) \<longleftrightarrow>
     mgr_connections M b = Some (Connecting v)"
  "mgr_notified (check_connections strong M) = mgr_notified M"
  "mgr_connections (check_connections strong M) b = Some (Connected c) \<longleftrightarrow>
     mgr_connections M b = Some (Connected c) \<and> is_valid c \<and> 1 < strong c"
  by (auto simp: check_connections_def split: option.splits ConnectionStatus.splits)

section \<open>Somebody opens what others wait for\<close>

definition active :: "BrokerAddress \<Rightarrow> task \<Rightarrow> bool" where
  "active b x = (case x of Opening b' \<Rightarrow> b' = b | Opened b' c \<Rightarrow> b' = b | _ \<Rightarrow> False)"

definition opener :: "(nat \<rightharpoonup> task) \<Rightarrow> BrokerAddress \<Rightarrow> bool" where
  "opener T b \<longleftrightarrow> (\<exists>t x. T t = Some x \<and> active b x)"

definition opener_inv :: "manager_system \<Rightarrow> bool" where
  "opener_inv s \<longleftrightarrow>
     (\<forall>b v. mgr_connections (sys_manager s) b = Some (Connecting v) \<longrightarrow>
        opener (sys_tasks s) b \<or> b \<in> sys_abandoned s)"

lemma opener_upd:
  assumes "opener T b" and "\<And>y. T t = Some y \<Longrightarrow> active b y \<Longrightarrow> active b x"
  shows "opener (T(t \<mapsto> x)) b"
proof -
  from assms(1) obtain u z where "T u = Some z" "active b z" by (auto simp: opener_def)
  with assms(2) show ?thesis unfolding opener_def by (cases "u = t") auto
qed

lemma opener_new: "active b x \<Longrightarrow> opener (T(t \<mapsto> x)) b"
  by (auto simp: opener_def)

lemma opener_invI:
  "(\<And>b v. mgr_connections (sys_manager s) b = Some (Connecting v) \<Longrightarrow> b \<notin> sys_abandoned s \<Longrightarrow>
     opener (sys_tasks s) b) \<Longrightarrow> opener_inv s"
  unfolding opener_inv_def by blast

lemma opener_invD:
  "opener_inv s \<Longrightarrow> mgr_connections (sys_manager s) b = Some (Connecting v) \<Longrightarrow> b \<notin> sys_abandoned s \<Longrightarrow>
     opener (sys_tasks s) b"
  unfolding opener_inv_def by blast

lemma opener_drop:
  assumes "opener T b" and "T t = Some x" and "b \<notin> abandons x"
  shows "opener (T(t := None)) b"
proof -
  from assms(1) obtain u z where u: "T u = Some z" "active b z" by (auto simp: opener_def)
  with assms(2,3) have "u \<noteq> t" by (auto simp: active_def abandons_def split: task.splits)
  with u show ?thesis unfolding opener_def by auto
qed

lemma manager_step_opener:
  assumes "manager_step sp s s'" and "opener_inv s"
  shows "opener_inv s'"
  using assms
proof cases
  case (enter_open t b M)
  have "opener ((sys_tasks s)(t \<mapsto> Opening b)) b' \<or> b' \<in> sys_abandoned s"
    if "mgr_connections M b' = Some (Connecting v)" for b' v
  proof (cases "b' = b \<or> b' \<in> sys_abandoned s")
    case True
    then show ?thesis by (auto simp: opener_new active_def)
  next
    case False
    with that enter_open have "mgr_connections (sys_manager s) b' = Some (Connecting v)"
      by (auto simp: connect_inner_enter_iff)
    with assms(2) False have "opener (sys_tasks s) b'" unfolding opener_inv_def by blast
    then show ?thesis by (intro disjI1, rule opener_upd) (use enter_open in \<open>auto simp: active_def\<close>)
  qed
  with enter_open show ?thesis by (auto simp: opener_inv_def)
next
  case (dropped_call t x)
  with assms(2) opener_drop [of "sys_tasks s" _ t x] show ?thesis by (auto simp: opener_inv_def)
qed (rule opener_invI; auto simp: get_connection_check_iff connect_inner_enter_iff active_def
    intro!: opener_upd intro: opener_invD [OF assms(2)] split: if_splits)+

section \<open>No waiting task is forgotten\<close>

definition waiting :: "BrokerAddress \<Rightarrow> nat \<Rightarrow> task \<Rightarrow> bool" where
  "waiting b ch x \<longleftrightarrow> x = WaitingOuter b ch \<or> x = WaitingInner b ch"

definition waiters_inv :: "manager_system \<Rightarrow> bool" where
  "waiters_inv s \<longleftrightarrow>
     (\<forall>t x b ch. sys_tasks s t = Some x \<longrightarrow> waiting b ch x \<longrightarrow>
        ch \<in> set (waiters (sys_manager s) b) \<or> ch \<in> fst ` set (mgr_notified (sys_manager s)))"

lemma waiters_upd [simp]:
  "waiters (M\<lparr>mgr_connections := (mgr_connections M)(b \<mapsto> Connecting v)\<rparr>) b' =
     (if b' = b then v else waiters M b')"
  "waiters (M\<lparr>mgr_connections := (mgr_connections M)(b \<mapsto> Connected c)\<rparr>) b' =
     (if b' = b then [] else waiters M b')"
  "waiters (connect_failed b M) b' = (if b' = b then [] else waiters M b')"
  "waiters (connect_succeeded b c M) b' = (if b' = b then [] else waiters M b')"
  by (simp_all add: waiters_def)

lemma waiters_clean [simp]: "waiters (check_connections strong M) b = waiters M b"
  by (simp add: waiters_def check_connections_def split: option.split ConnectionStatus.split)

lemma waiters_Connecting: "mgr_connections M b = Some (Connecting v) \<Longrightarrow> waiters M b = v"
  by (simp add: waiters_def)

lemma waiters_Connected: "mgr_connections M b = Some (Connected c) \<Longrightarrow> waiters M b = []"
  by (simp add: waiters_def)

lemma waiters_None: "mgr_connections M b = None \<Longrightarrow> waiters M b = []"
  by (simp add: waiters_def)

lemmas waiters_of = waiters_Connecting waiters_Connected waiters_None

lemma waiting_simps [simp]:
  "\<not> waiting b ch (Checking b')"
  "\<not> waiting b ch (Entering b')"
  "\<not> waiting b ch (Opening b')"
  "\<not> waiting b ch (Opened b' c)"
  "\<not> waiting b ch (Finished b' r)"
  "waiting b ch (WaitingOuter b' ch') \<longleftrightarrow> b' = b \<and> ch' = ch"
  "waiting b ch (WaitingInner b' ch') \<longleftrightarrow> b' = b \<and> ch' = ch"
  by (auto simp: waiting_def)

lemma waiters_invD:
  "waiters_inv s \<Longrightarrow> sys_tasks s t = Some x \<Longrightarrow> waiting b ch x \<Longrightarrow>
     ch \<in> set (waiters (sys_manager s) b) \<or> ch \<in> fst ` set (mgr_notified (sys_manager s))"
  by (auto simp: waiters_inv_def)

lemma waiters_invI:
  "(\<And>t x b ch. sys_tasks s t = Some x \<Longrightarrow> waiting b ch x \<Longrightarrow>
     ch \<in> set (waiters (sys_manager s) b) \<or> ch \<in> fst ` set (mgr_notified (sys_manager s))) \<Longrightarrow>
   waiters_inv s"
  by (auto simp: waiters_inv_def)

lemma manager_step_waiters:
  assumes "manager_step sp s s'" and "waiters_inv s"
  shows "waiters_inv s'"
proof (rule waiters_invI)
  fix t x b ch
  assume "sys_tasks s' t = Some x" and "waiting b ch x"
  with assms(1) show "ch \<in> set (waiters (sys_manager s') b) \<or>
      ch \<in> fst ` set (mgr_notified (sys_manager s'))"
    by cases (auto simp: get_connection_check_iff connect_inner_enter_iff waiters_of image_Un
        image_image split: if_splits dest: waiters_invD [OF assms(2)],
        (use waiters_invD [OF assms(2)] in \<open>fastforce simp: waiters_None\<close>)+)
qed

section \<open>Connections lead where they should\<close>

text \<open>
  Channels are numbered below the counter, a channel of a broker's entry is waited on for that
  broker only, and every connection of the pool, of a task, or handed to a waiting task leads to
  the URL of its broker.
\<close>

definition channels_inv :: "manager_system \<Rightarrow> bool" where
  "channels_inv s \<longleftrightarrow>
     (\<forall>t x b ch. sys_tasks s t = Some x \<longrightarrow> waiting b ch x \<longrightarrow> ch < sys_next s) \<and>
     (\<forall>b ch. ch \<in> set (waiters (sys_manager s) b) \<longrightarrow> ch < sys_next s) \<and>
     (\<forall>ch r. (ch, r) \<in> set (mgr_notified (sys_manager s)) \<longrightarrow> ch < sys_next s) \<and>
     (\<forall>t x b b' ch. sys_tasks s t = Some x \<longrightarrow> waiting b ch x \<longrightarrow>
        ch \<in> set (waiters (sys_manager s) b') \<longrightarrow> b' = b)"

definition url_inv :: "manager_system \<Rightarrow> bool" where
  "url_inv s \<longleftrightarrow>
     (\<forall>b c. mgr_connections (sys_manager s) b = Some (Connected c) \<longrightarrow>
        conn_url c = broker_address_url b) \<and>
     (\<forall>t b c. sys_tasks s t = Some (Opened b c) \<longrightarrow> conn_url c = broker_address_url b) \<and>
     (\<forall>t b c. sys_tasks s t = Some (Finished b (Inr c)) \<longrightarrow> conn_url c = broker_address_url b) \<and>
     (\<forall>t x b ch c. sys_tasks s t = Some x \<longrightarrow> waiting b ch x \<longrightarrow>
        (ch, Inr c) \<in> set (mgr_notified (sys_manager s)) \<longrightarrow> conn_url c = broker_address_url b)"

lemma connection_new_url:
  "connection_new dbg N kind u auth proxy certs insecure verify = Inr c \<Longrightarrow> conn_url c = u"
  by (auto simp: connection_new_def bind_res_Inr_iff Let_def split: if_splits option.splits)

lemma connect_loop_result:
  assumes "fst (connect_loop R attempt Ns n) = Some (Inr c)"
  shows "\<exists>N. attempt N = Inr c"
  using assms
  by (induction R attempt Ns n rule: connect_loop.induct)
    (auto split: sum.splits connection_error.splits if_splits prod.splits)

lemma connect_open_url:
  assumes "fst (connect_open dbg M b Ns) = Some (Inr c)"
  shows "conn_url c = broker_address_url b"
  using connect_loop_result [OF assms [unfolded connect_open_def]] connection_new_url
  by (auto simp: open_attempt_def)

lemma channels_invI:
  assumes "\<And>t x b ch. sys_tasks s t = Some x \<Longrightarrow> waiting b ch x \<Longrightarrow> ch < sys_next s"
    and "\<And>b ch. ch \<in> set (waiters (sys_manager s) b) \<Longrightarrow> ch < sys_next s"
    and "\<And>ch r. (ch, r) \<in> set (mgr_notified (sys_manager s)) \<Longrightarrow> ch < sys_next s"
    and "\<And>t x b b' ch. sys_tasks s t = Some x \<Longrightarrow> waiting b ch x \<Longrightarrow>
        ch \<in> set (waiters (sys_manager s) b') \<Longrightarrow> b' = b"
  shows "channels_inv s"
  unfolding channels_inv_def using assms by blast

lemma channels_invD:
  assumes "channels_inv s"
  shows "sys_tasks s t = Some x \<Longrightarrow> waiting b ch x \<Longrightarrow> ch < sys_next s"
    and "ch \<in> set (waiters (sys_manager s) b) \<Longrightarrow> ch < sys_next s"
    and "(ch, r) \<in> set (mgr_notified (sys_manager s)) \<Longrightarrow> ch < sys_next s"
    and "sys_tasks s t = Some x \<Longrightarrow> waiting b ch x \<Longrightarrow>
        ch \<in> set (waiters (sys_manager s) b') \<Longrightarrow> b' = b"
    and "sys_tasks s t = Some x \<Longrightarrow> waiting b ch x \<Longrightarrow>
        mgr_connections (sys_manager s) b' = Some (Connecting v) \<Longrightarrow> ch \<in> set v \<Longrightarrow> b' = b"
  using assms unfolding channels_inv_def by (blast, blast, blast, blast, metis waiters_Connecting)

lemma manager_step_channels:
  assumes "manager_step sp s s'" and "channels_inv s"
  shows "channels_inv s'"
proof (rule channels_invI)
  note d = channels_invD [OF assms(2)]
  note steps = get_connection_check_iff connect_inner_enter_iff waiters_of
  show "ch < sys_next s'" if "sys_tasks s' t = Some x" "waiting b ch x" for t x b ch
    using assms(1) that
    by cases (auto simp: steps less_Suc_eq split: if_splits dest: d(1))
  show "ch < sys_next s'" if "ch \<in> set (waiters (sys_manager s') b)" for b ch
    using assms(1) that
    by cases (auto simp: steps less_Suc_eq split: if_splits dest: d(2) intro: d(2) [OF _])
  show "ch < sys_next s'" if "(ch, r) \<in> set (mgr_notified (sys_manager s'))" for ch r
    using assms(1) that
    by cases (auto simp: steps less_Suc_eq split: if_splits dest: d(2,3))
  show "b' = b" if "sys_tasks s' t = Some x" "waiting b ch x" "ch \<in> set (waiters (sys_manager s') b')"
    for t x b b' ch
    using assms(1) that
    by cases (auto simp: steps less_Suc_eq split: if_splits dest: d(1,2,4,5))
qed

lemma url_invI:
  assumes "\<And>b c. mgr_connections (sys_manager s) b = Some (Connected c) \<Longrightarrow>
        conn_url c = broker_address_url b"
    and "\<And>t b c. sys_tasks s t = Some (Opened b c) \<Longrightarrow> conn_url c = broker_address_url b"
    and "\<And>t b c. sys_tasks s t = Some (Finished b (Inr c)) \<Longrightarrow> conn_url c = broker_address_url b"
    and "\<And>t x b ch c. sys_tasks s t = Some x \<Longrightarrow> waiting b ch x \<Longrightarrow>
        (ch, Inr c) \<in> set (mgr_notified (sys_manager s)) \<Longrightarrow> conn_url c = broker_address_url b"
  shows "url_inv s"
  unfolding url_inv_def using assms by blast

lemma url_invD:
  assumes "url_inv s"
  shows "mgr_connections (sys_manager s) b = Some (Connected c) \<Longrightarrow> conn_url c = broker_address_url b"
    and "sys_tasks s t = Some (Opened b c) \<Longrightarrow> conn_url c = broker_address_url b"
    and "sys_tasks s t = Some (Finished b (Inr c)) \<Longrightarrow> conn_url c = broker_address_url b"
    and "sys_tasks s t = Some x \<Longrightarrow> waiting b ch x \<Longrightarrow>
        (ch, Inr c) \<in> set (mgr_notified (sys_manager s)) \<Longrightarrow> conn_url c = broker_address_url b"
    and "sys_tasks s t = Some (WaitingOuter b ch) \<Longrightarrow>
        (ch, Inr c) \<in> set (mgr_notified (sys_manager s)) \<Longrightarrow> conn_url c = broker_address_url b"
    and "sys_tasks s t = Some (WaitingInner b ch) \<Longrightarrow>
        (ch, Inr c) \<in> set (mgr_notified (sys_manager s)) \<Longrightarrow> conn_url c = broker_address_url b"
  using assms unfolding url_inv_def waiting_def by blast+

lemma manager_step_url:
  assumes "manager_step sp s s'" and "url_inv s" and "channels_inv s"
  shows "url_inv s'"
proof (rule url_invI)
  note u = url_invD [OF assms(2)] and d = channels_invD [OF assms(3)]
  note steps = get_connection_check_iff connect_inner_enter_iff waiters_of
  show "conn_url c = broker_address_url b"
    if "mgr_connections (sys_manager s') b = Some (Connected c)" for b c
    using assms(1) that
    by cases (auto simp: steps split: if_splits dest: u(1,2))
  show "conn_url c = broker_address_url b" if "sys_tasks s' t = Some (Opened b c)" for t b c
    using assms(1) that
    by cases (auto simp: steps split: if_splits dest: u(2,6) connect_open_url)
  show "conn_url c = broker_address_url b" if "sys_tasks s' t = Some (Finished b (Inr c))" for t b c
    using assms(1) that
    by cases (auto simp: steps split: if_splits dest: u(1,2,3,5))
  show "conn_url c = broker_address_url b"
    if "sys_tasks s' t = Some x" "waiting b ch x" "(ch, Inr c) \<in> set (mgr_notified (sys_manager s'))"
    for t x b ch c
    using assms(1) that
    by cases (auto simp: steps split: if_splits dest: u(2,4) d(3,4))
qed

section \<open>The retry loop ends, with bounded delays\<close>

lemma connect_loop_ends:
  assumes "unat n \<le> unat (conn_max_retries R)"
    and "unat (conn_max_retries R) - unat n < length Ns"
  shows "fst (connect_loop R attempt Ns n) \<noteq> None"
  using assms
proof (induction R attempt Ns n rule: connect_loop.induct)
  case (1 R attempt n)
  then show ?case by simp
next
  case (2 R attempt N jitter Ns n)
  show ?case
  proof (cases "\<exists>e. attempt N = Inl (Io e) \<and> (io_kind e = ConnectionRefused \<or> io_kind e = TimedOut) \<and>
      n \<noteq> conn_max_retries R")
    case True
    then obtain e where e: "attempt N = Inl (Io e)"
      "\<not> (io_kind e \<noteq> ConnectionRefused \<and> io_kind e \<noteq> TimedOut)" "n \<noteq> conn_max_retries R" by blast
    have less: "unat n < unat (conn_max_retries R)"
      using 2(2) e(3) by (metis le_neq_implies_less word_unat_eq_iff)
    from 2(1) [OF e(1) refl e(2,3)] less 2(3) unat_Suc_below [OF less]
    have "fst (connect_loop R attempt Ns (n + 1)) \<noteq> None" by simp
    with e show ?thesis by (simp add: case_prod_beta)
  next
    case False
    then show ?thesis by (auto split: sum.split connection_error.split)
  qed
qed

lemma connect_loop_delays:
  assumes "\<forall>(N, j) \<in> set Ns. j < 10" and "d \<in> set (snd (connect_loop R attempt Ns n))"
  shows "d \<le> max_backoff R + 9 * min_backoff R"
  using assms
proof (induction R attempt Ns n rule: connect_loop.induct)
  case (1 R attempt n)
  then show ?case by simp
next
  case (2 R attempt N jitter Ns n)
  have "min_backoff R * jitter \<le> 9 * min_backoff R" using 2(2) by simp
  moreover have "min (min_backoff R * saturating_pow2 (unat n)) (max_backoff R) \<le> max_backoff R"
    by simp
  ultimately have "backoff R n jitter \<le> max_backoff R + 9 * min_backoff R"
    unfolding backoff_def by (rule add_mono [rotated])
  with 2 show ?case
    by (auto split: sum.splits connection_error.splits if_splits prod.splits)
qed

section \<open>Reachable states\<close>

abbreviation reaches :: "bool \<Rightarrow> manager_system \<Rightarrow> manager_system \<Rightarrow> bool" where
  "reaches sp \<equiv> (manager_step sp)\<^sup>*\<^sup>*"

lemma waiters_start: "manager_start s \<Longrightarrow> waiters (sys_manager s) b = []"
  by (auto simp: manager_start_def waiters_def split: option.split ConnectionStatus.split)

lemma start_invs:
  assumes "manager_start s"
  shows "opener_inv s" "waiters_inv s" "channels_inv s" "url_inv s"
  using assms waiters_start [OF assms]
  by (auto simp: manager_start_def opener_inv_def waiters_inv_def channels_inv_def url_inv_def)

lemma reaches_invs:
  assumes "reaches sp s0 s" and "manager_start s0"
  shows "waiters_inv s \<and> channels_inv s \<and> url_inv s"
  using assms(1)
proof (induction rule: rtranclp_induct)
  case base
  show ?case using start_invs [OF assms(2)] by blast
next
  case (step s s')
  then show ?case
    using manager_step_waiters manager_step_channels manager_step_url by blast
qed

lemma reaches_opener:
  assumes "reaches sp s0 s" and "manager_start s0"
  shows "opener_inv s"
  using assms(1)
proof (induction rule: rtranclp_induct)
  case base
  show ?case using start_invs [OF assms(2)] by blast
next
  case (step s s')
  then show ?case using manager_step_opener by blast
qed

section \<open>Stranded brokers\<close>

text \<open>Somebody waits for a connection to the broker, nobody opens one, and no task that waits for one has been
  sent a result.\<close>

definition stranded :: "BrokerAddress \<Rightarrow> manager_system \<Rightarrow> bool" where
  "stranded b s \<longleftrightarrow>
     (\<exists>v. mgr_connections (sys_manager s) b = Some (Connecting v) \<and> v \<noteq> []) \<and>
     (\<forall>t x. sys_tasks s t = Some x \<longrightarrow> \<not> active b x) \<and>
     (\<forall>t x ch. sys_tasks s t = Some x \<longrightarrow> waiting b ch x \<longrightarrow> ch \<notin> fst ` set (mgr_notified (sys_manager s)))"

lemma strandedD:
  assumes "stranded b s"
  shows "sys_tasks s t = Some x \<Longrightarrow> \<not> active b x"
    and "sys_tasks s t \<noteq> Some (Opening b)" and "sys_tasks s t \<noteq> Some (Opened b c)"
    and "sys_tasks s t = Some x \<Longrightarrow> waiting b ch x \<Longrightarrow> (ch, r) \<notin> set (mgr_notified (sys_manager s))"
    and "sys_tasks s t = Some (WaitingInner b ch) \<Longrightarrow> (ch, r) \<notin> set (mgr_notified (sys_manager s))"
    and "sys_tasks s t = Some (WaitingOuter b ch) \<Longrightarrow> (ch, r) \<notin> set (mgr_notified (sys_manager s))"
  using assms by (force simp: stranded_def active_def waiting_def)+

lemma stranded_step:
  assumes "manager_step sp s s'" and "channels_inv s" and "stranded b s"
  shows "stranded b s'"
proof -
  note u = strandedD [OF assms(3)] and d = channels_invD [OF assms(2)]
  note steps = get_connection_check_iff connect_inner_enter_iff waiters_of
  obtain v where v: "mgr_connections (sys_manager s) b = Some (Connecting v)" "v \<noteq> []"
    using assms(3) by (auto simp: stranded_def)
  have "\<exists>v. mgr_connections (sys_manager s') b = Some (Connecting v) \<and> v \<noteq> []"
    using assms(1) v u(2,3,5)
    by cases (auto simp: steps split: if_splits)
  moreover have "\<not> active b x" if "sys_tasks s' t = Some x" for t x
    using assms(1) that v u(1-3,5)
    by cases (auto simp: steps active_def split: if_splits)
  moreover have "(ch, r) \<notin> set (mgr_notified (sys_manager s'))"
    if "sys_tasks s' t = Some x" "waiting b ch x" for t x ch r
    using assms(1) that v
    by cases (auto simp: steps u(2,3) split: if_splits dest: u(4,5) d(3,4))
  ultimately show ?thesis unfolding stranded_def by force
qed

lemma stranded_for_good:
  assumes "reaches sp s s'" and "channels_inv s" and "stranded b s"
  shows "stranded b s'"
proof -
  have "channels_inv s' \<and> stranded b s'"
    using assms(1)
  proof (induction rule: rtranclp_induct)
    case base
    show ?case using assms(2,3) by blast
  next
    case (step s s')
    then show ?case using manager_step_channels stranded_step by blast
  qed
  then show ?thesis ..
qed

section \<open>Instances for concrete inputs\<close>

definition ex_broker :: BrokerAddress where
  "ex_broker = \<lparr>broker_address_url = ex_url, broker_url = ''broker:6651'', broker_proxy = False\<rparr>"

definition ex_manager :: ConnectionManager where
  "ex_manager =
     \<lparr>mgr_url = ex_url, mgr_auth = None, mgr_kind = Tokio, mgr_connections = Map.empty,
      mgr_retry = connection_retry_options_default,
      mgr_operation_retry = operation_retry_options_default, mgr_tls = tls_options_default,
      mgr_certificates = [], mgr_notified = []\<rparr>"

definition ex_conns :: "nat list option \<Rightarrow> BrokerAddress \<rightharpoonup> ConnectionStatus" where
  "ex_conns entry = (\<lambda>b. if b = ex_broker then map_option Connecting entry else None)"

lemma ex_conns_simps [simp]:
  "ex_conns e ex_broker = map_option Connecting e"
  "(ex_conns e)(ex_broker \<mapsto> Connecting v) = ex_conns (Some v)"
  "ex_conns None = Map.empty"
  by (auto simp: ex_conns_def)

definition ex_system :: "(nat \<rightharpoonup> task) \<Rightarrow> nat \<Rightarrow> nat list option \<Rightarrow> manager_system" where
  "ex_system T n entry =
     \<lparr>sys_tasks = T, sys_next = n,
      sys_manager = ex_manager\<lparr>mgr_connections := ex_conns entry\<rparr>, sys_abandoned = {}\<rparr>"

lemma ex_system_start: "manager_start (ex_system Map.empty 0 None)"
  by (simp add: manager_start_def ex_system_def ex_manager_def)

lemma ex_call:
  "T t = None \<Longrightarrow>
     manager_step sp (ex_system T n e) (ex_system (T(t \<mapsto> Checking ex_broker)) n e)"
  using manager_step.call [of "ex_system T n e" t sp ex_broker] by (simp add: ex_system_def)

lemma ex_check_open:
  "T t = Some (Checking ex_broker) \<Longrightarrow>
     manager_step sp (ex_system T n None) (ex_system (T(t \<mapsto> Entering ex_broker)) n None)"
  using manager_step.check_open [of "ex_system T n None" t ex_broker _ sp]
  by (simp add: ex_system_def get_connection_check_iff del: ex_conns_simps(3))

lemma ex_enter_open:
  "T t = Some (Entering ex_broker) \<Longrightarrow> e = None \<or> e = Some [] \<Longrightarrow>
     manager_step sp (ex_system T n e) (ex_system (T(t \<mapsto> Opening ex_broker)) n (Some []))"
  using manager_step.enter_open [of "ex_system T n e" t ex_broker _ sp]
  by (auto simp: ex_system_def connect_inner_enter_iff simp del: ex_conns_simps(3))

lemma ex_check_wait:
  "T t = Some (Checking ex_broker) \<Longrightarrow>
     manager_step sp (ex_system T n (Some v))
       (ex_system (T(t \<mapsto> WaitingOuter ex_broker n)) (Suc n) (Some (v @ [n])))"
  using manager_step.check_wait [of "ex_system T n (Some v)" t ex_broker n _ sp]
  by (auto simp: ex_system_def get_connection_check_iff simp del: ex_conns_simps(3))

lemma ex_opening_waiting:
  "reaches sp (ex_system Map.empty 0 None)
     (ex_system [0 \<mapsto> Opening ex_broker, 1 \<mapsto> WaitingOuter ex_broker 0] 1 (Some [0]))"
proof -
  have "reaches sp (ex_system Map.empty 0 None) (ex_system [0 \<mapsto> Opening ex_broker] 0 (Some []))"
    using ex_call [of Map.empty 0 sp 0 None] ex_check_open [of "[0 \<mapsto> Checking ex_broker]" 0 sp 0]
      ex_enter_open [of "[0 \<mapsto> Entering ex_broker]" 0 None sp 0]
    by (auto intro: converse_rtranclp_into_rtranclp)
  also have "reaches sp (ex_system [0 \<mapsto> Opening ex_broker] 0 (Some []))
      (ex_system [0 \<mapsto> Opening ex_broker, 1 \<mapsto> WaitingOuter ex_broker 0] 1 (Some [0]))"
    using ex_call [of "[0 \<mapsto> Opening ex_broker]" 1 sp 0 "Some []"]
      ex_check_wait [of "[0 \<mapsto> Opening ex_broker, 1 \<mapsto> Checking ex_broker]" 1 sp 0 "[]"]
    by (auto intro: converse_rtranclp_into_rtranclp)
  finally show ?thesis .
qed

definition ex_stranded :: manager_system where
  "ex_stranded = (ex_system [1 \<mapsto> WaitingOuter ex_broker 0] 1 (Some [0]))\<lparr>sys_abandoned := {ex_broker}\<rparr>"

section \<open>Properties of the connection manager\<close>

text \<open>C14: Who wakes a waiting task. Whatever the interleaving of the calls that share the manager, dropped
  calls included, a task that waits for another one's connection has already been sent its result,
  or some task is at that moment opening a connection to the same broker, or a call that was
  opening one was dropped or could not spawn its task, and the entry it left has not been replaced or
  removed since.\<close>

theorem no_waiter_forgotten:
  assumes "reaches sp s0 s" and "manager_start s0" and "sys_tasks s t = Some x" and "waiting b ch x"
  shows "ch \<in> fst ` set (mgr_notified (sys_manager s)) \<or> opener (sys_tasks s) b \<or> b \<in> sys_abandoned s"
proof -
  have "waiters_inv s" using reaches_invs [OF assms(1,2)] by blast
  from waiters_invD [OF this assms(3,4)]
  consider "ch \<in> set (waiters (sys_manager s) b)" | "ch \<in> fst ` set (mgr_notified (sys_manager s))"
    by blast
  then show ?thesis
  proof cases
    case 1
    then obtain v where "mgr_connections (sys_manager s) b = Some (Connecting v)"
      by (cases "mgr_connections (sys_manager s) b")
        (auto simp: waiters_def split: ConnectionStatus.splits)
    with reaches_opener [OF assms(1,2)] show ?thesis by (auto simp: opener_inv_def)
  next
    case 2
    then show ?thesis ..
  qed
qed

theorem no_waiter_forgotten_witness:
  "(0 :: nat) \<in> fst ` set (mgr_notified (sys_manager
      (ex_system [0 \<mapsto> Opening ex_broker, 1 \<mapsto> WaitingOuter ex_broker 0] 1 (Some [0])))) \<or>
   opener (sys_tasks (ex_system [0 \<mapsto> Opening ex_broker, 1 \<mapsto> WaitingOuter ex_broker 0] 1 (Some [0])))
     ex_broker \<or>
   ex_broker \<in> sys_abandoned (ex_system [0 \<mapsto> Opening ex_broker, 1 \<mapsto> WaitingOuter ex_broker 0] 1 (Some [0]))"
  by (rule no_waiter_forgotten [OF ex_opening_waiting [of True] ex_system_start, of 1 "WaitingOuter ex_broker 0"])
    (simp_all add: ex_system_def)

text \<open>C38: A dropped call strands the others. If the only call that opens a connection to a broker is dropped while
  others wait for it, none of which has been sent a result, then in every later state nobody opens a connection to
  this broker, nobody who waits for one is sent a result, and every further call waits too.\<close>

theorem dropped_call_strands_waiters:
  assumes "reaches sp s0 s" and "manager_start s0" and "sys_tasks s t = Some (Opening b)"
    and "\<forall>u x. u \<noteq> t \<longrightarrow> sys_tasks s u = Some x \<longrightarrow> \<not> active b x"
    and "mgr_connections (sys_manager s) b = Some (Connecting v)" and "v \<noteq> []"
    and "\<forall>u x ch. sys_tasks s u = Some x \<longrightarrow> waiting b ch x \<longrightarrow> ch \<notin> fst ` set (mgr_notified (sys_manager s))"
    and "reaches sp (s\<lparr>sys_tasks := (sys_tasks s)(t := None), sys_abandoned := insert b (sys_abandoned s)\<rparr>) s'"
  shows "manager_step sp s (s\<lparr>sys_tasks := (sys_tasks s)(t := None), sys_abandoned := insert b (sys_abandoned s)\<rparr>) \<and>
    stranded b s' \<and> fst (get_connection_check b n (sys_manager s')) = Wait n"
proof -
  let ?s = "s\<lparr>sys_tasks := (sys_tasks s)(t := None), sys_abandoned := insert b (sys_abandoned s)\<rparr>"
  have step: "manager_step sp s ?s"
    using manager_step.dropped_call [of s t "Opening b" sp] assms(3) by (simp add: abandons_def)
  moreover have "channels_inv s" using reaches_invs [OF assms(1,2)] by blast
  then have "channels_inv ?s" using manager_step_channels [OF step] by blast
  moreover have "stranded b ?s" using assms(4-7) by (auto simp: stranded_def split: if_splits)
  ultimately have "stranded b s'" using stranded_for_good [OF assms(8)] by blast
  then show ?thesis using step by (auto simp: stranded_def get_connection_check_def)
qed

theorem dropped_call_strands_waiters_witness:
  "manager_step True (ex_system [0 \<mapsto> Opening ex_broker, 1 \<mapsto> WaitingOuter ex_broker 0] 1 (Some [0])) ex_stranded \<and>
   stranded ex_broker ex_stranded \<and> fst (get_connection_check ex_broker 1 (sys_manager ex_stranded)) = Wait 1"
  using dropped_call_strands_waiters [OF ex_opening_waiting [of True] ex_system_start, of 0 ex_broker "[0]" ex_stranded 1]
  by (simp add: ex_system_def ex_manager_def ex_stranded_def active_def)

text \<open>C32: The right connection. A call of \<open>get_connection\<close> that returns a connection, whether from the
  pool, opened by the task itself or received from another task, returns one that was opened to
  the URL of the broker it was asked for.\<close>

theorem get_connection_right_url:
  assumes "reaches sp s0 s" and "manager_start s0"
    and "sys_tasks s t = Some (Finished b (Inr c))"
  shows "conn_url c = broker_address_url b"
  using reaches_invs [OF assms(1,2)] url_invD(3) assms(3) by blast

definition ex_pooled :: manager_system where
  "ex_pooled =
     \<lparr>sys_tasks = Map.empty, sys_next = 0,
      sys_manager = ex_manager\<lparr>mgr_connections := [ex_broker \<mapsto> Connected
        \<lparr>conn_id = 1, conn_url = ex_url, conn_sender = connection_sender_new shared_error_new\<rparr>]\<rparr>,
      sys_abandoned = {}\<rparr>"

lemma ex_pooled_start: "manager_start ex_pooled"
  by (simp add: manager_start_def ex_pooled_def ex_manager_def ex_broker_def)

lemma ex_pooled_found:
  "reaches sp ex_pooled (ex_pooled\<lparr>sys_tasks := [0 \<mapsto> Finished ex_broker (Inr
     \<lparr>conn_id = 1, conn_url = ex_url, conn_sender = connection_sender_new shared_error_new\<rparr>)]\<rparr>)"
proof -
  let ?c = "\<lparr>conn_id = 1, conn_url = ex_url, conn_sender = connection_sender_new shared_error_new\<rparr>"
  let ?s = "ex_pooled\<lparr>sys_tasks := [0 \<mapsto> Checking ex_broker]\<rparr>"
  have "manager_step sp ex_pooled ?s"
    using manager_step.call [of ex_pooled 0 sp ex_broker] by (simp add: ex_pooled_def)
  moreover have "manager_step sp ?s (ex_pooled\<lparr>sys_tasks := [0 \<mapsto> Finished ex_broker (Inr ?c)]\<rparr>)"
    using manager_step.check_found [of ?s 0 ex_broker ?c "sys_manager ex_pooled" sp]
    by (simp add: ex_pooled_def get_connection_check_iff is_valid_def shared_error_is_set_def
        connection_sender_new_def shared_error_new_def)
  ultimately show ?thesis by (meson converse_rtranclp_into_rtranclp rtranclp.rtrancl_refl)
qed

theorem get_connection_right_url_witness:
  "conn_url \<lparr>conn_id = 1, conn_url = ex_url, conn_sender = connection_sender_new shared_error_new\<rparr> =
   broker_address_url ex_broker"
  by (rule get_connection_right_url [OF ex_pooled_found [of True] ex_pooled_start, of 0]) simp

text \<open>C33: opening a connection ends. After at most one attempt more than the configured number of
  retries there is a result, whatever the network does, and no delay between two attempts is
  longer than the maximal backoff and nine minimal ones.\<close>

theorem connection_retries_bounded:
  assumes "unat (conn_max_retries (mgr_retry M)) < length Ns" and "\<forall>(N, j) \<in> set Ns. j < 10"
  shows "(\<exists>r. fst (connect_open dbg M b Ns) = Some r) \<and>
    list_all (\<lambda>d. d \<le> max_backoff (mgr_retry M) + 9 * min_backoff (mgr_retry M))
      (snd (connect_open dbg M b Ns))"
proof -
  have "fst (connect_open dbg M b Ns) \<noteq> None"
    unfolding connect_open_def by (rule connect_loop_ends) (use assms(1) in simp_all)
  moreover have "d \<le> max_backoff (mgr_retry M) + 9 * min_backoff (mgr_retry M)"
    if "d \<in> set (snd (connect_open dbg M b Ns))" for d
    using connect_loop_delays [OF assms(2)] that by (simp add: connect_open_def)
  ultimately show ?thesis by (auto simp: list_all_iff)
qed

theorem connection_retries_bounded_witness:
  "(\<exists>r. fst (connect_open (\<lambda>c. '''') ex_manager ex_broker
      (replicate 13 (ex_net\<lparr>net_tcp := (\<lambda>a. Inl (IoError ConnectionRefused ''refused''))\<rparr>, 9))) = Some r) \<and>
   list_all (\<lambda>d. d \<le> max_backoff (mgr_retry ex_manager) + 9 * min_backoff (mgr_retry ex_manager))
     (snd (connect_open (\<lambda>c. '''') ex_manager ex_broker
       (replicate 13 (ex_net\<lparr>net_tcp := (\<lambda>a. Inl (IoError ConnectionRefused ''refused''))\<rparr>, 9))))"
  by (rule connection_retries_bounded)
    (simp_all add: ex_manager_def connection_retry_options_default_def)

text \<open>Two connections to one broker. Two tasks that both found the pool without a usable connection
  before either of them entered it both open one: the entry of a task that is connecting is only
  recognised when somebody already waits for it.\<close>

theorem concurrent_calls_open_twice:
  "\<exists>s. reaches True (ex_system Map.empty 0 None) s \<and>
     sys_tasks s 0 = Some (Opening ex_broker) \<and> sys_tasks s 1 = Some (Opening ex_broker)"
proof -
  let ?s = "\<lambda>x y e. ex_system [0 \<mapsto> x ex_broker, 1 \<mapsto> y ex_broker] 0 e"
  have "reaches True (ex_system Map.empty 0 None) (?s Checking Checking None)"
    using ex_call [of Map.empty 0 True 0 None] ex_call [of "[0 \<mapsto> Checking ex_broker]" 1 True 0 None]
    by (auto intro: converse_rtranclp_into_rtranclp)
  also have "reaches True \<dots> (?s Entering Entering None)"
    using ex_check_open [of "[0 \<mapsto> Checking ex_broker, 1 \<mapsto> Checking ex_broker]" 0 True 0]
      ex_check_open [of "[0 \<mapsto> Entering ex_broker, 1 \<mapsto> Checking ex_broker]" 1 True 0]
    by (auto intro: converse_rtranclp_into_rtranclp simp: fun_upd_twist)
  also have "reaches True \<dots> (?s Opening Opening (Some []))"
    using ex_enter_open [of "[0 \<mapsto> Entering ex_broker, 1 \<mapsto> Entering ex_broker]" 0 None True 0]
      ex_enter_open [of "[0 \<mapsto> Opening ex_broker, 1 \<mapsto> Entering ex_broker]" 1 "Some []" True 0]
    by (auto intro: converse_rtranclp_into_rtranclp simp: fun_upd_twist)
  finally show ?thesis
    by (intro exI [of _ "?s Opening Opening (Some [])"]) (simp add: ex_system_def)
qed

text \<open>A failed spawn strands the waiting tasks. If the heartbeat of a new connection cannot be
  spawned, the call returns an error but leaves the entry of the broker as it was: the tasks that
  wait there are not told, and every later call waits with them.\<close>

theorem failed_spawn_strands_waiters:
  assumes "sys_tasks s t = Some (Opened b c)"
    and "mgr_connections (sys_manager s) b = Some (Connecting v)"
  shows "\<exists>s'. manager_step False s s' \<and> sys_tasks s' t = Some (Finished b (Inl Shutdown)) \<and>
    sys_manager s' = sys_manager s \<and>
    fst (get_connection_check b (sys_next s') (sys_manager s')) = Wait (sys_next s')"
proof -
  let ?s = "s\<lparr>sys_tasks := (sys_tasks s)(t \<mapsto> Finished b (Inl Shutdown)), sys_abandoned := insert b (sys_abandoned s)\<rparr>"
  have "manager_step False s ?s" using assms(1) by (intro manager_step.spawn_failed) simp_all
  then show ?thesis
    using assms(2) by (intro exI [of _ ?s]) (simp add: get_connection_check_def)
qed

theorem failed_spawn_strands_waiters_witness:
  "\<exists>s'. manager_step False
      (ex_system [0 \<mapsto> Opened ex_broker \<lparr>conn_id = 1, conn_url = ex_url,
         conn_sender = connection_sender_new shared_error_new\<rparr>, 1 \<mapsto> WaitingOuter ex_broker 0] 1 (Some [0])) s' \<and>
    sys_tasks s' 0 = Some (Finished ex_broker (Inl Shutdown)) \<and>
    sys_manager s' = sys_manager (ex_system [0 \<mapsto> Opened ex_broker \<lparr>conn_id = 1, conn_url = ex_url,
         conn_sender = connection_sender_new shared_error_new\<rparr>, 1 \<mapsto> WaitingOuter ex_broker 0] 1 (Some [0])) \<and>
    fst (get_connection_check ex_broker (sys_next s') (sys_manager s')) = Wait (sys_next s')"
  by (rule failed_spawn_strands_waiters) (simp_all add: ex_system_def)

end
