(* ===== verification/Discovery.thy ===== *)
theory Discovery
  imports Manager
begin

text \<open>
  \<open>ServiceDiscovery\<close> of \<open>src/service_discovery.rs\<close>: finding the broker of a topic, which follows
  redirects and goes through proxies, and the partitions of a partitioned topic.

  A lookup is a loop whose number of rounds the brokers decide. The list of rounds is what they
  and the connection manager answer in each of them; a lookup that still goes on when the list
  ends has no result, which is \<open>Unfinished\<close>. \<open>parse_url\<close> is the URL library. Reading the host of
  a URL that has none panics.
\<close>

section \<open>Responses\<close>

datatype 'a outcome = Value 'a | Panics | Unfinished

record LookupResponse =
  lr_broker_url :: "url option"
  lr_broker_url_tls :: "url option"
  lr_proxy :: bool
  lr_redirect :: bool
  lr_authoritative :: bool

definition convert_lookup_response ::
  "(string \<Rightarrow> url option) \<Rightarrow> command_lookup_topic_response
     \<Rightarrow> (service_discovery_error, LookupResponse) res" where
  "convert_lookup_response parse_url r =
     (let parse = (\<lambda>u. case u of
            None \<Rightarrow> Inr None
          | Some t \<Rightarrow> (case parse_url t of None \<Rightarrow> Inl SdNotFound | Some v \<Rightarrow> Inr (Some v)))
      in
      bind_res (parse (ltr_broker_service_url r)) (\<lambda>broker.
      bind_res (parse (ltr_broker_service_url_tls r)) (\<lambda>broker_tls.
        Inr \<lparr>lr_broker_url = broker, lr_broker_url_tls = broker_tls,
             lr_proxy = (case ltr_proxy_through_service_url r of None \<Rightarrow> False | Some b \<Rightarrow> b),
             lr_redirect = (ltr_response r = Some 0),
             lr_authoritative = (case ltr_authoritative r of None \<Rightarrow> False | Some b \<Rightarrow> b)\<rparr>)))"

text \<open>Whether a response is a failure, and the error of the broker it carries.\<close>

definition lookup_failed :: "command_lookup_topic_response \<Rightarrow> bool" where
  "lookup_failed r \<longleftrightarrow> ltr_response r = None \<or> ltr_response r = Some 2"

definition response_error :: "i32 option \<Rightarrow> server_error option" where
  "response_error e = (case e of None \<Rightarrow> None | Some i \<Rightarrow> Errors.server_error i)"

section \<open>Looking up a topic\<close>

text \<open>One round: the answer to the query, what a reconnection gives and the answer to the repeated
  query, and what the manager returns for the address of the response.\<close>

record lookup_round =
  rd_answer :: "pulsar_message awaited"
  rd_reconnect :: "(connection_error, Connection) res"
  rd_second_answer :: "pulsar_message awaited"
  rd_connection :: "BrokerAddress \<Rightarrow> (connection_error, Connection) res"

record lookup_state =
  ls_connection :: Connection
  ls_proxied_query :: bool
  ls_authoritative :: bool
  ls_retries :: u32

definition query_topic ::
  "(base_command \<Rightarrow> string) \<Rightarrow> string \<Rightarrow> bool \<Rightarrow> pulsar_message awaited \<Rightarrow> Connection
     \<Rightarrow> (connection_error, command_lookup_topic_response) res \<times> Connection" where
  "query_topic dbg topic authoritative answer c =
     (case sender_lookup_topic dbg topic authoritative answer (conn_sender c) of
        (r, s) \<Rightarrow> (r, c\<lparr>conn_sender := s\<rparr>))"

text \<open>A query whose connection turns out to be closed is repeated once on a new one.\<close>

definition query_with_reconnect ::
  "(base_command \<Rightarrow> string) \<Rightarrow> string \<Rightarrow> lookup_round \<Rightarrow> lookup_state
     \<Rightarrow> (connection_error, command_lookup_topic_response) res \<times> Connection" where
  "query_with_reconnect dbg topic R s =
     (case query_topic dbg topic (ls_authoritative s) (rd_answer R) (ls_connection s) of
        (Inr r, c) \<Rightarrow> (Inr r, c)
      | (Inl Disconnected, c) \<Rightarrow>
          (case rd_reconnect R of
             Inl e \<Rightarrow> (Inl e, c)
           | Inr c \<Rightarrow> query_topic dbg topic (ls_authoritative s) (rd_second_answer R) c)
      | (Inl e, c) \<Rightarrow> (Inl e, c))"

text \<open>The address a response stands for: through a proxy the URL of the client is kept.\<close>

definition response_address ::
  "url \<Rightarrow> bool \<Rightarrow> LookupResponse \<Rightarrow> (service_discovery_error, BrokerAddress) res outcome" where
  "response_address base proxied r =
     (let target = (case lr_broker_url_tls r of
                      Some u \<Rightarrow> Some (u, 6651)
                    | None \<Rightarrow> map_option (\<lambda>u. (u, 6650)) (lr_broker_url r))
      in
      case target of
        None \<Rightarrow> Value (Inl SdNotFound)
      | Some (u, port) \<Rightarrow>
          (case host_port u port of
             None \<Rightarrow> Panics
           | Some hp \<Rightarrow>
               Value (Inr
                 \<lparr>broker_address_url = (if proxied \<or> lr_proxy r then base else u),
                  broker_url = hp, broker_proxy = (proxied \<or> lr_proxy r)\<rparr>)))"

fun lookup_loop ::
  "(base_command \<Rightarrow> string) \<Rightarrow> (string \<Rightarrow> url option) \<Rightarrow> u32 option \<Rightarrow> url \<Rightarrow> string
     \<Rightarrow> lookup_round list \<Rightarrow> lookup_state \<Rightarrow> (service_discovery_error, BrokerAddress) res outcome" where
  "lookup_loop dbg parse_url limit base topic [] s = Unfinished"
| "lookup_loop dbg parse_url limit base topic (R # Rs) s =
     (case query_with_reconnect dbg topic R s of
        (Inl e, c) \<Rightarrow> Value (Inl (SdConnection e))
      | (Inr r, c) \<Rightarrow>
          (let s = s\<lparr>ls_connection := c\<rparr> in
           if lookup_failed r then
             (if response_error (ltr_error r) = Some ServiceNotReady \<and> may_retry limit (ls_retries s)
              then lookup_loop dbg parse_url limit base topic Rs (s\<lparr>ls_retries := ls_retries s + 1\<rparr>)
              else Value (Inl (Query (response_error (ltr_error r)) (ltr_message r))))
           else
             (case convert_lookup_response parse_url r of
                Inl e \<Rightarrow> Value (Inl e)
              | Inr lr \<Rightarrow>
                  (case response_address base (ls_proxied_query s) lr of
                     Value (Inr address) \<Rightarrow>
                       (if lr_redirect lr then
                          (case rd_connection R address of
                             Inl e \<Rightarrow> Value (Inl (SdConnection e))
                           | Inr c \<Rightarrow>
                               lookup_loop dbg parse_url limit base topic Rs
                                 (s\<lparr>ls_connection := c, ls_authoritative := lr_authoritative lr,
                                    ls_proxied_query := broker_proxy address\<rparr>))
                        else
                          (case rd_connection R address of
                             Inl e \<Rightarrow> Value (Inl (SdConnection e))
                           | Inr _ \<Rightarrow> Value (Inr address)))
                   | Value (Inl e) \<Rightarrow> Value (Inl e)
                   | Panics \<Rightarrow> Panics
                   | Unfinished \<Rightarrow> Unfinished))))"

definition discovery_lookup_topic ::
  "(base_command \<Rightarrow> string) \<Rightarrow> (string \<Rightarrow> url option) \<Rightarrow> ConnectionManager \<Rightarrow> string
     \<Rightarrow> (connection_error, Connection) res \<Rightarrow> lookup_round list
     \<Rightarrow> (service_discovery_error, BrokerAddress) res outcome" where
  "discovery_lookup_topic dbg parse_url M topic base_connection Rs =
     (case base_connection of
        Inl e \<Rightarrow> Value (Inl (SdConnection e))
      | Inr c \<Rightarrow>
          lookup_loop dbg parse_url (op_max_retries (mgr_operation_retry M)) (mgr_url M) topic Rs
            \<lparr>ls_connection = c, ls_proxied_query = False, ls_authoritative = False, ls_retries = 0\<rparr>)"

section \<open>Partitions\<close>

record partition_round =
  pr_answer :: "pulsar_message awaited"
  pr_reconnect :: "(connection_error, Connection) res"
  pr_second_answer :: "pulsar_message awaited"

definition query_partitions ::
  "(base_command \<Rightarrow> string) \<Rightarrow> string \<Rightarrow> pulsar_message awaited \<Rightarrow> Connection
     \<Rightarrow> (connection_error, command_partition_metadata_response) res \<times> Connection" where
  "query_partitions dbg topic answer c =
     (case sender_lookup_partitioned_topic dbg topic answer (conn_sender c) of
        (r, s) \<Rightarrow> (r, c\<lparr>conn_sender := s\<rparr>))"

definition query_partitions_with_reconnect ::
  "(base_command \<Rightarrow> string) \<Rightarrow> string \<Rightarrow> partition_round \<Rightarrow> Connection
     \<Rightarrow> (connection_error, command_partition_metadata_response) res \<times> Connection" where
  "query_partitions_with_reconnect dbg topic R c =
     (case query_partitions dbg topic (pr_answer R) c of
        (Inr r, c) \<Rightarrow> (Inr r, c)
      | (Inl Disconnected, c) \<Rightarrow>
          (case pr_reconnect R of
             Inl e \<Rightarrow> (Inl e, c)
           | Inr c \<Rightarrow> query_partitions dbg topic (pr_second_answer R) c)
      | (Inl e, c) \<Rightarrow> (Inl e, c))"

fun partition_number_loop ::
  "(base_command \<Rightarrow> string) \<Rightarrow> u32 option \<Rightarrow> string \<Rightarrow> partition_round list \<Rightarrow> Connection \<Rightarrow> u32
     \<Rightarrow> (service_discovery_error, u32) res option" where
  "partition_number_loop dbg limit topic [] c n = None"
| "partition_number_loop dbg limit topic (R # Rs) c n =
     (case query_partitions_with_reconnect dbg topic R c of
        (Inl e, c) \<Rightarrow> Some (Inl (SdConnection e))
      | (Inr r, c) \<Rightarrow>
          (if pmr_response r = None \<or> pmr_response r = Some 1 then
             (if response_error (pmr_error r) = Some ServiceNotReady \<and> may_retry limit n
              then partition_number_loop dbg limit topic Rs c (n + 1)
              else Some (Inl (Query (response_error (pmr_error r)) (pmr_message r))))
           else
             (case pmr_partitions r of
                Some k \<Rightarrow> Some (Inr k)
              | None \<Rightarrow> Some (Inl (Query (response_error (pmr_error r)) (pmr_message r))))))"

definition lookup_partitioned_topic_number ::
  "(base_command \<Rightarrow> string) \<Rightarrow> ConnectionManager \<Rightarrow> string \<Rightarrow> (connection_error, Connection) res
     \<Rightarrow> partition_round list \<Rightarrow> (service_discovery_error, u32) res option" where
  "lookup_partitioned_topic_number dbg M topic base_connection Rs =
     (case base_connection of
        Inl e \<Rightarrow> Some (Inl (SdConnection e))
      | Inr c \<Rightarrow> partition_number_loop dbg (op_max_retries (mgr_operation_retry M)) topic Rs c 0)"

definition partition_topics :: "string \<Rightarrow> u32 \<Rightarrow> string list" where
  "partition_topics topic partitions =
     (if partitions = 0 then [topic]
      else map (\<lambda>n. topic @ ''-partition-'' @ show_nat n) [0..<unat partitions])"

text \<open>\<open>lookup\<close> is the lookup of one topic, which runs for all partitions at once; \<open>None\<close> if it has not ended, or
  has panicked.\<close>

definition discovery_lookup_partitioned_topic ::
  "(service_discovery_error, u32) res option
     \<Rightarrow> (string \<Rightarrow> (service_discovery_error, BrokerAddress) res option) \<Rightarrow> string
     \<Rightarrow> (service_discovery_error, (string \<times> BrokerAddress) list) res option" where
  "discovery_lookup_partitioned_topic number lookup topic =
     (case number of
        None \<Rightarrow> None
      | Some (Inl e) \<Rightarrow> Some (Inl e)
      | Some (Inr partitions) \<Rightarrow>
          try_join_all (map (\<lambda>t. map_option (\<lambda>r. bind_res r (\<lambda>a. Inr (t, a))) (lookup t))
            (partition_topics topic partitions)))"

section \<open>Lemmas\<close>

lemma response_address_Inr:
  assumes "response_address base proxied r = Value (Inr a)"
  shows "broker_proxy a = (proxied \<or> lr_proxy r)"
    and "broker_proxy a \<Longrightarrow> broker_address_url a = base"
    and "\<not> broker_proxy a \<Longrightarrow>
      Some (broker_address_url a) = (if lr_broker_url_tls r \<noteq> None then lr_broker_url_tls r
                                     else lr_broker_url r)"
  using assms
  by (auto simp: response_address_def Let_def split: option.splits)

lemma lookup_loop_address:
  assumes "lookup_loop dbg parse_url limit base topic Rs s = Value (Inr a)"
  shows "(broker_proxy a \<longrightarrow> broker_address_url a = base) \<and> (ls_proxied_query s \<longrightarrow> broker_proxy a) \<and>
    (\<exists>R c. R \<in> set Rs \<and> rd_connection R a = Inr c)"
  using assms
proof (induction Rs arbitrary: s)
  case Nil
  then show ?case by simp
next
  case (Cons R Rs)
  obtain q c where q: "query_with_reconnect dbg topic R s = (q, c)" by fastforce
  with Cons.prems obtain r where r: "q = Inr r" by (cases q) auto
  show ?case
  proof (cases "lookup_failed r")
    case True
    with Cons.prems q r have "lookup_loop dbg parse_url limit base topic Rs
        (s\<lparr>ls_connection := c, ls_retries := ls_retries s + 1\<rparr>) = Value (Inr a)"
      by (simp add: Let_def split: if_splits)
    from Cons.IH [OF this] show ?thesis by auto
  next
    case False
    with Cons.prems q r obtain lr where lr: "convert_lookup_response parse_url r = Inr lr"
      by (auto simp: Let_def split: sum.splits)
    with Cons.prems q r False obtain b where b: "response_address base (ls_proxied_query s) lr = Value (Inr b)"
      by (auto simp: Let_def split: outcome.splits sum.splits)
    note ab = response_address_Inr [OF b]
    obtain c' where c': "rd_connection R b = Inr c'"
      using Cons.prems q r False lr b by (auto simp: Let_def split: if_splits sum.splits)
    show ?thesis
    proof (cases "lr_redirect lr")
      case True
      with Cons.prems q r False lr b c' have "lookup_loop dbg parse_url limit base topic Rs
          (s\<lparr>ls_connection := c', ls_authoritative := lr_authoritative lr,
             ls_proxied_query := broker_proxy b\<rparr>) = Value (Inr a)"
        by (simp add: Let_def)
      from Cons.IH [OF this] ab show ?thesis by auto
    next
      case False
      with Cons.prems q r \<open>\<not> lookup_failed r\<close> lr b c' have "a = b" by (simp add: Let_def)
      with ab c' show ?thesis by auto
    qed
  qed
qed

lemma partition_number_loop_ends:
  assumes "limit = Some k" and "unat n \<le> unat k" and "unat k - unat n < length Rs"
  shows "partition_number_loop dbg limit topic Rs c n \<noteq> None"
  using assms
proof (induction Rs arbitrary: c n)
  case Nil
  then show ?case by simp
next
  case (Cons R Rs)
  obtain q c' where q: "query_partitions_with_reconnect dbg topic R c = (q, c')" by fastforce
  show ?case
  proof (cases "may_retry limit n")
    case True
    then have less: "unat n < unat k"
      using Cons.prems(1) by (simp add: may_retry_def word_less_nat_alt)
    with Cons.prems unat_Suc_below [OF less] Cons.IH [of "n + 1" c'] q show ?thesis
      by (auto split: sum.split option.split)
  next
    case False
    with q show ?thesis by (auto split: sum.split option.split)
  qed
qed

lemma partition_topics_distinct: "distinct (partition_topics topic n)"
proof -
  have "inj (\<lambda>i. topic @ ''-partition-'' @ show_nat i)"
    by (auto simp: inj_def dest: show_nat_inject)
  then show ?thesis
    by (auto simp: partition_topics_def distinct_map intro: inj_on_subset)
qed

lemma partition_topics_length:
  "length (partition_topics topic n) = (if n = 0 then 1 else unat n)"
  by (simp add: partition_topics_def)

lemma join_partitions:
  "try_join_all (map (\<lambda>t. map_option (\<lambda>r. bind_res r (\<lambda>a. Inr (t, a))) (lookup t)) ts) = Some (Inr xs) \<longleftrightarrow>
     map fst xs = ts \<and> map (\<lambda>x. lookup (fst x)) xs = map (\<lambda>x. Some (Inr (snd x))) xs"
  (is "try_join_all (map ?f ts) = _ \<longleftrightarrow> ?R")
proof
  assume "try_join_all (map ?f ts) = Some (Inr xs)"
  then have "map ?f ts = map (\<lambda>x. Some (Inr x)) xs" by (rule try_join_all_Inr)
  then show ?R
  proof (induction xs arbitrary: ts)
    case Nil
    then show ?case by simp
  next
    case (Cons x xs)
    then obtain t ts' where ts: "ts = t # ts'" by (cases ts) auto
    with Cons.prems have "?f t = Some (Inr x)" by simp
    then have "lookup t = Some (Inr (snd x)) \<and> fst x = t"
      by (cases "lookup t"; cases "the (lookup t)") auto
    with Cons.IH [of ts'] Cons.prems ts show ?case by simp
  qed
next
  assume R: ?R
  then have "lookup (fst x) = Some (Inr (snd x))" if "x \<in> set xs" for x
    using that by simp
  with R have "map ?f ts = map (\<lambda>x. Some (Inr x)) xs" by (auto simp: bind_res_def)
  then show "try_join_all (map ?f ts) = Some (Inr xs)" using try_join_all_ok [of "\<lambda>x. x"] by simp
qed

section \<open>Instances for concrete inputs\<close>

definition ex_answer :: "i32 \<Rightarrow> bool \<Rightarrow> pulsar_message" where
  "ex_answer kind proxy =
     bare (default_base_command
       \<lparr>command_type := command_type_code TLookupResponse,
        lookup_topic_response := Some
          \<lparr>ltr_broker_service_url = Some ''pulsar://b2'', ltr_broker_service_url_tls = None,
           ltr_response = Some kind, ltr_request_id = 0, ltr_authoritative = Some True,
           ltr_error = None, ltr_message = None, ltr_proxy_through_service_url = Some proxy\<rparr>\<rparr>)"

definition ex_parse :: "string \<Rightarrow> url option" where
  "ex_parse t =
     Some \<lparr>url_scheme = ''pulsar'', url_host = Some ''b2'', url_port = None, url_text = t\<rparr>"

definition ex_conn :: Connection where
  "ex_conn = \<lparr>conn_id = 1, conn_url = ex_url, conn_sender = connection_sender_new shared_error_new\<rparr>"

definition ex_round :: "i32 \<Rightarrow> bool \<Rightarrow> lookup_round" where
  "ex_round kind proxy =
     \<lparr>rd_answer = Answered (ex_answer kind proxy), rd_reconnect = Inl Shutdown,
      rd_second_answer = Elapsed, rd_connection = (\<lambda>a. Inr ex_conn)\<rparr>"

definition ex_lookup_address :: "string \<Rightarrow> BrokerAddress" where
  "ex_lookup_address t = \<lparr>broker_address_url = ex_url, broker_url = t, broker_proxy = False\<rparr>"

definition ex_state :: lookup_state where
  "ex_state =
     \<lparr>ls_connection = ex_conn, ls_proxied_query = False, ls_authoritative = False, ls_retries = 0\<rparr>"

lemma ex_query:
  assumes "channels_open (conn_sender (ls_connection s))"
  shows "\<exists>c. query_with_reconnect dbg t (ex_round kind proxy) s =
      (Inr (the (lookup_topic_response (command (ex_answer kind proxy)))), c)"
  using assms
  by (simp add: query_with_reconnect_def query_topic_def sender_lookup_topic_def next_request_id_eq
      send_message_def open_channel_def registrations_send_def tx_send_def channels_open_def
      ex_round_def extract_message_def ex_answer_def proto_simps)

lemma ex_conn_open: "channels_open (conn_sender ex_conn)"
  by (simp add: ex_conn_def channels_open_def connection_sender_new_def)

lemma ex_response:
  "convert_lookup_response ex_parse (the (lookup_topic_response (command (ex_answer kind proxy)))) =
     Inr \<lparr>lr_broker_url = ex_parse ''pulsar://b2'', lr_broker_url_tls = None, lr_proxy = proxy,
          lr_redirect = (kind = 0), lr_authoritative = True\<rparr>"
  "lookup_failed (the (lookup_topic_response (command (ex_answer kind proxy)))) \<longleftrightarrow> kind = 2"
  by (simp_all add: convert_lookup_response_def lookup_failed_def ex_answer_def ex_parse_def
      proto_simps Let_def)

lemma ex_redirected:
  "lookup_loop dbg ex_parse None ex_url ''t'' [ex_round 0 True, ex_round 1 False] ex_state =
     Value (Inr \<lparr>broker_address_url = ex_url, broker_url = ''b2:'' @ show_nat 6650, broker_proxy = True\<rparr>)"
proof -
  obtain c where c: "query_with_reconnect dbg ''t'' (ex_round 0 True) ex_state =
      (Inr (the (lookup_topic_response (command (ex_answer 0 True)))), c)"
    using ex_query [of ex_state dbg "''t''" 0 True] ex_conn_open by (auto simp: ex_state_def)
  let ?s = "ex_state\<lparr>ls_connection := ex_conn, ls_authoritative := True, ls_proxied_query := True\<rparr>"
  obtain c' where c': "query_with_reconnect dbg ''t'' (ex_round 1 False) ?s =
      (Inr (the (lookup_topic_response (command (ex_answer 1 False)))), c')"
    using ex_query [of ?s dbg "''t''" 1 False] ex_conn_open by auto
  have "rd_connection (ex_round k p) a = Inr ex_conn" for k p a by (simp add: ex_round_def)
  with c c' show ?thesis
    by (simp add: ex_response response_address_def host_port_def ex_parse_def ex_state_def Let_def)
qed

lemma ex_redirect_step:
  assumes "channels_open (conn_sender (ls_connection s))"
  shows "\<exists>s'. channels_open (conn_sender (ls_connection s')) \<and>
    lookup_loop dbg ex_parse limit ex_url t (ex_round 0 False # Rs) s =
      lookup_loop dbg ex_parse limit ex_url t Rs s'"
proof -
  obtain c where "query_with_reconnect dbg t (ex_round 0 False) s =
      (Inr (the (lookup_topic_response (command (ex_answer 0 False)))), c)"
    using ex_query [OF assms] by blast
  moreover have "rd_connection (ex_round k p) a = Inr ex_conn" for k p a by (simp add: ex_round_def)
  moreover have "response_address ex_url pq \<lparr>lr_broker_url = ex_parse ''pulsar://b2'',
      lr_broker_url_tls = None, lr_proxy = False, lr_redirect = True, lr_authoritative = True\<rparr> =
    Value (Inr \<lparr>broker_address_url = (if pq then ex_url else the (ex_parse ''pulsar://b2'')),
      broker_url = ''b2:'' @ show_nat 6650, broker_proxy = pq\<rparr>)" for pq
    by (simp add: response_address_def host_port_def ex_parse_def Let_def)
  ultimately show ?thesis
    by (intro exI [of _ "s\<lparr>ls_connection := ex_conn, ls_authoritative := True\<rparr>"])
      (simp add: ex_response ex_conn_open Let_def)
qed

lemma ex_redirects:
  assumes "channels_open (conn_sender (ls_connection s))"
  shows "lookup_loop dbg ex_parse limit ex_url t (replicate n (ex_round 0 False)) s = Unfinished"
  using assms
proof (induction n arbitrary: s)
  case 0
  then show ?case by simp
next
  case (Suc n)
  from ex_redirect_step [OF Suc.prems, of dbg limit t "replicate n (ex_round 0 False)"] Suc.IH
  show ?case by auto
qed

section \<open>Properties of the service discovery\<close>

text \<open>C30: proxies. Whatever redirects a lookup follows, an address it returns is one the manager could
  connect to; if it goes through a proxy it keeps the URL the client was configured with, and a
  lookup that was once sent through a proxy stays with it.\<close>

theorem lookup_address_sound:
  assumes "lookup_loop dbg parse_url limit base topic Rs s = Value (Inr a)"
  shows "(broker_proxy a \<longrightarrow> broker_address_url a = base) \<and> (ls_proxied_query s \<longrightarrow> broker_proxy a) \<and>
    (\<exists>R c. R \<in> set Rs \<and> rd_connection R a = Inr c)"
  using assms by (rule lookup_loop_address)

theorem lookup_address_sound_witness:
  "broker_address_url \<lparr>broker_address_url = ex_url, broker_url = ''b2:'' @ show_nat 6650, broker_proxy = True\<rparr> =
     ex_url \<and>
   (\<exists>R c. R \<in> set [ex_round 0 True, ex_round 1 False] \<and> rd_connection R
     \<lparr>broker_address_url = ex_url, broker_url = ''b2:'' @ show_nat 6650, broker_proxy = True\<rparr> = Inr c)"
  using lookup_address_sound [OF ex_redirected [of "\<lambda>c. ''''"]] by simp

text \<open>Redirects are followed without a bound. Brokers that answer every lookup with a redirect keep
  the lookup going: after any number of such rounds it has no result and no error.\<close>

theorem redirects_unbounded:
  "lookup_loop dbg ex_parse limit ex_url topic (replicate n (ex_round 0 False)) ex_state = Unfinished"
  by (rule ex_redirects) (simp add: ex_state_def ex_conn_open)

text \<open>C31: Partitions. Of a topic with \<open>k\<close> partitions a lookup returns the names \<open>topic-partition-0\<close> up to
  \<open>topic-partition-(k - 1)\<close>, in this order and all different, each with the address that the lookup of that name
  gave; of a topic without partitions, the topic itself. It returns so exactly if every one of these
  lookups gives an address.\<close>

theorem partitions_complete:
  "discovery_lookup_partitioned_topic (Some (Inr k)) lookup topic = Some (Inr xs) \<longleftrightarrow>
     map fst xs = (if k = 0 then [topic] else map (\<lambda>n. topic @ ''-partition-'' @ show_nat n) [0..<unat k]) \<and>
     distinct (map fst xs) \<and> map (\<lambda>x. lookup (fst x)) xs = map (\<lambda>x. Some (Inr (snd x))) xs"
proof -
  have "discovery_lookup_partitioned_topic (Some (Inr k)) lookup topic = Some (Inr xs) \<longleftrightarrow>
     map fst xs = partition_topics topic k \<and> map (\<lambda>x. lookup (fst x)) xs = map (\<lambda>x. Some (Inr (snd x))) xs"
    using join_partitions [of lookup "partition_topics topic k" xs]
    by (simp add: discovery_lookup_partitioned_topic_def)
  moreover have "(A \<longleftrightarrow> names = P \<and> R) \<Longrightarrow> distinct P \<Longrightarrow> (A \<longleftrightarrow> names = P \<and> distinct names \<and> R)"
    for A R and names P :: "string list" by auto
  ultimately show ?thesis using partition_topics_distinct [of topic k] unfolding partition_topics_def by blast
qed

theorem partitions_complete_witness:
  "discovery_lookup_partitioned_topic (Some (Inr 2)) (\<lambda>t. Some (Inr (ex_lookup_address t))) ''t'' =
     Some (Inr [(''t-partition-0'', ex_lookup_address ''t-partition-0''),
       (''t-partition-1'', ex_lookup_address ''t-partition-1'')])"
proof -
  have "[0..<unat (2 :: u32)] = [0, 1]" by (simp add: upt_rec)
  moreover have "show_nat 0 = ''0''" "show_nat 1 = ''1''"
    by code_simp+
  ultimately show ?thesis unfolding partitions_complete by simp
qed

text \<open>The number of partitions. With a limit on the retries the loop that asks for the number of
  partitions ends with a result or an error, however long the broker is not ready.\<close>

theorem partition_number_found:
  assumes "op_max_retries (mgr_operation_retry M) = Some limit" and "unat limit < length Rs"
  shows "\<exists>r. lookup_partitioned_topic_number dbg M topic base Rs = Some r"
  using partition_number_loop_ends [OF assms(1), of 0 Rs] assms(2)
  by (auto simp: lookup_partitioned_topic_number_def split: sum.split)

theorem partition_number_found_witness:
  "\<exists>r. lookup_partitioned_topic_number (\<lambda>c. '''')
     (ex_manager\<lparr>mgr_operation_retry := \<lparr>op_timeout = 30000, op_retry_delay = 500, op_max_retries = Some 1\<rparr>\<rparr>)
     ''t'' (Inr ex_conn)
     (replicate 2 \<lparr>pr_answer = Elapsed, pr_reconnect = Inl Shutdown, pr_second_answer = Elapsed\<rparr>) = Some r"
  by (rule partition_number_found [where limit = 1]) simp_all

end
