(* ===== verification/Consumer.thy ===== *)
theory Consumer
  imports Engine Discovery
begin

text \<open>
  \<open>TopicConsumer\<close> of \<open>src/consumer.rs\<close>: the handle of a consumer of one topic. Creating it
  subscribes on the broker, with retries while the broker is not ready, grants the first permits
  and starts the engine; its operations are messages to the engine or requests on the engine's
  connection; polling it yields the messages the engine forwarded.

  The channel from the engine is the list of what is in it and whether its sender is gone. The
  channel to the engine is the list of what was sent on it and whether its receiver still lives.
  An operation that asks the engine for its connection gets the engine's answer as an argument,
  \<open>None\<close> if the engine dropped the request, and returns that connection with what was sent on it.
\<close>

section \<open>State\<close>

record ConsumerConfig =
  cc_subscription :: string
  cc_sub_type :: sub_type
  cc_batch_size :: "u32 option"
  cc_consumer_name :: "string option"
  cc_consumer_id :: "u64 option"
  cc_redelivery_delay :: "nat option"
  cc_options :: ConsumerOptions
  cc_dead_letter_policy :: "DeadLetterPolicy option"

record ConsMessage =
  cm_topic :: string
  cm_payload :: payload
  cm_message_id :: MessageData

type_synonym channel_item = "(pulsar_error, message_id_data \<times> payload) res"

record TopicConsumer =
  tc_consumer_id :: u64
  tc_config :: ConsumerConfig
  tc_topic :: string
  tc_messages :: "channel_item list"
  tc_closed :: bool
  tc_engine_tx :: "EngineMessage list"
  tc_engine_open :: bool
  tc_dead_letter_policy :: "DeadLetterPolicy option"
  tc_last_message_received :: "nat option"
  tc_messages_received :: u64

section \<open>Messages\<close>

definition cm_metadata :: "ConsMessage \<Rightarrow> message_metadata" where
  "cm_metadata m = metadata (cm_payload m)"

definition cm_id :: "ConsMessage \<Rightarrow> message_id_data" where
  "cm_id m = md_id (cm_message_id m)"

definition cm_key :: "ConsMessage \<Rightarrow> string option" where
  "cm_key m = partition_key (metadata (cm_payload m))"

definition create_message :: "TopicConsumer \<Rightarrow> message_id_data \<Rightarrow> payload \<Rightarrow> ConsMessage" where
  "create_message c i p =
     \<lparr>cm_topic = tc_topic c, cm_payload = p,
      cm_message_id = \<lparr>md_id = i, md_batch_size = num_messages_in_batch (metadata p)\<rparr>\<rparr>"

section \<open>Creation\<close>

text \<open>What creating a consumer meets: the connection for the address it was given, the answers to the
  attempts to subscribe, the random consumer number, the channel of the subscription, and
  whether the executor takes the two tasks.\<close>

record subscribe_attempt =
  sa_response :: "pulsar_message awaited"
  sa_relocation :: relocation

record consumer_env =
  ce_dbg :: "base_command \<Rightarrow> string"
  ce_connection :: "BrokerAddress \<Rightarrow> (connection_error, Connection) res option"
  ce_retry :: OperationRetryOptions
  ce_attempts :: "subscribe_attempt list"
  ce_random_id :: u64
  ce_channel :: nat
  ce_spawn_ticker :: bool
  ce_spawn_engine :: bool

definition subscribe_once ::
  "(base_command \<Rightarrow> string) \<Rightarrow> nat \<Rightarrow> string \<Rightarrow> u64 \<Rightarrow> ConsumerConfig \<Rightarrow> subscribe_attempt \<Rightarrow> Connection
     \<Rightarrow> (connection_error, command_success) res option \<times> Connection" where
  "subscribe_once dbg resolver topic consumer_id config a c =
     (case sender_subscribe dbg resolver topic (cc_subscription config) (cc_sub_type config) consumer_id
             (cc_consumer_name config) (cc_options config) (sa_response a) (conn_sender c) of
        (r, s) \<Rightarrow> (Some r, c\<lparr>conn_sender := s\<rparr>))"

definition subscribe_relocate ::
  "subscribe_attempt \<Rightarrow> Connection \<Rightarrow> (pulsar_error, unit) res option \<times> Connection" where
  "subscribe_relocate a c =
     (case relocate (sa_relocation a) of
        None \<Rightarrow> (None, c)
      | Some (Inl err) \<Rightarrow> (Some (Inl err), c)
      | Some (Inr c) \<Rightarrow> (Some (Inr ()), c))"

text \<open>The result is the handle and the engine that runs behind it.\<close>

definition topic_consumer_new ::
  "consumer_env \<Rightarrow> string \<Rightarrow> BrokerAddress \<Rightarrow> ConsumerConfig
     \<Rightarrow> (pulsar_error, TopicConsumer \<times> ConsumerEngine) res option" where
  "topic_consumer_new E topic addr config =
     (let consumer_id = (case cc_consumer_id config of None \<Rightarrow> ce_random_id E | Some i \<Rightarrow> i);
          bsize = (case cc_batch_size config of None \<Rightarrow> 1000 | Some n \<Rightarrow> n)
      in
      case ce_connection E addr of
        None \<Rightarrow> None
      | Some (Inl err) \<Rightarrow> Some (Inl (EConnection err))
      | Some (Inr c) \<Rightarrow>
          (case retry_loop (op_max_retries (ce_retry E))
                  (subscribe_once (ce_dbg E) (ce_channel E) topic consumer_id config)
                  subscribe_relocate 0 (ce_attempts E) c of
             (None, c) \<Rightarrow> None
           | (Some (Inl err), c) \<Rightarrow> Some (Inl err)
           | (Some (Inr _), c) \<Rightarrow>
               (case send_flow consumer_id bsize (conn_sender c) of
                  (Inl err, s) \<Rightarrow> Some (Inl (EConsumer (ConsConnection err)))
                | (Inr _, s) \<Rightarrow>
                    (if cc_redelivery_delay config \<noteq> None \<and> \<not> ce_spawn_ticker E
                     then Some (Inl EExecutor)
                     else if \<not> ce_spawn_engine E then Some (Inl EExecutor)
                     else Some (Inr
                       (\<lparr>tc_consumer_id = consumer_id, tc_config = config, tc_topic = topic,
                         tc_messages = [], tc_closed = False, tc_engine_tx = [],
                         tc_engine_open = True,
                         tc_dead_letter_policy = cc_dead_letter_policy config,
                         tc_last_message_received = None, tc_messages_received = 0\<rparr>,
                        engine_new (c\<lparr>conn_sender := s\<rparr>) topic (cc_subscription config)
                          (cc_sub_type config) consumer_id (cc_consumer_name config)
                          (ce_channel E) bsize (cc_redelivery_delay config)
                          (cc_dead_letter_policy config) (cc_options config)))))))"

text \<open>The task that closes the consumer on the broker when the engine is gone: a signal that is sent
  instead of dropped tells it that a reconnection has replaced it.\<close>

definition close_task ::
  "(base_command \<Rightarrow> string) \<Rightarrow> bool \<Rightarrow> u64 \<Rightarrow> pulsar_message awaited \<Rightarrow> Connection \<Rightarrow> Connection" where
  "close_task dbg signal_lost consumer_id response c =
     (if signal_lost
      then c\<lparr>conn_sender := snd (sender_close_consumer dbg consumer_id response (conn_sender c))\<rparr>
      else c)"

section \<open>Operations\<close>

definition engine_send :: "EngineMessage \<Rightarrow> TopicConsumer \<Rightarrow> bool \<times> TopicConsumer" where
  "engine_send m c =
     (if tc_engine_open c then (True, c\<lparr>tc_engine_tx := tc_engine_tx c @ [m]\<rparr>) else (False, c))"

text \<open>A failed send on an unbounded channel is never a full channel.\<close>

definition tell_engine :: "EngineMessage \<Rightarrow> TopicConsumer \<Rightarrow> (consumer_error, unit) res \<times> TopicConsumer"
where
  "tell_engine m c =
     (case engine_send m c of
        (sent, c) \<Rightarrow> (if sent then Inr () else Inl (consumer_error_from_send False), c))"

definition tc_ack :: "ConsMessage \<Rightarrow> TopicConsumer \<Rightarrow> (consumer_error, unit) res \<times> TopicConsumer" where
  "tc_ack m c = tell_engine (EngineAck (cm_message_id m) False) c"

definition tc_cumulative_ack ::
  "ConsMessage \<Rightarrow> TopicConsumer \<Rightarrow> (consumer_error, unit) res \<times> TopicConsumer" where
  "tc_cumulative_ack m c = tell_engine (EngineAck (cm_message_id m) True) c"

definition tc_nack :: "ConsMessage \<Rightarrow> TopicConsumer \<Rightarrow> (consumer_error, unit) res \<times> TopicConsumer" where
  "tc_nack m c = tell_engine (EngineNack (cm_message_id m)) c"

text \<open>\<open>ch\<close> is the one-shot channel of the request.\<close>

definition tc_connection ::
  "nat \<Rightarrow> Connection option \<Rightarrow> TopicConsumer \<Rightarrow> (pulsar_error, Connection) res \<times> TopicConsumer" where
  "tc_connection ch answer c =
     (case engine_send (GetConnection ch) c of
        (False, c) \<Rightarrow> (Inl (EConsumer (ConsConnection Disconnected)), c)
      | (True, c) \<Rightarrow>
          (case answer of
             None \<Rightarrow> (Inl (EConnection Disconnected), c)
           | Some conn \<Rightarrow> (Inr conn, c)))"

text \<open>An operation on the connection of the engine.\<close>

definition on_engine_connection ::
  "(ConnectionSender \<Rightarrow> (connection_error, 'r) res \<times> ConnectionSender) \<Rightarrow> nat \<Rightarrow> Connection option
     \<Rightarrow> TopicConsumer \<Rightarrow> (pulsar_error, 'r) res \<times> Connection option \<times> TopicConsumer" where
  "on_engine_connection f ch answer c =
     (case tc_connection ch answer c of
        (Inl err, c) \<Rightarrow> (Inl err, answer, c)
      | (Inr conn, c) \<Rightarrow>
          (case f (conn_sender conn) of
             (r, s) \<Rightarrow> (map_err EConnection r, Some (conn\<lparr>conn_sender := s\<rparr>), c)))"

definition tc_get_stats ::
  "(base_command \<Rightarrow> string) \<Rightarrow> pulsar_message awaited \<Rightarrow> nat \<Rightarrow> Connection option \<Rightarrow> TopicConsumer
     \<Rightarrow> (pulsar_error, command_consumer_stats_response) res \<times> Connection option \<times> TopicConsumer" where
  "tc_get_stats dbg response ch answer c =
     on_engine_connection (sender_get_consumer_stats dbg (tc_consumer_id c) response) ch answer c"

definition tc_check_connection ::
  "unit awaited \<Rightarrow> nat \<Rightarrow> Connection option \<Rightarrow> TopicConsumer
     \<Rightarrow> (pulsar_error, unit) res \<times> Connection option \<times> TopicConsumer" where
  "tc_check_connection response ch answer c = on_engine_connection (send_ping response) ch answer c"

definition tc_seek ::
  "(base_command \<Rightarrow> string) \<Rightarrow> message_id_data option \<Rightarrow> u64 option \<Rightarrow> pulsar_message awaited \<Rightarrow> nat
     \<Rightarrow> Connection option \<Rightarrow> TopicConsumer
     \<Rightarrow> (pulsar_error, unit) res \<times> Connection option \<times> TopicConsumer" where
  "tc_seek dbg message_id timestamp response ch answer c =
     (case on_engine_connection (sender_seek dbg (tc_consumer_id c) message_id timestamp response)
             ch answer c of
        (r, conn, c) \<Rightarrow> (bind_res r (\<lambda>_. Inr ()), conn, c))"

definition tc_unsubscribe ::
  "(base_command \<Rightarrow> string) \<Rightarrow> pulsar_message awaited \<Rightarrow> nat \<Rightarrow> Connection option \<Rightarrow> TopicConsumer
     \<Rightarrow> (pulsar_error, unit) res \<times> Connection option \<times> TopicConsumer" where
  "tc_unsubscribe dbg response ch answer c =
     (case on_engine_connection (sender_unsubscribe dbg (tc_consumer_id c) response) ch answer c of
        (r, conn, c) \<Rightarrow> (bind_res r (\<lambda>_. Inr ()), conn, c))"

definition tc_get_last_message_id ::
  "(base_command \<Rightarrow> string) \<Rightarrow> pulsar_message awaited \<Rightarrow> nat \<Rightarrow> Connection option \<Rightarrow> TopicConsumer
     \<Rightarrow> (pulsar_error, message_id_data) res \<times> Connection option \<times> TopicConsumer" where
  "tc_get_last_message_id dbg response ch answer c =
     (case on_engine_connection (sender_get_last_message_id dbg (tc_consumer_id c) response)
             ch answer c of
        (r, conn, c) \<Rightarrow> (bind_res r (\<lambda>x. Inr (glmr_last_message_id x)), conn, c))"

section \<open>Polling\<close>

definition tc_poll_next ::
  "nat \<Rightarrow> TopicConsumer \<Rightarrow> (pulsar_error, ConsMessage) res option poll \<times> TopicConsumer" where
  "tc_poll_next now c =
     (case tc_messages c of
        [] \<Rightarrow> (if tc_closed c then Ready None else Pending, c)
      | Inr (i, p) # xs \<Rightarrow>
          (Ready (Some (Inr (create_message c i p))),
           c\<lparr>tc_messages := xs, tc_last_message_received := Some now,
             tc_messages_received := tc_messages_received c + 1\<rparr>)
      | Inl err # xs \<Rightarrow> (Ready (Some (Inl err)), c\<lparr>tc_messages := xs\<rparr>))"

text \<open>Polling several times, until the stream has nothing ready.\<close>

fun tc_polls ::
  "nat list \<Rightarrow> TopicConsumer \<Rightarrow> (pulsar_error, ConsMessage) res list \<times> TopicConsumer" where
  "tc_polls [] c = ([], c)"
| "tc_polls (now # ts) c =
     (case tc_poll_next now c of
        (Ready (Some r), c) \<Rightarrow> (case tc_polls ts c of (rs, c) \<Rightarrow> (r # rs, c))
      | (_, c) \<Rightarrow> ([], c))"

section \<open>Lemmas\<close>

definition yielded :: "TopicConsumer \<Rightarrow> channel_item \<Rightarrow> (pulsar_error, ConsMessage) res" where
  "yielded c x = (case x of Inl err \<Rightarrow> Inl err | Inr (i, p) \<Rightarrow> Inr (create_message c i p))"

lemma tc_poll_next_cases [case_names Idle Ended Item]:
  obtains
    (Idle) "tc_messages c = []" "\<not> tc_closed c" "tc_poll_next now c = (Pending, c)"
  | (Ended) "tc_messages c = []" "tc_closed c" "tc_poll_next now c = (Ready None, c)"
  | (Item) x xs where "tc_messages c = x # xs"
      "tc_poll_next now c = (Ready (Some (yielded c x)),
         c\<lparr>tc_messages := xs,
           tc_last_message_received := (if is_ok x then Some now else tc_last_message_received c),
           tc_messages_received := tc_messages_received c + (if is_ok x then 1 else 0)\<rparr>)"
proof (cases "tc_messages c")
  case Nil
  then show thesis using Idle Ended by (cases "tc_closed c") (simp_all add: tc_poll_next_def)
next
  case (Cons x xs)
  then show thesis
    using Item by (cases x) (auto simp: tc_poll_next_def yielded_def is_ok_def)
qed

lemma yielded_updates [simp]:
  "yielded (c\<lparr>tc_messages := xs, tc_last_message_received := t, tc_messages_received := n\<rparr>) x = yielded c x"
  by (simp add: yielded_def create_message_def split: sum.split prod.split)

lemma tc_polls_exact:
  "length ts \<le> length (tc_messages c) \<Longrightarrow>
     fst (tc_polls ts c) = map (yielded c) (take (length ts) (tc_messages c)) \<and>
     tc_messages (snd (tc_polls ts c)) = drop (length ts) (tc_messages c) \<and>
     tc_messages_received (snd (tc_polls ts c)) =
       tc_messages_received c + of_nat (length (filter is_ok (take (length ts) (tc_messages c))))"
proof (induction ts arbitrary: c)
  case Nil
  show ?case by simp
next
  case (Cons now ts)
  then obtain x xs where x: "tc_messages c = x # xs" by (cases "tc_messages c") auto
  obtain c1 where p: "tc_poll_next now c = (Ready (Some (yielded c x)), c1)"
    and c1: "tc_messages c1 = xs" "\<And>y. yielded c1 y = yielded c y"
      "tc_messages_received c1 = tc_messages_received c + (if is_ok x then 1 else 0)"
    by (rule tc_poll_next_cases [of c now]) (use x in auto)
  obtain rs c2 where "tc_polls ts c1 = (rs, c2)" by fastforce
  with Cons.IH [of c1] Cons.prems x p c1 show ?case by (simp add: ac_simps)
qed

lemma sender_subscribe_registers:
  assumes "sender_subscribe dbg ch topic sub st i name options w s = (Inr r, s')"
  shows "RegConsumer i ch \<in> set (cs_registrations s')"
  using assms
  by (auto simp: sender_subscribe_def next_request_id_eq registrations_send_def send_message_def
      open_channel_def tx_send_def Let_def split: if_splits awaited.splits)

lemma send_flow_Inr:
  "send_flow i k s = (Inr u, s') \<Longrightarrow> s' = s\<lparr>cs_tx := cs_tx s @ [messages_flow i k]\<rparr>"
  by (auto simp: send_flow_def tx_send_def split: if_splits)

lemma topic_consumer_new_Inr:
  assumes "topic_consumer_new E topic addr config = Some (Inr (c, e))"
  obtains i n conn s where "i = (case cc_consumer_id config of None \<Rightarrow> ce_random_id E | Some j \<Rightarrow> j)"
    "n = (case cc_batch_size config of None \<Rightarrow> 1000 | Some k \<Rightarrow> k)"
    "RegConsumer i (ce_channel E) \<in> set (cs_registrations (conn_sender conn))"
    "send_flow i n (conn_sender conn) = (Inr (), s)"
    "tc_consumer_id c = i" "tc_topic c = topic" "tc_config c = config" "tc_engine_open c"
    "tc_engine_tx c = []" "tc_messages c = []" "\<not> tc_closed c" "tc_messages_received c = 0"
    "e = engine_new (conn\<lparr>conn_sender := s\<rparr>) topic (cc_subscription config) (cc_sub_type config) i
       (cc_consumer_name config) (ce_channel E) n (cc_redelivery_delay config)
       (cc_dead_letter_policy config) (cc_options config)"
proof -
  let ?i = "case cc_consumer_id config of None \<Rightarrow> ce_random_id E | Some j \<Rightarrow> j"
  let ?n = "case cc_batch_size config of None \<Rightarrow> 1000 | Some k \<Rightarrow> k"
  obtain c0 where c0: "ce_connection E addr = Some (Inr c0)"
    using assms by (auto simp: topic_consumer_new_def Let_def split: option.splits sum.splits)
  obtain r conn where l: "retry_loop (op_max_retries (ce_retry E))
      (subscribe_once (ce_dbg E) (ce_channel E) topic ?i config) subscribe_relocate 0 (ce_attempts E) c0 =
      (r, conn)" by fastforce
  with assms c0 obtain x where x: "r = Some (Inr x)"
    by (auto simp: topic_consumer_new_def Let_def split: option.splits sum.splits)
  obtain q s where fl: "send_flow ?i ?n (conn_sender conn) = (q, s)" by fastforce
  with assms c0 l x have q: "q = Inr ()"
    by (cases q) (simp_all add: topic_consumer_new_def)
  from retry_loop_success [OF l [unfolded x]] obtain a c1 where
    "subscribe_once (ce_dbg E) (ce_channel E) topic ?i config a c1 = (Some (Inr x), conn)" by blast
  then have "RegConsumer ?i (ce_channel E) \<in> set (cs_registrations (conn_sender conn))"
    by (auto simp: subscribe_once_def dest: sender_subscribe_registers split: prod.splits)
  with assms c0 l x fl q show thesis
    by (intro that [of ?i ?n conn s]) (auto simp: topic_consumer_new_def Let_def split: if_splits)
qed

section \<open>Instances for concrete inputs\<close>

definition ex_subscribed :: subscribe_attempt where
  "ex_subscribed =
     \<lparr>sa_response = Answered (ex_success 0),
      sa_relocation = \<lparr>rl_lookup = Some (Inl SdNotFound), rl_connection = (\<lambda>a. Some (Inl Shutdown))\<rparr>\<rparr>"

definition ex_consumer_env :: consumer_env where
  "ex_consumer_env =
     \<lparr>ce_dbg = (\<lambda>c. ''''), ce_connection = (\<lambda>a. Some (Inr ex_conn)),
      ce_retry = operation_retry_options_default\<lparr>op_max_retries := Some 1\<rparr>,
      ce_attempts = [ex_subscribed, ex_subscribed], ce_random_id = 9, ce_channel = 5,
      ce_spawn_ticker = True, ce_spawn_engine = True\<rparr>"

definition ex_config :: ConsumerConfig where
  "ex_config =
     \<lparr>cc_subscription = ''s'', cc_sub_type = Shared, cc_batch_size = Some 10,
      cc_consumer_name = None, cc_consumer_id = Some 2, cc_redelivery_delay = None,
      cc_options = consumer_options_default, cc_dead_letter_policy = None\<rparr>"

definition ex_address :: BrokerAddress where
  "ex_address = \<lparr>broker_address_url = ex_url, broker_url = ''b'', broker_proxy = False\<rparr>"

definition ex_created_consumer :: "TopicConsumer \<times> ConsumerEngine" where
  "ex_created_consumer = projr (the (topic_consumer_new ex_consumer_env ''t'' ex_address ex_config))"

lemma ex_creation_consumer:
  "topic_consumer_new ex_consumer_env ''t'' ex_address ex_config =
     Some (Inr (fst ex_created_consumer, snd ex_created_consumer))"
  unfolding ex_created_consumer_def
  by (simp add: topic_consumer_new_def ex_consumer_env_def ex_config_def ex_subscribed_def
      subscribe_once_def sender_subscribe_def next_request_id_eq registrations_send_def
      send_message_def open_channel_def tx_send_def ex_conn_def connection_sender_new_def
      extract_message_def ex_success_def send_flow_def proto_simps)

section \<open>Properties of the consumer of a topic\<close>

text \<open>C27: How a consumer starts. A consumer that is created has subscribed with the channel on which its
  engine listens, under the number it has, and the last thing sent on its connection is a grant
  of exactly the permits the engine counts with: the configured batch size, or 1000.\<close>

theorem consumer_starts_balanced:
  assumes "topic_consumer_new E topic addr config = Some (Inr (c, e))"
  shows "RegConsumer (tc_consumer_id c) (ce_channel E)
      \<in> set (cs_registrations (conn_sender (e_connection e))) \<and>
    listening e = Some (ce_channel E) \<and> e_id e = tc_consumer_id c \<and>
    (\<exists>ms. engine_tx e = ms @ [messages_flow (tc_consumer_id c) (e_remaining_messages e)]) \<and>
    e_remaining_messages e = e_batch_size e \<and>
    e_batch_size e = (case cc_batch_size config of None \<Rightarrow> 1000 | Some n \<Rightarrow> n)"
  using assms
  by (rule topic_consumer_new_Inr)
    (auto simp: engine_new_def listening_def engine_tx_def dest!: send_flow_Inr)

theorem consumer_starts_balanced_witness:
  "RegConsumer (tc_consumer_id (fst ex_created_consumer)) (ce_channel ex_consumer_env)
      \<in> set (cs_registrations (conn_sender (e_connection (snd ex_created_consumer)))) \<and>
   listening (snd ex_created_consumer) = Some (ce_channel ex_consumer_env) \<and>
   e_id (snd ex_created_consumer) = tc_consumer_id (fst ex_created_consumer) \<and>
   (\<exists>ms. engine_tx (snd ex_created_consumer) =
      ms @ [messages_flow (tc_consumer_id (fst ex_created_consumer))
              (e_remaining_messages (snd ex_created_consumer))]) \<and>
   e_remaining_messages (snd ex_created_consumer) = e_batch_size (snd ex_created_consumer) \<and>
   e_batch_size (snd ex_created_consumer) =
     (case cc_batch_size ex_config of None \<Rightarrow> 1000 | Some n \<Rightarrow> n)"
  by (rule consumer_starts_balanced [OF ex_creation_consumer])

text \<open>Subscribing ends. With a limit on the retries, creating a consumer has a result after at most
  one attempt more than the limit, whatever the broker answers, as long as the lookups and
  connections it asks for end.\<close>

theorem consumer_creation_terminates:
  assumes "op_max_retries (ce_retry E) = Some k" and "unat k < length (ce_attempts E)"
    and "ce_connection E addr \<noteq> None"
    and "list_all (\<lambda>a. relocate (sa_relocation a) \<noteq> None) (ce_attempts E)"
  shows "topic_consumer_new E topic addr config \<noteq> None"
proof (cases "\<exists>c. ce_connection E addr = Some (Inr c)")
  case False
  then show ?thesis using assms(3) by (auto simp: topic_consumer_new_def Let_def split: option.splits sum.splits)
next
  case True
  then obtain c where Inr: "ce_connection E addr = Some (Inr c)" by blast
  let ?i = "case cc_consumer_id config of None \<Rightarrow> ce_random_id E | Some j \<Rightarrow> j"
  have steps: "list_all (\<lambda>a. \<forall>s. fst (subscribe_once (ce_dbg E) (ce_channel E) topic ?i config a s) \<noteq> None \<and>
      fst (subscribe_relocate a s) \<noteq> None) (ce_attempts E)"
    using assms(4)
    by (auto simp: list_all_iff subscribe_once_def subscribe_relocate_def
        split: prod.splits option.splits sum.splits)
  obtain r conn where l: "retry_loop (op_max_retries (ce_retry E))
      (subscribe_once (ce_dbg E) (ce_channel E) topic ?i config) subscribe_relocate 0 (ce_attempts E) c =
      (r, conn)" by fastforce
  with retry_loop_bounded [OF assms(1), of 0 "ce_attempts E"
      "subscribe_once (ce_dbg E) (ce_channel E) topic ?i config" subscribe_relocate c] assms(2) steps
  obtain x where "r = Some x" by (cases r) auto
  with Inr l show ?thesis
    by (auto simp: topic_consumer_new_def Let_def split: sum.split prod.split)
qed

theorem consumer_creation_terminates_witness:
  "topic_consumer_new ex_consumer_env ''t'' ex_address ex_config \<noteq> None"
  by (rule consumer_creation_terminates [where k = 1])
    (simp_all add: ex_consumer_env_def ex_subscribed_def relocate_def)

text \<open>The stream of a consumer. As long as the engine has forwarded enough, polling yields exactly
  what it forwarded, in order, messages under the name of the topic and errors as they are, and
  counts the messages (the 64-bit counter wraps around).\<close>

theorem consumer_stream_exact:
  assumes "length ts \<le> length (tc_messages c)"
  shows "fst (tc_polls ts c) = map (yielded c) (take (length ts) (tc_messages c)) \<and>
    tc_messages (snd (tc_polls ts c)) = drop (length ts) (tc_messages c) \<and>
    tc_messages_received (snd (tc_polls ts c)) =
      tc_messages_received c + of_nat (length (filter is_ok (take (length ts) (tc_messages c))))"
  using assms by (rule tc_polls_exact)

definition ex_consumer :: TopicConsumer where
  "ex_consumer = (fst ex_created_consumer)
     \<lparr>tc_messages := [Inl (ECustom ''e''), Inr (MessageIdData 1 7 None None [] None None,
        \<lparr>metadata = default_message_metadata, data = [1]\<rparr>)]\<rparr>"

theorem consumer_stream_exact_witness:
  "fst (tc_polls [3, 4] ex_consumer) =
     map (yielded ex_consumer) (take (length [3, 4 :: nat]) (tc_messages ex_consumer)) \<and>
   tc_messages (snd (tc_polls [3, 4] ex_consumer)) = drop (length [3, 4 :: nat]) (tc_messages ex_consumer) \<and>
   tc_messages_received (snd (tc_polls [3, 4] ex_consumer)) = tc_messages_received ex_consumer +
     of_nat (length (filter is_ok (take (length [3, 4 :: nat]) (tc_messages ex_consumer))))"
  by (rule consumer_stream_exact) (simp add: ex_consumer_def)

end
