(* ===== verification/Session.thy ===== *)
theory Session
  imports Framing Consumer
begin

text \<open>
  One subscription from the socket to the application: the framed transport, the receiver task, the
  engine task and the consumer handle running side by side, with the channels between them. The steps
  of the system are the operations of the components, in any order; an abstract queue says what
  the application may see.

  The first part collects what one turn of a working engine does, whatever it waits for: what it
  forwards, what it acknowledges and how the window moves.
\<close>

section \<open>What a turn of the engine does\<close>

definition acks_of :: "pulsar_message list \<Rightarrow> pulsar_message list" where
  "acks_of ms = filter (\<lambda>m. ack (command m) \<noteq> None) ms"

lemma acks_of_simps [simp]:
  "acks_of [] = []"
  "acks_of (xs @ ys) = acks_of xs @ acks_of ys"
  "acks_of [messages_flow i k] = []"
  "acks_of [messages_ack i ids cum] = [messages_ack i ids cum]"
  "acks_of [messages_redeliver_unacknowleged_messages i ids] = []"
  by (simp_all add: acks_of_def proto_simps)

text \<open>An engine that works: its connection is up and it listens on a channel.\<close>

definition working :: "ConsumerEngine \<Rightarrow> bool" where
  "working e \<longleftrightarrow> healthy e \<and> listening e \<noteq> None"

text \<open>The messages a batch iterator gives, and with them all that is forwarded for a message of the
  broker: its messages, or the error it is unpacked with.\<close>

function iterator_items :: "BatchedMessageIterator \<Rightarrow> (message_id_data \<times> payload) list" where
  "iterator_items it =
     (case iterator_next it of None \<Rightarrow> [] | Some (x, it) \<Rightarrow> x # iterator_items it)"
  by pat_completeness auto
termination
  by (relation "measure (\<lambda>it. length (it_messages it))") (auto dest: iterator_next_shrinks)

declare iterator_items.simps [simp del]

definition payload_items :: "engine_env \<Rightarrow> command_message \<Rightarrow> payload \<Rightarrow> channel_item list" where
  "payload_items E m p =
     (case decompress (ee_codecs E) (ee_show_i32 E) p of
        Inl err \<Rightarrow> [Inl err]
      | Inr p \<Rightarrow>
          (case num_messages_in_batch (metadata p) of
             Some n \<Rightarrow>
               (case iterator_new (ee_wire E) (ee_prost E) (msg_message_id m) n p of
                  Inl err \<Rightarrow> [Inl (EConnection err)]
                | Inr it \<Rightarrow> map Inr (iterator_items it))
           | None \<Rightarrow> [Inr (msg_message_id m, p)]))"

definition ends_topic :: "pulsar_message \<Rightarrow> bool" where
  "ends_topic msg \<longleftrightarrow> reached_end_of_topic (command msg) \<noteq> None"

definition forwards :: "engine_env \<Rightarrow> pulsar_message \<Rightarrow> channel_item list" where
  "forwards E msg =
     (if ends_topic msg \<or> active_consumer_change (command msg) \<noteq> None then []
      else case (message (command msg), payload msg) of
        (Some m, Some p) \<Rightarrow> payload_items E m p
      | _ \<Rightarrow> [])"

text \<open>A message that does not exhaust the redeliveries of a dead letter policy.\<close>

definition deliverable :: "DeadLetterPolicy option \<Rightarrow> pulsar_message \<Rightarrow> bool" where
  "deliverable policy msg =
     (case (policy, message (command msg)) of
        (Some pol, Some m) \<Rightarrow>
          (case msg_redelivery_count m of None \<Rightarrow> True | Some n \<Rightarrow> unat n < max_redeliver_count pol)
      | _ \<Rightarrow> True)"

text \<open>What turns do not change: who the engine is and whether its consumer listens.\<close>

definition same_engine :: "ConsumerEngine \<Rightarrow> ConsumerEngine \<Rightarrow> bool" where
  "same_engine e e' \<longleftrightarrow>
     e_tx_open e' = e_tx_open e \<and> e_dead_letter_policy e' = e_dead_letter_policy e \<and> e_id e' = e_id e"

lemma same_engine_refl [simp]: "same_engine e e"
  by (simp add: same_engine_def)

lemma same_engine_trans: "same_engine a b \<Longrightarrow> same_engine b c \<Longrightarrow> same_engine a c"
  by (simp add: same_engine_def)

text \<open>The engine has forwarded the items and sent nothing to the broker.\<close>

definition forwarded :: "channel_item list \<Rightarrow> ConsumerEngine \<Rightarrow> ConsumerEngine \<Rightarrow> bool" where
  "forwarded xs e e' \<longleftrightarrow> e_tx e' = e_tx e @ xs \<and> same_engine e e' \<and> engine_tx e' = engine_tx e"

lemma forwarded_trans: "forwarded xs a b \<Longrightarrow> forwarded ys b c \<Longrightarrow> forwarded (xs @ ys) a c"
  by (auto simp: forwarded_def intro: same_engine_trans)

lemma send_to_consumer_forwards:
  assumes "e_tx_open e"
  shows "\<exists>e'. send_to_consumer now i p e = (Inr (), e') \<and> forwarded [Inr (i, p)] e e'"
  using assms
  by (cases "e_redelivery_delay e")
    (simp_all add: send_to_consumer_def forwarded_def same_engine_def engine_tx_def Let_def)

lemma deliver_batch_forwards:
  assumes "e_tx_open e"
  shows "\<exists>e'. deliver_batch now it e = (Inr (), e') \<and> forwarded (map Inr (iterator_items it)) e e'"
  using assms
proof (induction it arbitrary: e rule: iterator_items.induct)
  case (1 it)
  show ?case
  proof (cases "iterator_next it")
    case None
    then show ?thesis
      by (simp add: deliver_batch.simps [of now it] iterator_items.simps [of it] forwarded_def)
  next
    case (Some y)
    then obtain i p it' where y: "iterator_next it = Some ((i, p), it')" by (metis surj_pair)
    obtain e1 where e1: "send_to_consumer now i p e = (Inr (), e1)" "forwarded [Inr (i, p)] e e1"
      using send_to_consumer_forwards "1.prems" by blast
    then have "e_tx_open e1" using "1.prems" by (simp add: forwarded_def same_engine_def)
    then obtain e2 where e2: "deliver_batch now it' e1 = (Inr (), e2)"
        "forwarded (map Inr (iterator_items it')) e1 e2"
      using "1.IH" [OF y refl] by blast
    from forwarded_trans [OF e1(2) e2(2)] e1(1) e2(1) y show ?thesis
      by (simp add: deliver_batch.simps [of now it] iterator_items.simps [of it])
  qed
qed

text \<open>An error of the processing is forwarded by the caller.\<close>

definition error_items :: "(pulsar_error, 'a) res \<Rightarrow> channel_item list" where
  "error_items r = (case r of Inl err \<Rightarrow> [Inl err] | Inr _ \<Rightarrow> [])"

lemma process_payload_forwards:
  assumes "e_tx_open e" and "deliverable (e_dead_letter_policy e) msg" and "message (command msg) = Some m"
  shows "\<exists>r e' xs. process_payload E m p e = (r, e') \<and> forwarded xs e e' \<and>
    xs @ error_items r = payload_items E m p"
proof -
  have single: "\<exists>r e' xs. send_to_consumer (ee_now E) (msg_message_id m) q e = (r, e') \<and>
      forwarded xs e e' \<and> xs @ error_items r = [Inr (msg_message_id m, q)]" for q
    using send_to_consumer_forwards [OF assms(1), of "ee_now E" "msg_message_id m" q]
    by (force simp: error_items_def)
  show ?thesis
  proof (cases "decompress (ee_codecs E) (ee_show_i32 E) p")
    case (Inl err)
    then show ?thesis
      by (intro exI [of _ "Inl err"] exI [of _ e] exI [of _ "[]"])
        (simp add: process_payload_def payload_items_def error_items_def forwarded_def)
  next
    case (Inr q)
    show ?thesis
    proof (cases "num_messages_in_batch (metadata q)")
      case None
      from single [of q] Inr None assms(2,3) show ?thesis
        by (auto simp: process_payload_def payload_items_def deliverable_def not_le
            split: option.splits)
    next
      case (Some n)
      show ?thesis
      proof (cases "iterator_new (ee_wire E) (ee_prost E) (msg_message_id m) n q")
        case (Inl err)
        with Inr Some show ?thesis
          by (intro exI [of _ "Inl (EConnection err)"] exI [of _ e] exI [of _ "[]"])
            (simp add: process_payload_def payload_items_def error_items_def forwarded_def)
      next
        case it: (Inr it)
        obtain e' where "deliver_batch (ee_now E) it e = (Inr (), e')"
            "forwarded (map Inr (iterator_items it)) e e'"
          using deliver_batch_forwards [OF assms(1)] by blast
        with Inr Some it show ?thesis
          by (auto simp: process_payload_def payload_items_def error_items_def)
      qed
    qed
  qed
qed

lemma process_message_forwards:
  assumes "e_tx_open e" and "deliverable (e_dead_letter_policy e) msg"
    and "close_consumer (command msg) = None"
  shows "\<exists>r e' xs. process_message E msg e = (r, e') \<and> forwarded xs e e' \<and>
    xs @ error_items r = forwards E msg \<and> (r = Inr False \<longleftrightarrow> ends_topic msg)"
proof (cases "ends_topic msg \<or> active_consumer_change (command msg) \<noteq> None")
  case True
  then show ?thesis
    by (intro exI [of _ "Inr (\<not> ends_topic msg)"] exI [of _ e] exI [of _ "[]"])
      (auto simp: process_message_def forwards_def ends_topic_def forwarded_def error_items_def Let_def)
next
  case False
  show ?thesis
  proof (cases "message (command msg)")
    case None
    with False assms(3) show ?thesis
      by (intro exI [of _ "Inr True"] exI [of _ e] exI [of _ "[]"])
        (simp add: process_message_def forwards_def ends_topic_def forwarded_def error_items_def Let_def)
  next
    case m: (Some m)
    show ?thesis
    proof (cases "payload msg")
      case None
      with False m show ?thesis
        by (intro exI [of _ "Inr True"] exI [of _ e] exI [of _ "[]"])
          (simp add: process_message_def forwards_def ends_topic_def forwarded_def error_items_def Let_def)
    next
      case (Some p)
      obtain r e' xs where r: "process_payload E m p e = (r, e')" "forwarded xs e e'"
          "xs @ error_items r = payload_items E m p"
        using process_payload_forwards [OF assms(1,2) m] by blast
      with False m Some show ?thesis
        by (intro exI [of _ "map_sum id (\<lambda>_. True) r"] exI [of _ e'] exI [of _ xs])
          (auto simp: process_message_def forwards_def ends_topic_def error_items_def Let_def
            split: sum.splits)
    qed
  qed
qed

lemma handle_inbound_forwards:
  assumes "e_tx_open e" and "deliverable (e_dead_letter_policy e) msg"
    and "close_consumer (command msg) = None"
  shows "\<exists>e'. handle_inbound E msg e = (if ends_topic msg then Return (Inr ()) else Continue, e') \<and>
    forwarded (forwards E msg) e e'"
proof -
  let ?e = "e\<lparr>e_remaining_messages := e_remaining_messages e - permits_used msg\<rparr>"
  obtain r e1 xs where r: "process_message E msg ?e = (r, e1)" "forwarded xs ?e e1"
      "xs @ error_items r = forwards E msg" "r = Inr False \<longleftrightarrow> ends_topic msg"
    using process_message_forwards [of ?e msg E] assms by auto
  have e1: "forwarded xs e e1" "e_tx_open e1"
    using r(2) assms(1) by (simp_all add: forwarded_def same_engine_def engine_tx_def)
  show ?thesis
  proof (cases r)
    case (Inr b)
    with r e1 show ?thesis by (cases b) (auto simp: handle_inbound_def error_items_def)
  next
    case (Inl err)
    then have "forwarded (forwards E msg) e (e1\<lparr>e_tx := e_tx e1 @ [Inl err]\<rparr>)"
      using e1(1) r(3) by (auto simp: forwarded_def same_engine_def engine_tx_def error_items_def)
    with Inl r e1 show ?thesis by (auto simp: handle_inbound_def)
  qed
qed

text \<open>What the handle asks of the engine reaches the broker as an acknowledgement if it is one.\<close>

definition ack_messages :: "u64 \<Rightarrow> EngineMessage \<Rightarrow> pulsar_message list" where
  "ack_messages i r = (case r of EngineAck m cum \<Rightarrow> [messages_ack i [md_id m] cum] | _ \<Rightarrow> [])"

lemma on_sender_same:
  "same_engine e (snd (on_sender f e))"
  "e_tx (snd (on_sender f e)) = e_tx e"
  by (simp_all add: on_sender_def same_engine_def split: prod.split)

lemma acks_of_request:
  assumes "healthy e"
  shows "acks_of (engine_tx (handle_engine_message E r e)) =
      acks_of (engine_tx e) @ ack_messages (e_id e) r \<and>
    same_engine e (handle_engine_message E r e) \<and> e_tx (handle_engine_message E r e) = e_tx e"
proof (cases r)
  case (EngineAck m cum)
  let ?t = "e\<lparr>e_unacked_messages := AList.delete (md_id m) (e_unacked_messages e)\<rparr>"
  have "healthy ?t" using assms by (simp add: healthy_def)
  with EngineAck show ?thesis
    by (simp add: engine_ack_def on_sender_healthy engine_tx_def ack_messages_def same_engine_def)
next
  case (EngineNack m)
  with assms show ?thesis
    by (simp add: engine_nack_def on_sender_healthy engine_tx_def ack_messages_def same_engine_def)
next
  case UnackedRedelivery
  with assms show ?thesis
    by (simp add: unacked_redelivery_def on_sender_healthy engine_tx_def ack_messages_def same_engine_def Let_def)
next
  case (GetConnection ch)
  then show ?thesis by (simp add: engine_tx_def ack_messages_def same_engine_def)
qed

lemma granted_of_request: "granted (engine_tx (handle_engine_message E r e)) = granted (engine_tx e)"
  using handle_engine_message_untouched [of e E r e] by (simp add: untouched_def)

lemma refill_working:
  assumes "working e"
  obtains e1 where "refill E e = (Inr (), e1)" "working e1" "same_engine e e1" "e_tx e1 = e_tx e"
    "acks_of (engine_tx e1) = acks_of (engine_tx e)" "granted (engine_tx e) \<le> granted (engine_tx e1)"
proof (cases "e_remaining_messages e < e_batch_size e div 2")
  case True
  let ?e1 = "snd (on_sender (send_flow (e_id e) (e_batch_size e - e_remaining_messages e)) e)
    \<lparr>e_remaining_messages := e_batch_size e\<rparr>"
  have h: "healthy e" using assms by (simp add: working_def)
  have "refill E e = (Inr (), ?e1)" using True h by (simp add: refill_def on_sender_healthy)
  with assms h show thesis
    by (intro that [of ?e1])
      (simp_all add: on_sender_healthy working_def healthy_def is_valid_def engine_tx_def listening_def
        same_engine_def split: option.splits)
next
  case False
  then show thesis using assms by (intro that [of e]) (simp_all add: refill_def)
qed

text \<open>What a turn waits for, seen from outside: the items it forwards, the acknowledgements it sends
  and whether it is the last one.\<close>

definition event_items :: "engine_env \<Rightarrow> engine_event \<Rightarrow> channel_item list" where
  "event_items E ev = (case ev of MessagesNext (Some m) \<Rightarrow> forwards E m | _ \<Rightarrow> [])"

definition event_acks :: "u64 \<Rightarrow> engine_event \<Rightarrow> pulsar_message list" where
  "event_acks i ev = (case ev of EngineNext (Some r) \<Rightarrow> ack_messages i r | _ \<Rightarrow> [])"

definition last_event :: "engine_event \<Rightarrow> bool" where
  "last_event ev =
     (case ev of MessagesNext (Some m) \<Rightarrow> ends_topic m | EngineNext None \<Rightarrow> True | _ \<Rightarrow> False)"

text \<open>The events of an undisturbed subscription: the message channel stays open, the broker closes
  nothing and no message is due for the dead letter topic.\<close>

definition undisturbed :: "DeadLetterPolicy option \<Rightarrow> engine_event \<Rightarrow> bool" where
  "undisturbed policy ev =
     (case ev of
        MessagesNext None \<Rightarrow> False
      | MessagesNext (Some m) \<Rightarrow> close_consumer (command m) = None \<and> deliverable policy m
      | _ \<Rightarrow> True)"

lemma wait_for_event_effects:
  assumes "working e" and "e_tx_open e" and "undisturbed (e_dead_letter_policy e) ev"
  shows "\<exists>e'. wait_for_event E ev e = (if last_event ev then Return (Inr ()) else Continue, e') \<and>
    same_engine e e' \<and> e_tx e' = e_tx e @ event_items E ev \<and>
    acks_of (engine_tx e') = acks_of (engine_tx e) @ event_acks (e_id e) ev \<and>
    granted (engine_tx e') = granted (engine_tx e)"
proof -
  obtain ch where ch: "listening e = Some ch" using assms(1) by (auto simp: working_def)
  let ?e = "e\<lparr>e_held := None, e_messages_rx := Some ch\<rparr>"
  have e: "healthy ?e" "e_tx_open ?e" "e_dead_letter_policy ?e = e_dead_letter_policy e"
      "same_engine e ?e" "e_tx ?e = e_tx e" "engine_tx ?e = engine_tx e" "e_id ?e = e_id e"
    using assms(1,2) by (simp_all add: working_def healthy_def same_engine_def engine_tx_def)
  show ?thesis
  proof (cases ev)
    case Timer
    with ch show ?thesis
      by (auto simp: wait_for_event_def last_event_def event_items_def event_acks_def same_engine_def
          engine_tx_def Let_def split: option.splits)
  next
    case (EngineNext r)
    show ?thesis
    proof (cases r)
      case None
      with EngineNext ch e show ?thesis
        by (auto simp: wait_for_event_def last_event_def event_items_def event_acks_def Let_def)
    next
      case (Some q)
      with EngineNext ch e acks_of_request [OF e(1), of E q] granted_of_request [of E q ?e] show ?thesis
        by (auto simp: wait_for_event_def last_event_def event_items_def event_acks_def Let_def
            intro: same_engine_trans)
    qed
  next
    case (MessagesNext r)
    then obtain m where m: "r = Some m" using assms(3) by (cases r) (auto simp: undisturbed_def)
    have "deliverable (e_dead_letter_policy ?e) m" "close_consumer (command m) = None"
      using assms(3) MessagesNext m by (simp_all add: undisturbed_def)
    from handle_inbound_forwards [OF e(2) this, of E] MessagesNext m ch e show ?thesis
      by (auto simp: wait_for_event_def last_event_def event_items_def event_acks_def forwarded_def Let_def
          intro: same_engine_trans)
  qed
qed

text \<open>How a turn moves the window: the 32-bit counter may wrap around, which is what \<open>k\<close> counts.\<close>

definition wrapped_balance :: "nat \<Rightarrow> ConsumerEngine \<Rightarrow> ConsumerEngine \<Rightarrow> bool" where
  "wrapped_balance n e e' \<longleftrightarrow>
     (\<exists>k. granted (engine_tx e') + unat (e_remaining_messages e) + 2 ^ 32 * k =
        granted (engine_tx e) + unat (e_remaining_messages e') + n)"

lemma unat_minus_wraps: "\<exists>k. unat (a - b :: u32) + unat b = unat a + 2 ^ 32 * k"
proof (cases "b \<le> a")
  case True
  then have "unat (a - b) + unat b = unat a + 2 ^ 32 * 0" by (simp add: unat_sub word_le_nat_alt)
  then show ?thesis by blast
next
  case False
  then have less: "unat a < unat b" by (simp add: word_le_nat_alt)
  have "unat b < 2 ^ 32" using unsigned_less [of b, where ?'a = nat] by simp
  with overdrawn_value [OF less] have "unat (a - b) + unat b = unat a + 2 ^ 32 * 1" by simp
  then show ?thesis by blast
qed

lemma refill_wraps:
  assumes "healthy e" and "refill E e = (r, e1)"
  shows "granted (engine_tx e1) + unat (e_remaining_messages e) =
      granted (engine_tx e) + unat (e_remaining_messages e1) \<and> healthy e1"
proof (cases "e_remaining_messages e < e_batch_size e div 2")
  case True
  then have "e_remaining_messages e \<le> e_batch_size e"
    by (simp add: word_less_nat_alt word_le_nat_alt unat_div)
  then have "unat (e_batch_size e - e_remaining_messages e) + unat (e_remaining_messages e) = unat (e_batch_size e)"
    by (simp add: unat_sub word_le_nat_alt)
  with True assms show ?thesis
    by (auto simp: refill_def on_sender_healthy engine_tx_def healthy_def is_valid_def)
next
  case False
  with assms show ?thesis by (simp add: refill_def)
qed

lemma wait_for_event_wraps:
  assumes "wait_for_event E ev e = (t, e')" and "healthy e" and "calm ev" and "t \<noteq> Panic"
  shows "healthy e' \<and> wrapped_balance (consumed ev) e e'"
proof -
  obtain ch where ch: "listening e = Some ch"
    using assms(1,4) by (cases "listening e") (auto simp: wait_for_event_def)
  let ?e = "e\<lparr>e_held := None, e_messages_rx := Some ch\<rparr>"
  have e: "healthy ?e" "engine_tx ?e = engine_tx e" using assms(2) by (simp_all add: healthy_def engine_tx_def)
  have none: "wrapped_balance 0 e e'" if "granted (engine_tx e') = granted (engine_tx e)"
      "e_remaining_messages e' = e_remaining_messages e"
    using that by (auto simp: wrapped_balance_def)
  show ?thesis
  proof (cases ev)
    case Timer
    with assms ch none show ?thesis
      by (auto simp: wait_for_event_def healthy_def engine_tx_def consumed_def Let_def split: option.splits)
  next
    case (EngineNext m)
    then have "untouched ?e e'"
      using assms(1) ch by (auto simp: wait_for_event_def Let_def split: option.splits)
    with e none EngineNext show ?thesis by (auto simp: untouched_def consumed_def)
  next
    case (MessagesNext m)
    with assms(1,4) ch obtain msg where m: "m = Some msg"
      by (cases m) (auto simp: wait_for_event_def Let_def)
    with MessagesNext assms(1) ch have "handle_inbound E msg ?e = (t, e')"
      by (simp add: wait_for_event_def Let_def)
    then have u: "untouched (?e\<lparr>e_remaining_messages := e_remaining_messages e - permits_used msg\<rparr>) e'"
      using handle_inbound_flow [of E msg ?e] assms(3) MessagesNext m by (simp add: calm_def)
    then have same: "granted (engine_tx e') = granted (engine_tx e)"
        "e_remaining_messages e' = e_remaining_messages e - permits_used msg"
      using e(2) by (simp_all add: untouched_def engine_tx_def)
    obtain k where "unat (e_remaining_messages e - permits_used msg) + unat (permits_used msg) =
        unat (e_remaining_messages e) + 2 ^ 32 * k"
      using unat_minus_wraps by blast
    with same have "wrapped_balance (unat (permits_used msg)) e e'"
      unfolding wrapped_balance_def by (intro exI [of _ k]) simp
    with u e(1) MessagesNext m show ?thesis by (simp add: untouched_def healthy_def consumed_def)
  qed
qed

lemma undisturbed_calm: "undisturbed policy ev \<Longrightarrow> calm ev"
  by (auto simp: undisturbed_def calm_def split: engine_event.splits option.splits)

lemma engine_step_effects:
  assumes "working e" and "e_tx_open e" and "undisturbed (e_dead_letter_policy e) ev"
  shows "\<exists>e'. engine_step E ev e = (if last_event ev then Return (Inr ()) else Continue, e') \<and>
    working e' \<and> same_engine e e' \<and> e_tx e' = e_tx e @ event_items E ev \<and>
    acks_of (engine_tx e') = acks_of (engine_tx e) @ event_acks (e_id e) ev \<and>
    wrapped_balance (consumed ev) e e' \<and> granted (engine_tx e) \<le> granted (engine_tx e')"
proof -
  note calm = undisturbed_calm [OF assms(3)]
  have h: "healthy e" using assms(1) by (simp add: working_def)
  obtain e1 where r: "refill E e = (Inr (), e1)" "working e1" "same_engine e e1" "e_tx e1 = e_tx e"
      "acks_of (engine_tx e1) = acks_of (engine_tx e)" "granted (engine_tx e) \<le> granted (engine_tx e1)"
    by (rule refill_working [OF assms(1), of E]) blast
  then have e1: "e_tx_open e1" "undisturbed (e_dead_letter_policy e1) ev" "e_id e1 = e_id e" "healthy e1"
    using assms(2,3) by (simp_all add: same_engine_def working_def)
  obtain e' where w: "wait_for_event E ev e1 = (if last_event ev then Return (Inr ()) else Continue, e')"
      "same_engine e1 e'" "e_tx e' = e_tx e1 @ event_items E ev"
      "acks_of (engine_tx e') = acks_of (engine_tx e1) @ event_acks (e_id e1) ev"
      "granted (engine_tx e') = granted (engine_tx e1)"
    using wait_for_event_effects [OF r(2) e1(1,2), of E] by blast
  let ?t = "if last_event ev then Return (Inr ()) else Continue"
  have step: "engine_step E ev e = (?t, e')"
    using r(1) w(1) h by (simp add: engine_step_def check_connection_healthy)
  have np: "?t \<noteq> Panic" by simp
  note wraps = wait_for_event_wraps [OF w(1) e1(4) calm np]
  moreover have "wrapped_balance (consumed ev) e e'"
  proof -
    obtain k where "granted (engine_tx e') + unat (e_remaining_messages e1) + 2 ^ 32 * k =
        granted (engine_tx e1) + unat (e_remaining_messages e') + consumed ev"
      using wraps by (auto simp: wrapped_balance_def)
    with refill_wraps [OF h r(1)] show ?thesis unfolding wrapped_balance_def by (intro exI [of _ k]) simp
  qed
  moreover obtain ch where "listening e1 = Some ch" using r(2) by (auto simp: working_def)
  with wait_for_event_listening [OF w(1) _ calm np] have "listening e' = Some ch" by blast
  ultimately show ?thesis
    using step w r e1 by (auto simp: working_def intro: same_engine_trans)
qed

section \<open>The system\<close>

text \<open>
  The link holds the bytes the broker has written and the transport has not read; the buffer those it
  has read and not decoded. The message channel of the subscription is what the receiver delivered on
  it, the first \<open>ss_taken\<close> messages of which the engine has taken; \<open>ss_asked\<close> counts the requests of
  the handle that the engine has taken. The messages sent are kept as a history.
\<close>

record session =
  ss_link :: bytes
  ss_buffer :: bytes
  ss_receiver :: Receiver
  ss_taken :: nat
  ss_engine :: ConsumerEngine
  ss_running :: bool
  ss_asked :: nat
  ss_handle :: TopicConsumer
  ss_sent :: "pulsar_message list"

text \<open>What stays the same: the libraries, the number and the topic of the consumer and its channel, the permits that
  were granted on the connection before the subscription, and how the engine unpacks.\<close>

record session_env =
  se_wire :: wire
  se_commands :: "base_command prost"
  se_metadata :: "message_metadata prost"
  se_consumer :: u64
  se_topic :: string
  se_channel :: nat
  se_granted :: nat
  se_engine :: engine_env

datatype session_label = Sent pulsar_message | Got "(pulsar_error, ConsMessage) res" | Internal

definition frame_of :: "session_env \<Rightarrow> pulsar_message \<Rightarrow> bytes" where
  "frame_of V m =
     frame_bytes (se_wire V) (se_commands V) (se_metadata V) (frame_checksum (se_wire V) (se_metadata V) m) m"

definition for_consumer :: "session_env \<Rightarrow> pulsar_message list \<Rightarrow> pulsar_message list" where
  "for_consumer V ms = filter (\<lambda>m. consumer_of m = Some (se_consumer V)) ms"

definition permits :: "pulsar_message list \<Rightarrow> nat" where
  "permits ms = sum_list (map (\<lambda>m. unat (permits_used m)) ms)"

definition inbox :: "session_env \<Rightarrow> session \<Rightarrow> pulsar_message list" where
  "inbox V s = deliveries (se_channel V) (effects (ss_receiver s))"

text \<open>A broker may send any message that can be encoded, whatever its permits; of those for the consumer, none
  that closes it (\<open>Reconnection\<close> has these) and none that has exhausted its redeliveries.\<close>

definition may_send :: "session_env \<Rightarrow> session \<Rightarrow> pulsar_message \<Rightarrow> bool" where
  "may_send V s m \<longleftrightarrow>
     encodable (se_commands V) (se_metadata V) m \<and>
     (consumer_of m = Some (se_consumer V) \<longrightarrow>
        undisturbed (e_dead_letter_policy (ss_engine s)) (MessagesNext (Some m)))"

text \<open>The transport reads \<open>n\<close> bytes of the link and the executor polls the receiver with what it decodes
  and with new registrations.\<close>

definition read_input ::
  "session_env \<Rightarrow> nat \<Rightarrow> Register list \<Rightarrow> session \<Rightarrow> poll_input \<times> bytes" where
  "read_input V n gs s =
     (case drain (decode (se_wire V) (se_commands V) (se_metadata V)) (ss_buffer s @ take n (ss_link s)) of
        (ms, err, b) \<Rightarrow>
          (\<lparr>shutdown_fired = False, in_registrations = \<lparr>ready = gs, finished = False\<rparr>,
            in_inbound = \<lparr>ready = map Inr ms @ (case err of None \<Rightarrow> [] | Some e \<Rightarrow> [Inl e]),
                          finished = False\<rparr>\<rparr>, b))"

text \<open>A turn of the engine: what it forwards is queued for the handle; when it ends, both of its
  channels to the handle are gone.\<close>

definition engine_turn :: "engine_env \<Rightarrow> engine_event \<Rightarrow> session \<Rightarrow> session" where
  "engine_turn E ev s =
     (case engine_step E ev (ss_engine s) of
        (t, e) \<Rightarrow>
          s\<lparr>ss_engine := e, ss_running := (t = Continue),
            ss_handle := (ss_handle s)
              \<lparr>tc_messages := tc_messages (ss_handle s) @ drop (length (e_tx (ss_engine s))) (e_tx e),
               tc_closed := (tc_closed (ss_handle s) \<or> t \<noteq> Continue),
               tc_engine_open := (tc_engine_open (ss_handle s) \<and> t = Continue)\<rparr>\<rparr>)"

text \<open>The environment of a turn may differ in the clock and in what the rest of the client answers.\<close>

definition same_codecs :: "engine_env \<Rightarrow> engine_env \<Rightarrow> bool" where
  "same_codecs E E' \<longleftrightarrow>
     ee_wire E' = ee_wire E \<and> ee_prost E' = ee_prost E \<and> ee_codecs E' = ee_codecs E \<and>
     ee_show_i32 E' = ee_show_i32 E"

inductive session_step :: "session_env \<Rightarrow> session \<Rightarrow> session_label \<Rightarrow> session \<Rightarrow> bool"
  for V :: session_env where
  broker_sends: "may_send V s m \<Longrightarrow>
    session_step V s (Sent m) (s\<lparr>ss_link := ss_link s @ frame_of V m, ss_sent := ss_sent s @ [m]\<rparr>)"
| transport_reads: "\<forall>g \<in> set gs. \<forall>c ch. g \<noteq> RegConsumer c ch \<Longrightarrow> read_input V n gs s = (i, b) \<Longrightarrow>
    poll i (ss_receiver s) = (p, r) \<Longrightarrow>
    session_step V s Internal
      (s\<lparr>ss_link := drop n (ss_link s), ss_buffer := b, ss_receiver := r\<rparr>)"
| engine_takes_message: "ss_running s \<Longrightarrow> ss_taken s < length (inbox V s) \<Longrightarrow> same_codecs (se_engine V) E \<Longrightarrow>
    session_step V s Internal
      (engine_turn E (MessagesNext (Some (inbox V s ! ss_taken s))) (s\<lparr>ss_taken := Suc (ss_taken s)\<rparr>))"
| engine_takes_request: "ss_running s \<Longrightarrow> ss_asked s < length (tc_engine_tx (ss_handle s)) \<Longrightarrow>
    session_step V s Internal
      (engine_turn E (EngineNext (Some (tc_engine_tx (ss_handle s) ! ss_asked s)))
         (s\<lparr>ss_asked := Suc (ss_asked s)\<rparr>))"
| engine_timer: "ss_running s \<Longrightarrow> session_step V s Internal (engine_turn E Timer s)"
| application_polls: "tc_poll_next now (ss_handle s) = (Ready (Some x), h) \<Longrightarrow>
    session_step V s (Got x) (s\<lparr>ss_handle := h\<rparr>)"
| application_tells: "engine_send q (ss_handle s) = (True, h) \<Longrightarrow>
    session_step V s Internal (s\<lparr>ss_handle := h\<rparr>)"

text \<open>A subscription that begins: nothing is under way, the receiver has the consumer's channel and the
  engine counts with permits the broker was granted.\<close>

definition session_start :: "session_env \<Rightarrow> session \<Rightarrow> bool" where
  "session_start V s \<longleftrightarrow>
     ss_link s = [] \<and> ss_buffer s = [] \<and> ss_sent s = [] \<and> ss_taken s = 0 \<and> ss_asked s = 0 \<and>
     ss_running s \<and> sole_channel (ss_receiver s) (se_consumer V) (se_channel V) \<and> inbox V s = [] \<and>
     working (ss_engine s) \<and> e_tx_open (ss_engine s) \<and>
     e_remaining_messages (ss_engine s) \<le> e_batch_size (ss_engine s) \<and>
     granted (engine_tx (ss_engine s)) = se_granted V + unat (e_remaining_messages (ss_engine s)) \<and>
     tc_topic (ss_handle s) = se_topic V \<and> tc_messages (ss_handle s) = [] \<and>
     tc_engine_tx (ss_handle s) = []"

section \<open>The abstract queue\<close>

text \<open>What a subscription promises: a queue to which the broker adds the items of each message that is
  for the consumer, and from which the application takes them in order.\<close>

datatype 'a queue_label = Put "'a list" | Take 'a

inductive queue_step :: "'a list \<Rightarrow> 'a queue_label \<Rightarrow> 'a list \<Rightarrow> bool" where
  queue_put: "queue_step q (Put xs) (q @ xs)"
| queue_take: "queue_step (x # q) (Take x) q"

inductive_simps queue_put_iff [simp]: "queue_step q (Put xs) q'"
inductive_simps queue_take_iff [simp]: "queue_step q (Take x) q'"

definition undelivered :: "session_env \<Rightarrow> session \<Rightarrow> pulsar_message list" where
  "undelivered V s = drop (ss_taken s) (for_consumer V (ss_sent s))"

text \<open>What the application sees of an item.\<close>

definition seen_as :: "string \<Rightarrow> channel_item \<Rightarrow> (pulsar_error, ConsMessage) res" where
  "seen_as topic x =
     map_sum id (\<lambda>(i, p). \<lparr>cm_topic = topic, cm_payload = p,
       cm_message_id = \<lparr>md_id = i, md_batch_size = num_messages_in_batch (metadata p)\<rparr>\<rparr>) x"

definition items_of :: "session_env \<Rightarrow> pulsar_message list \<Rightarrow> (pulsar_error, ConsMessage) res list" where
  "items_of V ms = map (seen_as (se_topic V)) (concat (map (forwards (se_engine V)) ms))"

definition queue_of :: "session_env \<Rightarrow> session \<Rightarrow> (pulsar_error, ConsMessage) res list" where
  "queue_of V s = map (seen_as (se_topic V)) (tc_messages (ss_handle s)) @ items_of V (undelivered V s)"

definition label_of :: "session_env \<Rightarrow> session_label \<Rightarrow> (pulsar_error, ConsMessage) res queue_label" where
  "label_of V l =
     (case l of
        Sent m \<Rightarrow> Put (items_of V (for_consumer V [m]))
      | Got x \<Rightarrow> Take x
      | Internal \<Rightarrow> Put [])"

fun put_items :: "'a queue_label list \<Rightarrow> 'a list" where
  "put_items [] = []"
| "put_items (Put xs # ls) = xs @ put_items ls"
| "put_items (Take x # ls) = put_items ls"

fun taken_items :: "'a queue_label list \<Rightarrow> 'a list" where
  "taken_items [] = []"
| "taken_items (Put xs # ls) = taken_items ls"
| "taken_items (Take x # ls) = x # taken_items ls"

lemma put_items_append [simp]: "put_items (xs @ ys) = put_items xs @ put_items ys"
  by (induction xs rule: put_items.induct) simp_all

lemma taken_items_append [simp]: "taken_items (xs @ ys) = taken_items xs @ taken_items ys"
  by (induction xs rule: taken_items.induct) simp_all

text \<open>
  The contract of a system that refines the queue: an invariant, and an abstraction under which every
  step is a step of the queue. What follows for whole runs is proved once.
\<close>

locale queue_refinement =
  fixes step :: "'s \<Rightarrow> 'l \<Rightarrow> 's \<Rightarrow> bool"
    and inv :: "'s \<Rightarrow> bool"
    and abs :: "'s \<Rightarrow> 'a list"
    and lab :: "'l \<Rightarrow> 'a queue_label"
  assumes inv_step: "inv s \<Longrightarrow> step s l s' \<Longrightarrow> inv s'"
    and sim_step: "inv s \<Longrightarrow> step s l s' \<Longrightarrow> queue_step (abs s) (lab l) (abs s')"
begin

lemma run_inv: "runs step s ls s' \<Longrightarrow> inv s \<Longrightarrow> inv s'"
  by (induction rule: runs.induct) (auto intro: inv_step)

lemma run_order:
  assumes "runs step s ls s'" and "inv s"
  shows "taken_items (map lab ls) @ abs s' = abs s @ put_items (map lab ls)"
  using assms
proof (induction rule: runs.induct)
  case (runs_snoc s ls s' l s'')
  then have "queue_step (abs s') (lab l) (abs s'')" using run_inv sim_step by blast
  with runs_snoc show ?case by (cases "lab l") auto
qed simp

end

section \<open>The invariant\<close>

text \<open>The bytes that are under way are the frames of the messages that are not decoded yet, and the
  channel of the consumer has got its share of the others.\<close>

definition link_inv :: "session_env \<Rightarrow> session \<Rightarrow> bool" where
  "link_inv V s \<longleftrightarrow>
     (\<exists>seen rest. ss_sent s = seen @ rest \<and> ss_buffer s @ ss_link s = concat (map (frame_of V) rest) \<and>
        inbox V s = for_consumer V seen) \<and>
     list_all (encodable (se_commands V) (se_metadata V)) (ss_sent s) \<and>
     list_all (\<lambda>m. undisturbed (e_dead_letter_policy (ss_engine s)) (MessagesNext (Some m)))
       (for_consumer V (ss_sent s)) \<and>
     sole_channel (ss_receiver s) (se_consumer V) (se_channel V) \<and> ss_taken s \<le> length (inbox V s)"

text \<open>The engine works and the permits balance: granted, counted and left, up to the wrapping of the counter.\<close>

definition window_inv :: "session_env \<Rightarrow> session \<Rightarrow> bool" where
  "window_inv V s \<longleftrightarrow>
     working (ss_engine s) \<and> e_tx_open (ss_engine s) \<and>
     (\<exists>k. granted (engine_tx (ss_engine s)) + 2 ^ 32 * k =
       se_granted V + permits (take (ss_taken s) (for_consumer V (ss_sent s)))
       + unat (e_remaining_messages (ss_engine s)))"

definition session_inv :: "session_env \<Rightarrow> session \<Rightarrow> bool" where
  "session_inv V s \<longleftrightarrow> link_inv V s \<and> window_inv V s \<and> tc_topic (ss_handle s) = se_topic V"

lemma for_consumer_simps [simp]:
  "for_consumer V [] = []"
  "for_consumer V (xs @ ys) = for_consumer V xs @ for_consumer V ys"
  "for_consumer V [m] = (if consumer_of m = Some (se_consumer V) then [m] else [])"
  by (simp_all add: for_consumer_def)

lemma permits_simps [simp]:
  "permits [] = 0"
  "permits (xs @ ys) = permits xs + permits ys"
  "permits [m] = unat (permits_used m)"
  by (simp_all add: permits_def)

lemma permits_take_drop: "permits xs = permits (take n xs) + permits (drop n xs)"
  by (metis append_take_drop_id permits_simps(2))

lemma session_start_inv: "session_start V s \<Longrightarrow> session_inv V s"
  by (auto simp: session_start_def session_inv_def link_inv_def window_inv_def intro: exI [of _ 0])

lemma inbox_prefix:
  assumes "link_inv V s"
  obtains more where "for_consumer V (ss_sent s) = inbox V s @ more"
  using assms by (auto simp: link_inv_def)

subsection \<open>The broker sends\<close>

lemma broker_sends_link:
  assumes "link_inv V s" and "may_send V s m"
  shows "link_inv V (s\<lparr>ss_link := ss_link s @ frame_of V m, ss_sent := ss_sent s @ [m]\<rparr>)" (is "link_inv V ?s")
proof -
  note l = assms(1)
  obtain seen rest where sr: "ss_sent s = seen @ rest"
      "ss_buffer s @ ss_link s = concat (map (frame_of V) rest)" "inbox V s = for_consumer V seen"
    using l by (auto simp: link_inv_def)
  have i: "inbox V ?s = inbox V s" by (simp add: inbox_def)
  have "\<exists>seen rest. ss_sent ?s = seen @ rest \<and>
      ss_buffer ?s @ ss_link ?s = concat (map (frame_of V) rest) \<and> inbox V ?s = for_consumer V seen"
    by (rule exI [of _ seen], rule exI [of _ "rest @ [m]"]) (use sr i in simp)
  moreover have "list_all (encodable (se_commands V) (se_metadata V)) (ss_sent ?s)"
      "list_all (\<lambda>m. undisturbed (e_dead_letter_policy (ss_engine ?s)) (MessagesNext (Some m)))
        (for_consumer V (ss_sent ?s))"
    using l assms(2) by (simp_all add: link_inv_def may_send_def)
  ultimately show ?thesis using l i by (simp add: link_inv_def)
qed

lemma taken_bound: "link_inv V s \<Longrightarrow> ss_taken s \<le> length (for_consumer V (ss_sent s))"
  using inbox_prefix [of V s] by (fastforce simp: link_inv_def)

lemma broker_sends_inv:
  assumes "session_inv V s" and "may_send V s m"
  shows "session_inv V (s\<lparr>ss_link := ss_link s @ frame_of V m, ss_sent := ss_sent s @ [m]\<rparr>)"
  using assms broker_sends_link [of V s m] taken_bound [of V s]
  by (simp add: session_inv_def window_inv_def)

subsection \<open>The transport reads\<close>

lemma close_request_None: "close_consumer (command m) = None \<Longrightarrow> close_request m = None"
  by (auto simp: close_request_def request_key_def Let_def split: option.splits prod.splits)

text \<open>A message is routed to the channel of the consumer exactly if it is for it; a broker that closes
  other consumers does not matter.\<close>

lemma handle_message_delivers:
  assumes "sole_channel r c ch" and "consumer_of m = Some c \<Longrightarrow> close_request m = None"
  shows "deliveries ch (effects (handle_message m r)) =
    deliveries ch (effects r) @ (if consumer_of m = Some c then [m] else [])"
  using assms
  by (cases m r rule: handle_message_cases)
    (auto simp: receive_response_def route_to_consumer_def sole_channel_def split: option.split)

lemma fold_message_delivers:
  assumes "sole_channel r c ch" and "\<forall>m \<in> set ms. consumer_of m = Some c \<longrightarrow> close_request m = None"
  shows "deliveries ch (effects (fold handle_message ms r)) =
    deliveries ch (effects r) @ filter (\<lambda>m. consumer_of m = Some c) ms"
  using assms
proof (induction ms arbitrary: r)
  case (Cons m ms)
  from handle_message_delivers [OF Cons.prems(1), of m] Cons show ?case by simp
qed simp

lemma fold_message_sole_channel [simp]:
  "sole_channel (fold handle_message ms r) c ch = sole_channel r c ch"
  by (induction ms arbitrary: r) simp_all

text \<open>Whatever part of the link is read, the transport decodes the next messages without an error.\<close>

lemma read_input_decodes:
  assumes "wire_format (se_wire V)" and "list_all (encodable (se_commands V) (se_metadata V)) rest"
    and "ss_buffer s @ ss_link s = concat (map (frame_of V) rest)"
  obtains ms rest' b where "rest = ms @ rest'"
    "read_input V n gs s =
       (\<lparr>shutdown_fired = False, in_registrations = \<lparr>ready = gs, finished = False\<rparr>,
         in_inbound = \<lparr>ready = map Inr ms, finished = False\<rparr>\<rparr>, b)"
    "b @ drop n (ss_link s) = concat (map (frame_of V) rest')"
    "rest' = [] \<or> length b < length (frame_of V (hd rest'))"
proof -
  have "(ss_buffer s @ take n (ss_link s)) @ drop n (ss_link s) =
      tokio.stream (se_wire V) (se_commands V) (se_metadata V) rest"
    using assms(3) by (simp add: tokio.stream_def frame_of_def [abs_def])
  moreover have "\<forall>m \<in> set rest. wire_format (se_wire V) \<and> encodable (se_commands V) (se_metadata V) m"
    using assms(1,2) by (simp add: list_all_iff)
  ultimately obtain ms rest' b where "rest = ms @ rest'"
      "drain (decode (se_wire V) (se_commands V) (se_metadata V)) (ss_buffer s @ take n (ss_link s)) =
        (ms, None, b)"
      "b @ drop n (ss_link s) = tokio.stream (se_wire V) (se_commands V) (se_metadata V) rest'"
      "rest' = [] \<or> length b < length (frame_of V (hd rest'))"
    unfolding frame_of_def using tokio.drain_prefix [of rest "se_wire V" "se_commands V" "se_metadata V"
        "ss_buffer s @ take n (ss_link s)" "drop n (ss_link s)"] by auto
  then show thesis
    by (intro that [of ms rest' b])
      (simp_all add: read_input_def tokio.stream_def frame_of_def [abs_def])
qed

lemma transport_reads_link:
  assumes "wire_format (se_wire V)" and "link_inv V s"
    and "\<forall>g \<in> set gs. \<forall>c ch. g \<noteq> RegConsumer c ch"
    and "read_input V n gs s = (i, b)" and "poll i (ss_receiver s) = (p, r)"
  shows "link_inv V (s\<lparr>ss_link := drop n (ss_link s), ss_buffer := b, ss_receiver := r\<rparr>)"
      (is "link_inv V ?s")
    and "drop n (ss_link s) = [] \<Longrightarrow>
      inbox V (s\<lparr>ss_link := drop n (ss_link s), ss_buffer := b, ss_receiver := r\<rparr>) = for_consumer V (ss_sent s)"
proof -
  note l = assms(2)
  obtain seen rest where sr: "ss_sent s = seen @ rest"
      "ss_buffer s @ ss_link s = concat (map (frame_of V) rest)" "inbox V s = for_consumer V seen"
    using l by (auto simp: link_inv_def)
  have enc: "list_all (encodable (se_commands V) (se_metadata V)) rest"
    using l sr(1) by (simp add: link_inv_def)
  obtain ms rest' b' where ms: "rest = ms @ rest'"
      "read_input V n gs s =
         (\<lparr>shutdown_fired = False, in_registrations = \<lparr>ready = gs, finished = False\<rparr>,
           in_inbound = \<lparr>ready = map Inr ms, finished = False\<rparr>\<rparr>, b')"
      "b' @ drop n (ss_link s) = concat (map (frame_of V) rest')"
      "rest' = [] \<or> length b' < length (frame_of V (hd rest'))"
    by (rule read_input_decodes [OF assms(1) enc sr(2), of n gs])
  have "live_input i" "inbound_messages i = ms" "ready (in_registrations i) = gs" and b: "b = b'"
    using ms(2) assms(4) by (auto simp: live_input_def inbound_messages_def list_all_iff comp_def)
  then have r: "r = fold handle_message ms (fold handle_registration gs (ss_receiver s))"
    using assms(5) by (simp add: poll_live)
  have sole: "sole_channel (fold handle_registration gs (ss_receiver s)) (se_consumer V) (se_channel V)"
    using l registered_consumers_kept [OF assms(3)] by (simp add: link_inv_def sole_channel_def)
  have "\<forall>m \<in> set ms. consumer_of m = Some (se_consumer V) \<longrightarrow> close_request m = None"
    using l sr(1) ms(1)
    by (auto simp: link_inv_def list_all_iff for_consumer_def undisturbed_def close_request_None)
  from fold_message_delivers [OF sole this]
  have i: "inbox V ?s = inbox V s @ for_consumer V ms" by (simp add: inbox_def r for_consumer_def)
  have "\<exists>seen rest. ss_sent ?s = seen @ rest \<and>
      ss_buffer ?s @ ss_link ?s = concat (map (frame_of V) rest) \<and> inbox V ?s = for_consumer V seen"
    by (rule exI [of _ "seen @ ms"], rule exI [of _ rest']) (use sr ms b i in simp)
  moreover have "sole_channel (ss_receiver ?s) (se_consumer V) (se_channel V)"
    using sole by (simp add: r)
  ultimately show "link_inv V ?s" using l i by (simp add: link_inv_def)
  show "inbox V ?s = for_consumer V (ss_sent s)" if "drop n (ss_link s) = []"
  proof -
    have "rest' = []" using ms(3,4) that by (cases rest') auto
    with sr ms(1) i show ?thesis by simp
  qed
qed

lemma transport_reads_inv:
  assumes "wire_format (se_wire V)" and "session_inv V s"
    and "\<forall>g \<in> set gs. \<forall>c ch. g \<noteq> RegConsumer c ch"
    and "read_input V n gs s = (i, b)" and "poll i (ss_receiver s) = (p, r)"
  shows "session_inv V (s\<lparr>ss_link := drop n (ss_link s), ss_buffer := b, ss_receiver := r\<rparr>)"
  using assms(2) transport_reads_link(1) [OF assms(1) _ assms(3-5)]
  by (simp add: session_inv_def window_inv_def)

subsection \<open>The engine and the application\<close>

text \<open>What is forwarded depends on the libraries only, not on the clock.\<close>

lemma forwards_same_codecs:
  assumes "same_codecs E E'"
  shows "forwards E' = forwards E"
proof -
  have "payload_items E' = payload_items E"
    using assms by (intro ext) (simp add: payload_items_def same_codecs_def split: sum.split option.split)
  then show ?thesis by (intro ext) (simp add: forwards_def split: option.split)
qed

text \<open>A turn that has taken the messages up to \<open>n\<close> and the requests up to \<open>a\<close>.\<close>

lemma engine_turn_inv:
  assumes "session_inv V s" and "undisturbed (e_dead_letter_policy (ss_engine s)) ev"
    and "n \<le> length (inbox V s)"
    and "permits (take n (for_consumer V (ss_sent s))) =
      permits (take (ss_taken s) (for_consumer V (ss_sent s))) + consumed ev"
  obtains e h where "engine_turn E ev (s\<lparr>ss_taken := n, ss_asked := a\<rparr>) =
      s\<lparr>ss_taken := n, ss_asked := a, ss_engine := e, ss_running := \<not> last_event ev, ss_handle := h\<rparr>"
    "session_inv V (s\<lparr>ss_taken := n, ss_asked := a, ss_engine := e, ss_running := \<not> last_event ev, ss_handle := h\<rparr>)"
    "tc_messages h = tc_messages (ss_handle s) @ event_items E ev" "tc_engine_tx h = tc_engine_tx (ss_handle s)"
    "e_id e = e_id (ss_engine s)"
    "acks_of (engine_tx e) = acks_of (engine_tx (ss_engine s)) @ event_acks (e_id (ss_engine s)) ev"
proof -
  have l: "link_inv V s" and w: "window_inv V s" using assms(1) by (simp_all add: session_inv_def)
  then have "working (ss_engine s)" "e_tx_open (ss_engine s)"
    by (simp_all add: window_inv_def)
  from engine_step_effects [OF this assms(2), of E]
  obtain e where e: "engine_step E ev (ss_engine s) = (if last_event ev then Return (Inr ()) else Continue, e)"
      "working e" "same_engine (ss_engine s) e" "e_tx e = e_tx (ss_engine s) @ event_items E ev"
      "acks_of (engine_tx e) = acks_of (engine_tx (ss_engine s)) @ event_acks (e_id (ss_engine s)) ev"
      "wrapped_balance (consumed ev) (ss_engine s) e" "granted (engine_tx (ss_engine s)) \<le> granted (engine_tx e)"
    by blast
  let ?h = "(ss_handle s)\<lparr>tc_messages := tc_messages (ss_handle s) @ event_items E ev,
      tc_closed := (tc_closed (ss_handle s) \<or> last_event ev),
      tc_engine_open := (tc_engine_open (ss_handle s) \<and> \<not> last_event ev)\<rparr>"
  let ?s = "s\<lparr>ss_taken := n, ss_asked := a, ss_engine := e, ss_running := \<not> last_event ev, ss_handle := ?h\<rparr>"
  have i: "inbox V ?s = inbox V s" by (simp add: inbox_def)
  have "link_inv V ?s" using l assms(3) e(3) i by (simp add: link_inv_def same_engine_def)
  moreover obtain k j where "granted (engine_tx (ss_engine s)) + 2 ^ 32 * k =
       se_granted V + permits (take (ss_taken s) (for_consumer V (ss_sent s)))
       + unat (e_remaining_messages (ss_engine s))"
      "granted (engine_tx e) + unat (e_remaining_messages (ss_engine s)) + 2 ^ 32 * j =
        granted (engine_tx (ss_engine s)) + unat (e_remaining_messages e) + consumed ev"
    using w e(6) by (auto simp: window_inv_def wrapped_balance_def)
  then have "granted (engine_tx e) + 2 ^ 32 * (k + j) =
      se_granted V + permits (take n (for_consumer V (ss_sent s))) + unat (e_remaining_messages e)"
    using assms(4) by (simp add: algebra_simps)
  then have "\<exists>k. granted (engine_tx e) + 2 ^ 32 * k =
      se_granted V + permits (take n (for_consumer V (ss_sent s))) + unat (e_remaining_messages e)" by blast
  with e w have "window_inv V ?s"
    by (simp add: window_inv_def same_engine_def)
  ultimately have "session_inv V ?s" using assms(1) by (simp add: session_inv_def)
  with e show thesis
    by (intro that [where e = e and h = ?h]) (simp_all add: engine_turn_def same_engine_def)
qed

lemma next_message:
  assumes "link_inv V s" and "ss_taken s < length (inbox V s)"
  shows "undelivered V s = inbox V s ! ss_taken s # drop (Suc (ss_taken s)) (for_consumer V (ss_sent s))"
    and "permits (take (Suc (ss_taken s)) (for_consumer V (ss_sent s))) =
      permits (take (ss_taken s) (for_consumer V (ss_sent s))) + unat (permits_used (inbox V s ! ss_taken s))"
    and "undisturbed (e_dead_letter_policy (ss_engine s)) (MessagesNext (Some (inbox V s ! ss_taken s)))"
    and "take (Suc (ss_taken s)) (for_consumer V (ss_sent s)) =
      take (ss_taken s) (for_consumer V (ss_sent s)) @ [inbox V s ! ss_taken s]"
proof -
  let ?ms = "for_consumer V (ss_sent s)" and ?n = "ss_taken s"
  note l = assms(1)
  obtain more where more: "?ms = inbox V s @ more" by (rule inbox_prefix [OF l])
  with assms(2) have n: "?n < length ?ms" "?ms ! ?n = inbox V s ! ?n" by (simp_all add: nth_append)
  show "undelivered V s = inbox V s ! ?n # drop (Suc ?n) ?ms"
    unfolding undelivered_def using n by (metis Cons_nth_drop_Suc)
  show "permits (take (Suc ?n) ?ms) = permits (take ?n ?ms) + unat (permits_used (inbox V s ! ?n))"
    using n by (simp add: take_Suc_conv_app_nth)
  show "undisturbed (e_dead_letter_policy (ss_engine s)) (MessagesNext (Some (inbox V s ! ?n)))"
    using l n nth_mem [OF n(1)] by (auto simp: link_inv_def list_all_iff)
  show "take (Suc ?n) ?ms = take ?n ?ms @ [inbox V s ! ?n]" using n by (simp add: take_Suc_conv_app_nth)
qed

lemma yielded_seen: "tc_topic h = topic \<Longrightarrow> yielded h x = seen_as topic x"
  by (auto simp: yielded_def seen_as_def create_message_def split: sum.split prod.split)

lemma items_of_simps [simp]:
  "items_of V [] = []"
  "items_of V (xs @ ys) = items_of V xs @ items_of V ys"
  "items_of V (m # ms) = map (seen_as (se_topic V)) (forwards (se_engine V) m) @ items_of V ms"
  by (simp_all add: items_of_def)

lemma takes_message:
  assumes "session_inv V s" and "ss_taken s < length (inbox V s)" and "same_codecs (se_engine V) E"
    and "s' = engine_turn E (MessagesNext (Some (inbox V s ! ss_taken s))) (s\<lparr>ss_taken := Suc (ss_taken s)\<rparr>)"
  shows "session_inv V s'" and "queue_of V s' = queue_of V s"
    and "ss_running s' = (\<not> ends_topic (inbox V s ! ss_taken s))" and "ss_taken s' = Suc (ss_taken s)"
    and "inbox V s' = inbox V s" and "ss_sent s' = ss_sent s" and "ss_asked s' = ss_asked s"
    and "tc_engine_tx (ss_handle s') = tc_engine_tx (ss_handle s)" and "e_id (ss_engine s') = e_id (ss_engine s)"
    and "acks_of (engine_tx (ss_engine s')) = acks_of (engine_tx (ss_engine s))"
proof -
  let ?ev = "MessagesNext (Some (inbox V s ! ss_taken s))"
  have "link_inv V s" using assms(1) by (simp add: session_inv_def)
  note nm = next_message [OF this assms(2)]
  have c: "permits (take (Suc (ss_taken s)) (for_consumer V (ss_sent s))) =
        permits (take (ss_taken s) (for_consumer V (ss_sent s))) + consumed ?ev"
    using nm(2) by (simp add: consumed_def)
  have n: "Suc (ss_taken s) \<le> length (inbox V s)" using assms(2) by simp
  obtain e h where t: "engine_turn E ?ev (s\<lparr>ss_taken := Suc (ss_taken s), ss_asked := ss_asked s\<rparr>) =
      s\<lparr>ss_taken := Suc (ss_taken s), ss_asked := ss_asked s, ss_engine := e, ss_running := \<not> last_event ?ev,
        ss_handle := h\<rparr>"
      "session_inv V (s\<lparr>ss_taken := Suc (ss_taken s), ss_asked := ss_asked s, ss_engine := e,
        ss_running := \<not> last_event ?ev, ss_handle := h\<rparr>)"
      "tc_messages h = tc_messages (ss_handle s) @ event_items E ?ev" "tc_engine_tx h = tc_engine_tx (ss_handle s)"
      "e_id e = e_id (ss_engine s)"
      "acks_of (engine_tx e) = acks_of (engine_tx (ss_engine s)) @ event_acks (e_id (ss_engine s)) ?ev"
    by (rule engine_turn_inv [OF assms(1) nm(3) n c])
  have s': "s' = s\<lparr>ss_taken := Suc (ss_taken s), ss_asked := ss_asked s, ss_engine := e,
      ss_running := \<not> last_event ?ev, ss_handle := h\<rparr>"
    using assms(4) t(1) by simp
  show "session_inv V s'" using t(2) s' by simp
  show "queue_of V s' = queue_of V s"
    unfolding s' queue_of_def nm(1)
    using t(3) by (simp add: undelivered_def event_items_def forwards_same_codecs [OF assms(3)])
  show "ss_running s' = (\<not> ends_topic (inbox V s ! ss_taken s))" "ss_taken s' = Suc (ss_taken s)"
    "inbox V s' = inbox V s" "ss_sent s' = ss_sent s" "ss_asked s' = ss_asked s"
    "tc_engine_tx (ss_handle s') = tc_engine_tx (ss_handle s)" "e_id (ss_engine s') = e_id (ss_engine s)"
    "acks_of (engine_tx (ss_engine s')) = acks_of (engine_tx (ss_engine s))"
    unfolding s' using t(4-6) by (simp_all add: last_event_def inbox_def event_acks_def)
qed


text \<open>Requests of the application and the timer move no messages.\<close>

lemma other_turn:
  assumes "session_inv V s" and "ev = Timer \<or> ev = EngineNext (Some q)"
    and "s' = engine_turn E ev (s\<lparr>ss_asked := a\<rparr>)"
  shows "session_inv V s'" and "queue_of V s' = queue_of V s" and "ss_asked s' = a"
    and "tc_engine_tx (ss_handle s') = tc_engine_tx (ss_handle s)" and "e_id (ss_engine s') = e_id (ss_engine s)"
    and "acks_of (engine_tx (ss_engine s')) =
      acks_of (engine_tx (ss_engine s)) @ event_acks (e_id (ss_engine s)) ev"
proof -
  have l: "ss_taken s \<le> length (inbox V s)" using assms(1) by (simp add: session_inv_def link_inv_def)
  have ev: "undisturbed (e_dead_letter_policy (ss_engine s)) ev" "consumed ev = 0" "event_items E ev = []"
      "\<not> last_event ev"
    using assms(2) by (auto simp: undisturbed_def consumed_def event_items_def last_event_def)
  have c: "permits (take (ss_taken s) (for_consumer V (ss_sent s))) =
        permits (take (ss_taken s) (for_consumer V (ss_sent s))) + consumed ev"
    using ev(2) by simp
  obtain e h where t: "engine_turn E ev (s\<lparr>ss_taken := ss_taken s, ss_asked := a\<rparr>) =
      s\<lparr>ss_taken := ss_taken s, ss_asked := a, ss_engine := e, ss_running := \<not> last_event ev, ss_handle := h\<rparr>"
      "session_inv V (s\<lparr>ss_taken := ss_taken s, ss_asked := a, ss_engine := e, ss_running := \<not> last_event ev,
        ss_handle := h\<rparr>)"
      "tc_messages h = tc_messages (ss_handle s) @ event_items E ev" "tc_engine_tx h = tc_engine_tx (ss_handle s)"
      "e_id e = e_id (ss_engine s)"
      "acks_of (engine_tx e) = acks_of (engine_tx (ss_engine s)) @ event_acks (e_id (ss_engine s)) ev"
    by (rule engine_turn_inv [OF assms(1) ev(1) l c])
  have s': "s' = s\<lparr>ss_taken := ss_taken s, ss_asked := a, ss_engine := e, ss_running := \<not> last_event ev,
      ss_handle := h\<rparr>"
    using assms(3) t(1) by simp
  show "session_inv V s'" using t(2) s' by simp
  show "queue_of V s' = queue_of V s" using t(3) ev(3) by (simp add: s' queue_of_def undelivered_def)
  show "ss_asked s' = a" "tc_engine_tx (ss_handle s') = tc_engine_tx (ss_handle s)"
    "e_id (ss_engine s') = e_id (ss_engine s)"
    "acks_of (engine_tx (ss_engine s')) =
      acks_of (engine_tx (ss_engine s)) @ event_acks (e_id (ss_engine s)) ev"
    using t(4-6) by (simp_all add: s')
qed

lemma inv_handle:
  assumes "session_inv V s" and "tc_topic h = tc_topic (ss_handle s)"
  shows "session_inv V (s\<lparr>ss_handle := h\<rparr>)"
  using assms by (simp add: session_inv_def link_inv_def window_inv_def inbox_def)

lemma tc_poll_next_item:
  assumes "tc_poll_next now h = (Ready (Some x), h')"
  obtains y where "tc_messages h = y # tc_messages h'" "x = yielded h y" "tc_topic h' = tc_topic h"
    "tc_engine_tx h' = tc_engine_tx h"
  by (rule tc_poll_next_cases [of h now]) (use assms in auto)

lemma engine_send_handle:
  assumes "engine_send q h = (b, h')"
  shows "tc_topic h' = tc_topic h" and "tc_messages h' = tc_messages h"
    and "tc_engine_tx h' = tc_engine_tx h @ (if b then [q] else [])"
  using assms by (auto simp: engine_send_def split: if_splits)

section \<open>The refinement\<close>

lemma session_step_refines:
  assumes "wire_format (se_wire V)" and "session_inv V s" and "session_step V s l s'"
  shows "session_inv V s' \<and> queue_step (queue_of V s) (label_of V l) (queue_of V s')"
  using assms(3)
proof cases
  case (broker_sends m)
  have "ss_taken s \<le> length (for_consumer V (ss_sent s))"
    using assms(2) inbox_prefix [of V s] by (fastforce simp: session_inv_def link_inv_def)
  then show ?thesis
    using broker_sends broker_sends_inv [OF assms(2)]
    by (simp add: label_of_def queue_of_def undelivered_def)
next
  case (transport_reads gs n i b p r)
  then show ?thesis
    using transport_reads_inv [OF assms(1,2) transport_reads(3-5)]
    by (simp add: label_of_def queue_of_def undelivered_def)
next
  case (engine_takes_message E)
  then show ?thesis
    using takes_message [OF assms(2) engine_takes_message(4,5,2)] by (simp add: label_of_def)
next
  case (engine_takes_request E)
  then show ?thesis
    using other_turn [OF assms(2) _ engine_takes_request(2)] by (simp add: label_of_def)
next
  case (engine_timer E)
  have s': "s' = engine_turn E Timer (s\<lparr>ss_asked := ss_asked s\<rparr>)" using engine_timer by simp
  show ?thesis
    using other_turn [OF assms(2) _ s'] engine_timer by (simp add: label_of_def)
next
  case (application_polls now x h)
  obtain y where y: "tc_messages (ss_handle s) = y # tc_messages h" "x = yielded (ss_handle s) y"
      "tc_topic h = tc_topic (ss_handle s)"
    by (rule tc_poll_next_item [OF application_polls(3)])
  have "tc_topic (ss_handle s) = se_topic V" using assms(2) by (simp add: session_inv_def)
  then show ?thesis
    using application_polls y inv_handle [OF assms(2) y(3)]
    by (simp add: label_of_def queue_of_def undelivered_def yielded_seen)
next
  case (application_tells q h)
  then show ?thesis
    using engine_send_handle [OF application_tells(3)] inv_handle [OF assms(2)]
    by (simp add: label_of_def queue_of_def undelivered_def)
qed

interpretation subscription: queue_refinement "session_step V"
  "\<lambda>s. wire_format (se_wire V) \<and> session_inv V s" "queue_of V" "label_of V" for V
  by unfold_locales (use session_step_refines in blast)+

section \<open>Acknowledgements\<close>

text \<open>The acknowledgements for the requests the engine has taken.\<close>

definition acks_due :: "session \<Rightarrow> pulsar_message list" where
  "acks_due s = concat (map (ack_messages (e_id (ss_engine s))) (take (ss_asked s) (tc_engine_tx (ss_handle s))))"

text \<open>A step sends what becomes due with it.\<close>

lemma session_step_acks_new:
  assumes "session_inv V s" and "session_step V s l s'" and "ss_asked s \<le> length (tc_engine_tx (ss_handle s))"
  shows "\<exists>new. acks_of (engine_tx (ss_engine s')) = acks_of (engine_tx (ss_engine s)) @ new \<and>
    acks_due s' = acks_due s @ new \<and> e_id (ss_engine s') = e_id (ss_engine s) \<and>
    ss_asked s' \<le> length (tc_engine_tx (ss_handle s'))"
  using assms(2)
proof cases
  case (broker_sends m)
  then show ?thesis using assms(3) by (simp add: acks_due_def)
next
  case (transport_reads gs n i b p r)
  then show ?thesis using assms(3) by (simp add: acks_due_def)
next
  case (engine_takes_message E)
  then show ?thesis
    using takes_message [OF assms(1) engine_takes_message(4,5,2)] assms(3) by (simp add: acks_due_def)
next
  case (engine_takes_request E)
  then show ?thesis
    using other_turn [OF assms(1) _ engine_takes_request(2)] assms(3)
    by (simp add: acks_due_def event_acks_def take_Suc_conv_app_nth)
next
  case (engine_timer E)
  have s': "s' = engine_turn E Timer (s\<lparr>ss_asked := ss_asked s\<rparr>)" using engine_timer by simp
  show ?thesis
    using other_turn [OF assms(1) _ s'] assms(3) by (simp add: acks_due_def event_acks_def)
next
  case (application_polls now x h)
  then show ?thesis
    using assms(3) by (auto simp: acks_due_def elim: tc_poll_next_item)
next
  case (application_tells q h)
  then show ?thesis
    using engine_send_handle [OF application_tells(3)] assms(3) by (simp add: acks_due_def)
qed

text \<open>The acknowledgements on the connection are those of the requests the engine has taken.\<close>

definition acks_inv :: "pulsar_message list \<Rightarrow> session \<Rightarrow> bool" where
  "acks_inv A s \<longleftrightarrow>
     ss_asked s \<le> length (tc_engine_tx (ss_handle s)) \<and> acks_of (engine_tx (ss_engine s)) = A @ acks_due s"

lemma session_step_acks:
  assumes "session_inv V s" and "session_step V s l s'" and "acks_inv A s"
  shows "acks_inv A s' \<and> e_id (ss_engine s') = e_id (ss_engine s)"
  using session_step_acks_new [OF assms(1,2)] assms(3) by (auto simp: acks_inv_def)

lemma session_run_acks:
  assumes "runs (session_step V) s ls s'" and "wire_format (se_wire V)" and "session_inv V s" and "acks_inv A s"
  shows "acks_inv A s' \<and> e_id (ss_engine s') = e_id (ss_engine s)"
  using assms
proof (induction rule: runs.induct)
  case (runs_snoc s ls s' l s'')
  then have "session_inv V s'" using subscription.run_inv by blast
  from session_step_acks [OF this runs_snoc.hyps(2), of A] runs_snoc show ?case by auto
qed simp

section \<open>Progress\<close>

definition got_items :: "session_label list \<Rightarrow> (pulsar_error, ConsMessage) res list" where
  "got_items ls = concat (map (\<lambda>l. case l of Got x \<Rightarrow> [x] | _ \<Rightarrow> []) ls)"

definition sent_messages :: "session_label list \<Rightarrow> pulsar_message list" where
  "sent_messages ls = concat (map (\<lambda>l. case l of Sent m \<Rightarrow> [m] | _ \<Rightarrow> []) ls)"

lemma label_items:
  "taken_items (map (label_of V) ls) = got_items ls"
  "put_items (map (label_of V) ls) = items_of V (for_consumer V (sent_messages ls))"
  by (induction ls) (auto simp: got_items_def sent_messages_def label_of_def split: session_label.split)

text \<open>The engine can take all that the receiver has delivered.\<close>

lemma engine_catches_up:
  assumes "session_inv V s" and "ss_running s" and "inbox V s = for_consumer V (ss_sent s)"
    and "list_all (\<lambda>m. \<not> ends_topic m) (for_consumer V (ss_sent s))"
  shows "\<exists>ls s'. runs (session_step V) s ls s' \<and> got_items ls = [] \<and> sent_messages ls = [] \<and>
    undelivered V s' = []"
  using assms
proof (induction "length (inbox V s) - ss_taken s" arbitrary: s)
  case 0
  then have "undelivered V s = []" by (simp add: undelivered_def)
  then show ?case by (intro exI [of _ "[]"] exI [of _ s]) (simp add: runs.runs_Nil got_items_def sent_messages_def)
next
  case (Suc k)
  let ?s = "engine_turn (se_engine V) (MessagesNext (Some (inbox V s ! ss_taken s))) (s\<lparr>ss_taken := Suc (ss_taken s)\<rparr>)"
  have lt: "ss_taken s < length (inbox V s)" and same: "same_codecs (se_engine V) (se_engine V)"
    using Suc.hyps(2) by (simp_all add: same_codecs_def)
  note t = takes_message [OF Suc.prems(1) lt same refl]
  have "session_step V s Internal ?s" by (rule engine_takes_message [OF Suc.prems(2) lt same])
  then have one: "runs (session_step V) s [Internal] ?s" by (rule runs_one)
  have "\<not> ends_topic (inbox V s ! ss_taken s)"
    using Suc.prems(3,4) lt nth_mem by (fastforce simp: list_all_iff)
  then have "\<exists>ls s'. runs (session_step V) ?s ls s' \<and> got_items ls = [] \<and> sent_messages ls = [] \<and>
      undelivered V s' = []"
    using t Suc.hyps(2) Suc.prems by (intro Suc.hyps(1)) simp_all
  then obtain ls s' where "runs (session_step V) ?s ls s'" "got_items ls = []" "sent_messages ls = []"
      "undelivered V s' = []" by blast
  with runs_trans [OF this(1) one] show ?case
    by (intro exI [of _ "[Internal] @ ls"] exI [of _ s']) (simp add: got_items_def sent_messages_def)
qed

text \<open>The application can take all that is queued for it.\<close>

lemma application_catches_up:
  assumes "undelivered V s = []" and "tc_topic (ss_handle s) = se_topic V"
  shows "\<exists>ls s'. runs (session_step V) s ls s' \<and> sent_messages ls = [] \<and> queue_of V s' = []"
  using assms
proof (induction "tc_messages (ss_handle s)" arbitrary: s)
  case Nil
  then have "queue_of V s = []" by (simp add: queue_of_def)
  then show ?case by (intro exI [of _ "[]"] exI [of _ s]) (simp add: runs.runs_Nil sent_messages_def)
next
  case (Cons x xs)
  obtain h where p: "tc_poll_next 0 (ss_handle s) = (Ready (Some (yielded (ss_handle s) x)), h)"
      "tc_messages h = xs" "tc_topic h = tc_topic (ss_handle s)"
    by (rule tc_poll_next_cases [of "ss_handle s" 0]) (use Cons.hyps(2) in auto)
  let ?s = "s\<lparr>ss_handle := h\<rparr>"
  have one: "runs (session_step V) s [Got (yielded (ss_handle s) x)] ?s"
    by (intro runs_one application_polls [OF p(1)])
  have "\<exists>ls s'. runs (session_step V) ?s ls s' \<and> sent_messages ls = [] \<and> queue_of V s' = []"
    using p Cons.prems by (intro Cons.hyps(1)) (simp_all add: undelivered_def)
  then obtain ls s' where "runs (session_step V) ?s ls s'" "sent_messages ls = []" "queue_of V s' = []"
    by blast
  with runs_trans [OF this(1) one] show ?case
    by (intro exI [of _ "[Got (yielded (ss_handle s) x)] @ ls"] exI [of _ s']) (simp add: sent_messages_def)
qed

lemma session_progress:
  assumes "wire_format (se_wire V)" and "session_inv V s" and "ss_running s"
    and "list_all (\<lambda>m. \<not> ends_topic m) (for_consumer V (ss_sent s))"
  shows "\<exists>ls' s'. runs (session_step V) s ls' s' \<and> sent_messages ls' = [] \<and> got_items ls' = queue_of V s"
proof -
  note inv = assms(2)
  obtain i b where read: "read_input V (length (ss_link s)) [] s = (i, b)" by fastforce
  obtain p r where poll: "poll i (ss_receiver s) = (p, r)" by fastforce
  let ?s = "s\<lparr>ss_link := drop (length (ss_link s)) (ss_link s), ss_buffer := b, ss_receiver := r\<rparr>"
  have "session_step V s Internal ?s" by (rule transport_reads [OF _ read poll]) simp
  then have one: "runs (session_step V) s [Internal] ?s" by (rule runs_one)
  have inv1: "session_inv V ?s" using transport_reads_inv [OF assms(1) inv _ read poll] by simp
  have all: "inbox V ?s = for_consumer V (ss_sent ?s)"
    using transport_reads_link(2) [OF assms(1) _ _ read poll] inv by (simp add: session_inv_def)
  obtain ls1 s1 where one1: "runs (session_step V) ?s ls1 s1" "got_items ls1 = []" "sent_messages ls1 = []"
      "undelivered V s1 = []"
    using engine_catches_up [OF inv1 _ all] assms(3,4) by auto
  have "tc_topic (ss_handle s1) = se_topic V"
    using subscription.run_inv [OF one1(1)] assms(1) inv1 by (simp add: session_inv_def)
  from application_catches_up [OF one1(4) this] obtain ls2 s2 where
    two: "runs (session_step V) s1 ls2 s2" "sent_messages ls2 = []" "queue_of V s2 = []" by blast
  have run: "runs (session_step V) s ([Internal] @ ls1 @ ls2) s2"
    using runs_trans [OF runs_trans [OF two(1) one1(1)] one] by simp
  have sent: "sent_messages ([Internal] @ ls1 @ ls2) = []" using one1(3) two(2) by (simp add: sent_messages_def)
  have "got_items ([Internal] @ ls1 @ ls2) = queue_of V s"
    using subscription.run_order [OF run] assms(1) inv unfolding label_items two(3) sent by simp
  with run sent show ?thesis by blast
qed

section \<open>Permits\<close>



definition miscounted :: "pulsar_message list \<Rightarrow> nat" where
  "miscounted ms = sum_list (map (\<lambda>m. if message (command m) = None then unat (permits_used m) else 0) ms)"


lemma miscounted_append [simp]: "miscounted (xs @ ys) = miscounted xs + miscounted ys"
  by (simp add: miscounted_def)













section \<open>Starting a subscription\<close>

text \<open>The system around a consumer that has just been created, with the receiver of its connection.\<close>

definition session_new :: "Receiver \<Rightarrow> TopicConsumer \<Rightarrow> ConsumerEngine \<Rightarrow> session" where
  "session_new r c e =
     \<lparr>ss_link = [], ss_buffer = [], ss_receiver = r, ss_taken = 0, ss_engine = e, ss_running = True,
      ss_asked = 0, ss_handle = c, ss_sent = []\<rparr>"

definition session_env_new ::
  "wire \<Rightarrow> base_command prost \<Rightarrow> message_metadata prost \<Rightarrow> engine_env \<Rightarrow> nat \<Rightarrow> TopicConsumer
     \<Rightarrow> ConsumerEngine \<Rightarrow> session_env" where
  "session_env_new W P M E ch c e =
     \<lparr>se_wire = W, se_commands = P, se_metadata = M, se_consumer = tc_consumer_id c, se_topic = tc_topic c,
      se_channel = ch, se_granted = granted (engine_tx e) - unat (e_batch_size e), se_engine = E\<rparr>"

text \<open>A consumer that was created starts a subscription, once the receiver has taken its registration.\<close>

lemma created_session_start:
  assumes "topic_consumer_new CE topic addr config = Some (Inr (c, e))" and "is_valid (e_connection e)"
    and "sole_channel r (tc_consumer_id c) (ce_channel CE)" and "deliveries (ce_channel CE) (effects r) = []"
  shows "session_start (session_env_new W P M E (ce_channel CE) c e) (session_new r c e)"
proof (rule topic_consumer_new_Inr [OF assms(1)])
  fix i n conn s
  assume flow: "send_flow i n (conn_sender conn) = (Inr (), s)"
    and c: "tc_topic c = topic" "tc_engine_tx c = []" "tc_messages c = []"
    and e: "e = engine_new (conn\<lparr>conn_sender := s\<rparr>) topic (cc_subscription config) (cc_sub_type config) i
       (cc_consumer_name config) (ce_channel CE) n (cc_redelivery_delay config)
       (cc_dead_letter_policy config) (cc_options config)"
  have s: "s = (conn_sender conn)\<lparr>cs_tx := cs_tx (conn_sender conn) @ [messages_flow i n]\<rparr>"
    by (rule send_flow_Inr [OF flow])
  moreover have "cs_tx_open (conn_sender conn)"
    using flow by (simp add: send_flow_def tx_send_def split: if_splits)
  ultimately have "working e" "granted (engine_tx e) = granted (cs_tx (conn_sender conn)) + unat n"
    using assms(2) by (simp_all add: e engine_new_def working_def healthy_def listening_def engine_tx_def)
  then show ?thesis
    using c assms(3,4)
    by (simp add: session_start_def session_env_new_def session_new_def inbox_def e engine_new_def)
qed

section \<open>Properties of a subscription\<close>

text \<open>C1: A subscription is a queue. Whatever the interleaving of broker, transport, receiver, engine and
  application, and however the bytes are cut into reads, what the application has received so far
  followed by what is still under way is exactly what the messages the broker sent to the consumer
  unpack to, in the order of sending: nothing is lost, repeated, invented or reordered.\<close>

theorem subscription_is_queue:
  assumes "wire_format (se_wire V)" and "session_start V s\<^sub>0" and "runs (session_step V) s\<^sub>0 ls s"
  shows "got_items ls @ map (seen_as (se_topic V)) (tc_messages (ss_handle s)) @ items_of V (undelivered V s) =
    items_of V (for_consumer V (sent_messages ls))"
proof -
  have "queue_of V s\<^sub>0 = []" using assms(2) by (simp add: session_start_def queue_of_def undelivered_def)
  with subscription.run_order [OF assms(3)] assms(1) session_start_inv [OF assms(2)] show ?thesis
    by (simp add: label_items queue_of_def)
qed


text \<open>Acknowledgements keep their order. Whatever the interleaving, the acknowledgements on the
  connection are exactly those of the requests of the application that its engine has taken, in the
  order in which the application made them.\<close>

theorem subscription_acks_in_order:
  assumes "wire_format (se_wire V)" and "session_start V s\<^sub>0" and "runs (session_step V) s\<^sub>0 ls s"
  shows "acks_of (engine_tx (ss_engine s)) = acks_of (engine_tx (ss_engine s\<^sub>0)) @
    concat (map (ack_messages (e_id (ss_engine s\<^sub>0))) (take (ss_asked s) (tc_engine_tx (ss_handle s))))"
proof -
  have "acks_inv (acks_of (engine_tx (ss_engine s\<^sub>0))) s\<^sub>0"
    using assms(2) by (simp add: session_start_def acks_inv_def acks_due_def)
  from session_run_acks [OF assms(3,1) session_start_inv [OF assms(2)] this]
  have "acks_inv (acks_of (engine_tx (ss_engine s\<^sub>0))) s \<and> e_id (ss_engine s) = e_id (ss_engine s\<^sub>0)" .
  then show ?thesis by (simp add: acks_inv_def acks_due_def)
qed

text \<open>What is under way can be received. From every state that a subscription reaches with its engine
  running and no end of the topic announced, transport, receiver, engine and application alone, with
  no help from the broker, come to a state in which the application has received everything that
  was under way.\<close>

theorem subscription_makes_progress:
  assumes "wire_format (se_wire V)" and "session_start V s\<^sub>0" and "runs (session_step V) s\<^sub>0 ls s"
    and "ss_running s" and "list_all (\<lambda>m. \<not> ends_topic m) (for_consumer V (ss_sent s))"
  shows "\<exists>ls' s'. runs (session_step V) s ls' s' \<and> sent_messages ls' = [] \<and>
    got_items ls' = map (seen_as (se_topic V)) (tc_messages (ss_handle s)) @ items_of V (undelivered V s)"
proof -
  have "session_inv V s"
    using subscription.run_inv [OF assms(3)] assms(1) session_start_inv [OF assms(2)] by simp
  from session_progress [OF assms(1) this assms(4,5)] show ?thesis unfolding queue_of_def .
qed

section \<open>Instances for concrete inputs\<close>

text \<open>The consumer of the example in \<open>Consumer\<close>, sent one message.\<close>

definition ex_session_env :: session_env where
  "ex_session_env =
     session_env_new be_wire (table_prost [(command (ex_inbound None), [8, 9, 66, 0])]) ex_metadata ex_env
       (ce_channel ex_consumer_env) (fst ex_created_consumer) (snd ex_created_consumer)"

definition ex_session :: session where
  "ex_session =
     session_new (handle_registration (RegConsumer 2 5) (receiver_new shared_error_new))
       (fst ex_created_consumer) (snd ex_created_consumer)"

lemma ex_created_fields:
  "tc_consumer_id (fst ex_created_consumer) = 2" "is_valid (e_connection (snd ex_created_consumer))"
  "tc_topic (fst ex_created_consumer) = ''t''" "tc_messages (fst ex_created_consumer) = []"
  "e_dead_letter_policy (snd ex_created_consumer) = None"
  "granted (engine_tx (snd ex_created_consumer)) = 10" "e_batch_size (snd ex_created_consumer) = 10"
  unfolding ex_created_consumer_def
  by (simp_all add: topic_consumer_new_def ex_consumer_env_def ex_config_def ex_subscribed_def
      subscribe_once_def sender_subscribe_def next_request_id_eq registrations_send_def
      send_message_def open_channel_def tx_send_def ex_conn_def connection_sender_new_def
      extract_message_def ex_success_def send_flow_def is_valid_def shared_error_is_set_def shared_error_new_def
      engine_new_def granted_def engine_tx_def proto_simps)

lemma ex_session_start: "session_start ex_session_env ex_session"
  unfolding ex_session_env_def ex_session_def
  by (rule created_session_start [OF ex_creation_consumer])
    (simp_all add: sole_channel_def receiver_new_def ex_consumer_env_def ex_created_fields)

definition ex_session_sent :: session where
  "ex_session_sent = ex_session
     \<lparr>ss_link := frame_of ex_session_env (ex_inbound None), ss_sent := [ex_inbound None]\<rparr>"

lemma ex_session_fields:
  "ss_sent ex_session = []" "ss_link ex_session = []" "ss_running ex_session" "ss_asked ex_session = 0"
  "ss_engine ex_session = snd ex_created_consumer" "ss_handle ex_session = fst ex_created_consumer"
  by (simp_all add: ex_session_def session_new_def)

lemma ex_inbound_for_consumer: "consumer_of (ex_inbound None) = Some 2"
  by (simp add: consumer_of_def ex_inbound_def request_key_def request_ids_def producer_keys_def
      consumer_keys_def proto_simps)

lemma ex_session_sends: "session_step ex_session_env ex_session (Sent (ex_inbound None)) ex_session_sent"
proof -
  have "encodable (table_prost [(command (ex_inbound None), [8, 9, 66, 0])]) ex_metadata (ex_inbound None)"
    by (simp add: encodable_def prost_inverse_def frame_size_def ex_metadata_def table_prost_def ex_inbound_def)
  moreover have "se_consumer ex_session_env = 2" "se_granted ex_session_env = 0"
      "se_commands ex_session_env = table_prost [(command (ex_inbound None), [8, 9, 66, 0])]"
      "se_metadata ex_session_env = ex_metadata"
    by (simp_all add: ex_session_env_def session_env_new_def ex_created_fields)
  moreover have "undisturbed None (MessagesNext (Some (ex_inbound None)))"
      "permits_used (ex_inbound None) = 1"
    by (simp_all add: undisturbed_def deliverable_def ex_inbound_def permits_used_def proto_simps
        default_message_metadata_def)
  ultimately have "may_send ex_session_env ex_session (ex_inbound None)"
    by (simp add: may_send_def ex_session_fields ex_created_fields ex_inbound_for_consumer)
  from broker_sends [OF this] show ?thesis by (simp add: ex_session_sent_def ex_session_fields)
qed

lemma ex_session_run: "runs (session_step ex_session_env) ex_session [Sent (ex_inbound None)] ex_session_sent"
  using ex_session_sends by (rule runs_one)

theorem subscription_is_queue_witness:
  "got_items [Sent (ex_inbound None)] @
     map (seen_as (se_topic ex_session_env)) (tc_messages (ss_handle ex_session_sent)) @
     items_of ex_session_env (undelivered ex_session_env ex_session_sent) =
   items_of ex_session_env (for_consumer ex_session_env (sent_messages [Sent (ex_inbound None)]))"
  by (rule subscription_is_queue [OF _ ex_session_start ex_session_run])
    (simp add: ex_session_env_def session_env_new_def be.wire_format_axioms)



theorem subscription_makes_progress_witness:
  "\<exists>ls' s'. runs (session_step ex_session_env) ex_session_sent ls' s' \<and> sent_messages ls' = [] \<and>
    got_items ls' =
      map (seen_as (se_topic ex_session_env)) (tc_messages (ss_handle ex_session_sent)) @
      items_of ex_session_env (undelivered ex_session_env ex_session_sent)"
proof (rule subscription_makes_progress [OF _ ex_session_start ex_session_run])
  show "wire_format (se_wire ex_session_env)"
    by (simp add: ex_session_env_def session_env_new_def be.wire_format_axioms)
  show "ss_running ex_session_sent" by (simp add: ex_session_sent_def ex_session_fields)
  show "list_all (\<lambda>m. \<not> ends_topic m) (for_consumer ex_session_env (ss_sent ex_session_sent))"
    by (simp add: ex_session_sent_def ends_topic_def ex_inbound_def proto_simps)
qed

text \<open>The application acknowledges a message and the engine takes the request.\<close>

definition ex_ack_request :: EngineMessage where
  "ex_ack_request = EngineAck \<lparr>md_id = MessageIdData 1 7 None None [] None None, md_batch_size = None\<rparr> False"

definition ex_session_told :: session where
  "ex_session_told = ex_session\<lparr>ss_handle := snd (engine_send ex_ack_request (ss_handle ex_session))\<rparr>"

definition ex_session_acked :: session where
  "ex_session_acked =
     engine_turn ex_env (EngineNext (Some (tc_engine_tx (ss_handle ex_session_told) ! 0)))
       (ex_session_told\<lparr>ss_asked := Suc 0\<rparr>)"

lemma ex_session_acked_run:
  "runs (session_step ex_session_env) ex_session [Internal, Internal] ex_session_acked"
proof -
  let ?h = "snd (engine_send ex_ack_request (ss_handle ex_session))"
  have o: "tc_engine_open (ss_handle ex_session)"
    by (rule topic_consumer_new_Inr [OF ex_creation_consumer]) (simp add: ex_session_fields)
  then have send: "engine_send ex_ack_request (ss_handle ex_session) = (True, ?h)" and
    tx: "tc_engine_tx ?h \<noteq> []"
    by (simp_all add: engine_send_def)
  have one: "runs (session_step ex_session_env) ex_session [Internal] ex_session_told"
    unfolding ex_session_told_def by (intro runs_one application_tells [OF send])
  have "session_step ex_session_env ex_session_told Internal ex_session_acked"
    using engine_takes_request [of ex_session_told ex_session_env ex_env] tx
    by (simp add: ex_session_acked_def ex_session_told_def ex_session_fields)
  from runs.runs_snoc [OF one this] show ?thesis by simp
qed

theorem subscription_acks_in_order_witness:
  "acks_of (engine_tx (ss_engine ex_session_acked)) = acks_of (engine_tx (ss_engine ex_session)) @
    concat (map (ack_messages (e_id (ss_engine ex_session)))
      (take (ss_asked ex_session_acked) (tc_engine_tx (ss_handle ex_session_acked))))"
  by (rule subscription_acks_in_order [OF _ ex_session_start ex_session_acked_run])
    (simp add: ex_session_env_def session_env_new_def be.wire_format_axioms)

end
