(* ===== verification/Reconnection.thy ===== *)
theory Reconnection
  imports Session
begin

text \<open>
  The whole life of a subscription, over several connections. Here a turn of the engine is taken apart: it begins
  with the check of the connection and the refill of the window, which may subscribe again on another connection or
  end the engine, and then waits; while it waits, anything may happen to its connection, which it shares with the
  rest of the client. The engine may be woken by a message, by a request of the application, by the timer, by the
  broker closing the consumer, or by the end of the message channel, on which it panics; and after an
  interrupted wait it may still listen on the channel of an earlier subscription (\<open>ConsumerEngine::engine\<close>
  and \<open>reconnect\<close> in \<open>src/consumer.rs\<close>).
\<close>

section \<open>Subscribing again\<close>

text \<open>The connection that a reconnection is given, and which reconnection the beginning of a turn makes.\<close>

definition offered :: "reconnect_env \<Rightarrow> Connection option" where
  "offered R =
     (case rc_lookup R of
        Inl _ \<Rightarrow> None
      | Inr a \<Rightarrow> (case rc_connection R a of Inl _ \<Rightarrow> None | Inr conn \<Rightarrow> Some conn))"

definition reconnecting :: "engine_env \<Rightarrow> ConsumerEngine \<Rightarrow> reconnect_env option" where
  "reconnecting E e =
     (if \<not> is_valid (e_connection e) \<and> fst (connection_error (e_connection e)) \<noteq> None then Some (ee_rc_check E)
      else if e_remaining_messages e < e_batch_size e div 2 \<and> \<not> cs_tx_open (conn_sender (e_connection e))
      then Some (ee_rc_flow E)
      else None)"

text \<open>What was on the queue of the connection that the engine uses after a reconnection, before it used it.\<close>

definition tx_before :: "reconnect_env \<Rightarrow> ConsumerEngine \<Rightarrow> pulsar_message list" where
  "tx_before R e = (case offered R of None \<Rightarrow> engine_tx e | Some conn \<Rightarrow> cs_tx (conn_sender conn))"

definition begin_tx :: "engine_env \<Rightarrow> ConsumerEngine \<Rightarrow> pulsar_message list" where
  "begin_tx E e = (case reconnecting E e of None \<Rightarrow> engine_tx e | Some R \<Rightarrow> tx_before R e)"

text \<open>What the engine keeps when it subscribes again, and what it leaves on the new connection.\<close>

definition subscribed :: "reconnect_env \<Rightarrow> Connection \<Rightarrow> ConsumerEngine \<Rightarrow> ConsumerEngine \<Rightarrow> bool" where
  "subscribed R conn e e' \<longleftrightarrow>
     e_messages_rx e' = Some (rc_channel R) \<and> e_held e' = e_held e \<and> same_engine e e' \<and> e_tx e' = e_tx e \<and>
     cs_tx_open (conn_sender (e_connection e')) \<and>
     acks_of (engine_tx e') = acks_of (cs_tx (conn_sender conn)) \<and>
     (\<exists>n k. cs_registrations (conn_sender (e_connection e')) =
        cs_registrations (conn_sender conn) @ [RegConsumer (e_id e) (rc_channel R), RegRequest (RequestId n) k])"

lemma acks_of_subscribe [simp]: "acks_of [messages_subscribe t s st i r name options] = []"
  by (simp add: acks_of_def proto_simps)

lemma send_message_tx:
  "cs_tx (snd (send_message dbg msg key extract w s)) =
     cs_tx s @ (if cs_tx_open s then [msg] else [])"
  by (auto simp: send_message_def open_channel_def registrations_send_def tx_send_def split: awaited.split)

lemma sender_subscribe_acks:
  "acks_of (cs_tx (snd (sender_subscribe dbg ch topic sub st i name options w s))) = acks_of (cs_tx s)"
  by (auto simp: sender_subscribe_def next_request_id_eq registrations_send_def send_message_tx Let_def
      split: bool.split)

lemma sender_subscribe_Inr:
  assumes "sender_subscribe dbg ch topic sub st i name options w s = (Inr r, s')"
  shows "cs_tx_open s'" and
    "\<exists>n k. cs_registrations s' = cs_registrations s @ [RegConsumer i ch, RegRequest (RequestId n) k]"
  using assms
  by (auto simp: sender_subscribe_def next_request_id_eq registrations_send_def send_message_def
      open_channel_def tx_send_def Let_def split: if_splits awaited.splits)

lemma send_flow_cases:
  "send_flow i n s =
     (if cs_tx_open s then (Inr (), s\<lparr>cs_tx := cs_tx s @ [messages_flow i n]\<rparr>) else (Inl Disconnected, s))"
  by (simp add: send_flow_def tx_send_def)

lemma reconnect_Inr:
  assumes "reconnect dbg R e = (Inr (), e')"
  shows "\<exists>conn. offered R = Some conn \<and> subscribed R conn e e'"
proof -
  obtain a conn where o: "rc_lookup R = Inr a" "rc_connection R a = Inr conn"
    using assms by (auto simp: reconnect_def split: sum.splits)
  obtain r s1 where s1: "sender_subscribe dbg (rc_channel R) (e_topic e) (e_subscription e) (e_sub_type e)
      (e_id e) (e_name e) (e_options e) (rc_response R) (conn_sender conn) = (r, s1)" by fastforce
  with assms o obtain x where r: "r = Inr x" by (cases r) (auto simp: reconnect_def on_sender_def)
  note sub = sender_subscribe_Inr [OF s1 [unfolded r]]
  have "acks_of (cs_tx s1) = acks_of (cs_tx (conn_sender conn))" using sender_subscribe_acks [of dbg] s1 by (metis snd_conv)
  with assms o s1 r sub show ?thesis
    by (auto simp: reconnect_def on_sender_def send_flow_cases subscribed_def same_engine_def engine_tx_def
        offered_def Let_def)
qed

lemma reconnect_Inl:
  assumes "reconnect dbg R e = (Inl err, e')"
  shows "same_engine e e' \<and> e_tx e' = e_tx e \<and> listening e' = listening e \<and>
    acks_of (engine_tx e') = acks_of (tx_before R e)"
proof (cases "offered R")
  case None
  with assms show ?thesis
    by (auto simp: reconnect_def offered_def tx_before_def split: sum.splits)
next
  case (Some conn)
  then obtain a where o: "rc_lookup R = Inr a" "rc_connection R a = Inr conn"
    by (auto simp: offered_def split: sum.splits)
  obtain r s1 where s1: "sender_subscribe dbg (rc_channel R) (e_topic e) (e_subscription e) (e_sub_type e)
      (e_id e) (e_name e) (e_options e) (rc_response R) (conn_sender conn) = (r, s1)" by fastforce
  have "acks_of (cs_tx s1) = acks_of (cs_tx (conn_sender conn))" using sender_subscribe_acks [of dbg] s1 by (metis snd_conv)
  with assms o s1 Some sender_subscribe_Inr(1) [of dbg] show ?thesis
    by (cases r) (auto simp: reconnect_def on_sender_def send_flow_cases same_engine_def engine_tx_def listening_def
        tx_before_def Let_def split: if_splits option.split)
qed

section \<open>The beginning of a turn\<close>

lemma connection_error_tx:
  "conn_sender (snd (connection_error c)) = (conn_sender c)\<lparr>cs_error := snd (shared_error_remove (cs_error (conn_sender c)))\<rparr>"
  by (simp add: connection_error_def split: prod.split)

text \<open>A beginning that does not subscribe again.\<close>

lemma begin_stays:
  assumes "reconnecting E e = None" and "engine_begin E e = (r, e')"
  shows "r = Inr () \<and> same_engine e e' \<and> e_tx e' = e_tx e \<and> listening e' = listening e \<and>
    acks_of (engine_tx e') = acks_of (engine_tx e) \<and> (healthy e \<longrightarrow> healthy e')"
proof -
  obtain c where c: "check_connection E e = (Inr (), e\<lparr>e_connection := c\<rparr>)"
      "cs_tx (conn_sender c) = engine_tx e" "cs_tx_open (conn_sender c) = cs_tx_open (conn_sender (e_connection e))"
      "is_valid (e_connection e) \<longrightarrow> is_valid c"
  proof (cases "is_valid (e_connection e)")
    case True
    then show thesis by (intro that [of "e_connection e"]) (simp_all add: check_connection_def engine_tx_def)
  next
    case False
    with assms(1) have "fst (connection_error (e_connection e)) = None"
      by (simp add: reconnecting_def split: if_splits)
    with False show thesis
      by (intro that [of "snd (connection_error (e_connection e))"])
        (auto simp: check_connection_def engine_tx_def connection_error_tx split: prod.split)
  qed
  have "e_remaining_messages e < e_batch_size e div 2 \<Longrightarrow> cs_tx_open (conn_sender c)"
    using assms(1) c(3) by (simp add: reconnecting_def split: if_splits)
  with assms(2) c show ?thesis
    by (auto simp: engine_begin_def refill_def on_sender_def send_flow_cases same_engine_def engine_tx_def listening_def
        healthy_def is_valid_def split: if_splits option.split)
qed

lemma refill_open:
  assumes "cs_tx_open (conn_sender (e_connection e))" and "refill E e = (r, e')"
  shows "r = Inr () \<and> same_engine e e' \<and> e_tx e' = e_tx e \<and> e_held e' = e_held e \<and> e_messages_rx e' = e_messages_rx e \<and>
    acks_of (engine_tx e') = acks_of (engine_tx e) \<and> cs_tx_open (conn_sender (e_connection e')) \<and>
    cs_registrations (conn_sender (e_connection e')) = cs_registrations (conn_sender (e_connection e))"
  using assms
  by (auto simp: refill_def on_sender_def send_flow_cases same_engine_def engine_tx_def split: if_splits)

lemma subscribed_then:
  assumes "subscribed R conn e e1" and "same_engine e1 e'" and "e_tx e' = e_tx e1" and "e_held e' = e_held e1"
    and "e_messages_rx e' = e_messages_rx e1" and "acks_of (engine_tx e') = acks_of (engine_tx e1)"
    and "cs_tx_open (conn_sender (e_connection e'))"
    and "cs_registrations (conn_sender (e_connection e')) = cs_registrations (conn_sender (e_connection e1))"
  shows "subscribed R conn e e'"
  using assms by (auto simp: subscribed_def intro: same_engine_trans)

lemma begin_subscribes:
  assumes "reconnecting E e = Some R" and "engine_begin E e = (Inr (), e')"
  shows "\<exists>conn. offered R = Some conn \<and> subscribed R conn e e'"
proof (cases "\<not> is_valid (e_connection e) \<and> fst (connection_error (e_connection e)) \<noteq> None")
  case True
  then obtain err c where c: "connection_error (e_connection e) = (Some err, c)" by (metis option.exhaust prod.collapse)
  have R: "R = ee_rc_check E" using True assms(1) by (simp add: reconnecting_def)
  with True c assms(2) obtain e1 where e1: "reconnect (ee_dbg E) R (e\<lparr>e_connection := c\<rparr>) = (Inr (), e1)"
      "refill E e1 = (Inr (), e')"
    by (auto simp: engine_begin_def check_connection_def split: sum.splits prod.splits)
  from reconnect_Inr [OF e1(1)] obtain conn where conn: "offered R = Some conn"
      "subscribed R conn (e\<lparr>e_connection := c\<rparr>) e1" by blast
  then have s: "subscribed R conn e e1" by (simp add: subscribed_def same_engine_def)
  with refill_open [OF _ e1(2)] have "subscribed R conn e e'"
    by (intro subscribed_then [OF s]) (simp_all add: subscribed_def)
  with conn(1) show ?thesis by blast
next
  case False
  have flow: "R = ee_rc_flow E" "e_remaining_messages e < e_batch_size e div 2"
      "\<not> cs_tx_open (conn_sender (e_connection e))"
    using False assms(1) by (auto simp: reconnecting_def split: if_splits)
  define c where "c = (if is_valid (e_connection e) then e_connection e else snd (connection_error (e_connection e)))"
  have c: "check_connection E e = (Inr (), e\<lparr>e_connection := c\<rparr>)" "\<not> cs_tx_open (conn_sender c)"
    using False flow(3) by (auto simp: check_connection_def c_def connection_error_tx split: prod.split)
  then obtain e1 where e1: "reconnect (ee_dbg E) R (e\<lparr>e_connection := c\<rparr>) = (Inr (), e1)"
      "e' = snd (on_sender (send_flow (e_id e1) (e_batch_size e1 - e_remaining_messages e1)) e1)
        \<lparr>e_remaining_messages := e_batch_size e1\<rparr>"
    using assms(2) flow
    by (auto simp: engine_begin_def refill_def on_sender_def send_flow_cases split: sum.splits prod.splits if_splits)
  from reconnect_Inr [OF e1(1)] obtain conn where conn: "offered R = Some conn"
      "subscribed R conn (e\<lparr>e_connection := c\<rparr>) e1" by blast
  then have s: "subscribed R conn e e1" by (simp add: subscribed_def same_engine_def)
  then have "subscribed R conn e e'"
    by (intro subscribed_then [OF s])
      (simp_all add: e1(2) on_sender_def send_flow_cases subscribed_def same_engine_def engine_tx_def)
  with conn(1) show ?thesis by blast
qed

lemma begin_fails:
  assumes "engine_begin E e = (Inl err, e')"
  shows "same_engine e e' \<and> e_tx e' = e_tx e \<and> listening e' = listening e \<and>
    acks_of (engine_tx e') = acks_of (begin_tx E e)"
proof -
  define c where "c = (if is_valid (e_connection e) then e_connection e else snd (connection_error (e_connection e)))"
  have tx: "cs_tx (conn_sender c) = engine_tx e" by (simp add: c_def engine_tx_def connection_error_tx)
  let ?e = "e\<lparr>e_connection := c\<rparr>"
  have "\<exists>R err'. reconnecting E e = Some R \<and> reconnect (ee_dbg E) R ?e = (Inl err', e')"
  proof (cases "\<not> is_valid (e_connection e) \<and> fst (connection_error (e_connection e)) \<noteq> None")
    case True
    then have R: "reconnecting E e = Some (ee_rc_check E)"
        "check_connection E e = reconnect (ee_dbg E) (ee_rc_check E) ?e"
      by (auto simp: reconnecting_def check_connection_def c_def split: prod.split)
    obtain q e1 where q: "reconnect (ee_dbg E) (ee_rc_check E) ?e = (q, e1)" by fastforce
    show ?thesis
    proof (cases q)
      case (Inl x)
      with assms R q show ?thesis by (simp add: engine_begin_def)
    next
      case (Inr u)
      obtain r1 e2 where refilled: "refill E e1 = (r1, e2)" by fastforce
      have "cs_tx_open (conn_sender (e_connection e1))" using reconnect_Inr [of _ _ ?e e1] q Inr by (auto simp: subscribed_def)
      from refill_open [OF this refilled] assms R q Inr refilled show ?thesis by (simp add: engine_begin_def)
    qed
  next
    case False
    then have check: "check_connection E e = (Inr (), ?e)"
      by (auto simp: check_connection_def c_def split: prod.split)
    then have refilled: "refill E ?e = (Inl err, e')" using assms by (simp add: engine_begin_def)
    then have closed: "e_remaining_messages e < e_batch_size e div 2" "\<not> cs_tx_open (conn_sender c)"
      using refill_open [of ?e] by (auto simp: refill_def split: if_splits)
    have R: "reconnecting E e = Some (ee_rc_flow E)"
      using False closed by (auto simp: reconnecting_def c_def connection_error_tx split: if_splits)
    obtain q e1 where q: "reconnect (ee_dbg E) (ee_rc_flow E) ?e = (q, e1)" by fastforce
    show ?thesis
    proof (cases q)
      case (Inl x)
      with refilled closed q R show ?thesis by (simp add: refill_def on_sender_def send_flow_cases)
    next
      case (Inr u)
      have "cs_tx_open (conn_sender (e_connection e1))" using reconnect_Inr [of _ _ ?e e1] q Inr by (auto simp: subscribed_def)
      with refilled closed q Inr show ?thesis by (simp add: refill_def on_sender_def send_flow_cases)
    qed
  qed
  then obtain R err' where R: "reconnecting E e = Some R" "reconnect (ee_dbg E) R ?e = (Inl err', e')" by blast
  from reconnect_Inl [OF R(2)] R(1) tx show ?thesis
    by (auto simp: begin_tx_def tx_before_def same_engine_def listening_def engine_tx_def split: option.splits)
qed

section \<open>What the engine does when it is woken\<close>

text \<open>None of this needs a working connection.\<close>

lemma wait_message:
  assumes "listening e = Some ch" and "e_tx_open e" and "undisturbed (e_dead_letter_policy e) (MessagesNext (Some m))"
    and "wait_for_event E (MessagesNext (Some m)) e = (t, e')"
  shows "t = (if ends_topic m then Return (Inr ()) else Continue) \<and> same_engine e e' \<and> e_tx e' = e_tx e @ forwards E m \<and>
    acks_of (engine_tx e') = acks_of (engine_tx e) \<and> listening e' = Some ch"
proof -
  let ?e = "e\<lparr>e_held := None, e_messages_rx := Some ch\<rparr>"
  have d: "deliverable (e_dead_letter_policy ?e) m" "close_consumer (command m) = None" "e_tx_open ?e"
    using assms(2,3) by (simp_all add: undisturbed_def)
  have h: "handle_inbound E m ?e = (t, e')" using assms(1,4) by (simp add: wait_for_event_def Let_def)
  with handle_inbound_forwards [OF d(3,1,2), of E]
  have f: "t = (if ends_topic m then Return (Inr ()) else Continue)" "forwarded (forwards E m) ?e e'" by auto
  moreover have "listening e' = Some ch"
    by (rule wait_for_event_listening [OF assms(4,1)]) (use d f in \<open>simp_all add: calm_def\<close>)
  ultimately show ?thesis by (simp add: forwarded_def same_engine_def engine_tx_def)
qed

lemma acks_of_any_request:
  "acks_of (engine_tx (handle_engine_message E r e)) =
     acks_of (engine_tx e) @ (if cs_tx_open (conn_sender (e_connection e)) then ack_messages (e_id e) r else []) \<and>
   same_engine e (handle_engine_message E r e) \<and> e_tx (handle_engine_message E r e) = e_tx e"
  by (cases r) (auto simp: engine_ack_def engine_nack_def unacked_redelivery_def on_sender_def send_ack_def tx_send_def
      send_redeliver_unacknowleged_messages_def engine_tx_def ack_messages_def same_engine_def Let_def)

lemma wait_request:
  assumes "listening e = Some ch" and "wait_for_event E (EngineNext (Some q)) e = (t, e')"
  shows "t = Continue \<and> same_engine e e' \<and> e_tx e' = e_tx e \<and> listening e' = Some ch \<and>
    acks_of (engine_tx e') = acks_of (engine_tx e) @
      (if cs_tx_open (conn_sender (e_connection e)) then ack_messages (e_id e) q else [])"
proof -
  let ?e = "e\<lparr>e_held := None, e_messages_rx := Some ch\<rparr>"
  have w: "t = Continue" "e' = handle_engine_message E q ?e"
    using assms by (simp_all add: wait_for_event_def Let_def)
  moreover have "listening e' = Some ch"
    by (rule wait_for_event_listening [OF assms(2,1)]) (simp_all add: calm_def w)
  ultimately show ?thesis
    using acks_of_any_request [of E q ?e] by (simp add: same_engine_def engine_tx_def)
qed

lemma wait_timer:
  assumes "listening e = Some ch" and "wait_for_event E Timer e = (t, e')"
  shows "t = Continue \<and> same_engine e e' \<and> e_tx e' = e_tx e \<and> listening e' = Some ch \<and> engine_tx e' = engine_tx e"
  using assms
  by (auto simp: wait_for_event_def listening_def same_engine_def engine_tx_def Let_def split: option.splits)

lemma wait_end:
  assumes "listening e = Some ch" and "wait_for_event E (MessagesNext None) e = (t, e')"
  shows "t = Panic \<and> same_engine e e' \<and> e_tx e' = e_tx e \<and> listening e' = Some ch \<and> engine_tx e' = engine_tx e"
  using assms by (auto simp: wait_for_event_def listening_def same_engine_def engine_tx_def Let_def)

text \<open>A message by which the broker closes the consumer, and the engine that has taken it.\<close>

definition closes :: "pulsar_message \<Rightarrow> bool" where
  "closes m \<longleftrightarrow>
     close_consumer (command m) \<noteq> None \<and> message (command m) = None \<and>
     reached_end_of_topic (command m) = None \<and> active_consumer_change (command m) = None"

definition received :: "pulsar_message \<Rightarrow> ConsumerEngine \<Rightarrow> ConsumerEngine" where
  "received m e = e\<lparr>e_held := None, e_messages_rx := listening e,
     e_remaining_messages := e_remaining_messages e - permits_used m\<rparr>"

lemma wait_close:
  assumes "listening e = Some ch" and "closes m"
  shows "wait_for_event E (MessagesNext (Some m)) e =
    (case reconnect (ee_dbg E) (ee_rc_close E) (received m e) of
       (Inr _, e') \<Rightarrow> (Continue, e')
     | (Inl err, e') \<Rightarrow>
         if e_tx_open e' then (Continue, e'\<lparr>e_tx := e_tx e' @ [Inl err]\<rparr>)
         else (Return (Inl (EConsumer (consumer_error_from_send (ee_tx_full E)))), e'))"
proof -
  obtain r e1 where "reconnect (ee_dbg E) (ee_rc_close E) (received m e) = (r, e1)" by fastforce
  with assms show ?thesis
    by (cases r) (auto simp: wait_for_event_def handle_inbound_def process_message_def closes_def received_def Let_def)
qed

lemma received_keeps:
  "same_engine e (received m e)" "e_tx (received m e) = e_tx e" "engine_tx (received m e) = engine_tx e"
  "listening (received m e) = listening e" "e_held (received m e) = None" "e_id (received m e) = e_id e"
  by (simp_all add: received_def same_engine_def engine_tx_def listening_def)

section \<open>The life of a subscription\<close>

text \<open>What the engine puts on the channel of the application: what a message unpacks to, or the error of a
  subscription that was refused after the broker had closed the consumer.\<close>

datatype life_event = Took pulsar_message | Refused pulsar_error

definition event_seen :: "session_env \<Rightarrow> life_event \<Rightarrow> (pulsar_error, ConsMessage) res list" where
  "event_seen V x =
     map (seen_as (se_topic V)) (case x of Took m \<Rightarrow> forwards (se_engine V) m | Refused err \<Rightarrow> [Inl err])"

definition taken_of :: "life_event list \<Rightarrow> pulsar_message list" where
  "taken_of xs = concat (map (\<lambda>x. case x of Took m \<Rightarrow> [m] | Refused err \<Rightarrow> []) xs)"

lemma taken_of_simps [simp]:
  "taken_of [] = []" "taken_of (xs @ ys) = taken_of xs @ taken_of ys"
  "taken_of [Took m] = [m]" "taken_of [Refused err] = []"
  by (simp_all add: taken_of_def)

text \<open>
  The present connection with the engine and the handle is a \<open>session\<close>; \<open>lf_channel\<close> is the message channel that was
  registered for the present subscription, \<open>lf_open\<close> says whether the receiver of the connection still runs, and
  \<open>lf_waiting\<close> whether the engine has begun its turn. The rest is history: \<open>lf_events\<close> is what the engine took, the
  events from \<open>lf_base\<close> on since the last subscription; \<open>lf_got\<close> is what the application received; \<open>lf_requests\<close> are
  the requests that the engine took, each with whether the writer of its connection was still there; and
  \<open>lf_acks\<close> the acknowledgements that the engine put on the queues of its connections, one after the other.
\<close>

record life =
  lf_session :: session
  lf_channel :: nat
  lf_open :: bool
  lf_waiting :: bool
  lf_events :: "life_event list"
  lf_base :: nat
  lf_got :: "(pulsar_error, ConsMessage) res list"
  lf_requests :: "(EngineMessage \<times> bool) list"
  lf_acks :: "pulsar_message list"

abbreviation lf_engine :: "life \<Rightarrow> ConsumerEngine" where
  "lf_engine l \<equiv> ss_engine (lf_session l)"

definition present :: "session_env \<Rightarrow> life \<Rightarrow> session_env" where
  "present V l = V\<lparr>se_channel := lf_channel l\<rparr>"

text \<open>The engine has acted, starting with \<open>before\<close> on the queue of the connection it then uses: what it forwarded is
  queued for the handle, and if it ends, its channels to the handle are gone.\<close>

definition acted :: "pulsar_message list \<Rightarrow> turn \<Rightarrow> ConsumerEngine \<Rightarrow> life \<Rightarrow> life" where
  "acted before t e l =
     l\<lparr>lf_session := (lf_session l)
         \<lparr>ss_engine := e, ss_running := (t = Continue),
          ss_handle := (ss_handle (lf_session l))
            \<lparr>tc_messages := tc_messages (ss_handle (lf_session l)) @ drop (length (e_tx (lf_engine l))) (e_tx e),
             tc_closed := (tc_closed (ss_handle (lf_session l)) \<or> t \<noteq> Continue),
             tc_engine_open := (tc_engine_open (ss_handle (lf_session l)) \<and> t = Continue)\<rparr>\<rparr>,
       lf_waiting := False,
       lf_acks := lf_acks l @ drop (length (acks_of before)) (acks_of (engine_tx e))\<rparr>"

text \<open>The engine has subscribed on another connection, whose receiver takes the registration.\<close>

definition resumed :: "reconnect_env \<Rightarrow> Connection \<Rightarrow> Receiver \<Rightarrow> life \<Rightarrow> life" where
  "resumed R conn r l =
     l\<lparr>lf_session := (lf_session l)
         \<lparr>ss_link := [], ss_buffer := [], ss_taken := 0, ss_sent := [],
          ss_receiver := fold handle_registration
            (drop (length (cs_registrations (conn_sender conn)))
               (cs_registrations (conn_sender (e_connection (lf_engine l))))) r\<rparr>,
       lf_channel := rc_channel R, lf_open := True, lf_base := length (lf_events l)\<rparr>"

text \<open>A channel the receiver of the connection does not know yet. A step that subscribes again also demands that it is not
  the one on which the engine waits.\<close>

definition new_channel :: "nat \<Rightarrow> Receiver \<Rightarrow> bool" where
  "new_channel ch r \<longleftrightarrow> (\<forall>c. consumers r c \<noteq> Some ch) \<and> deliveries ch (effects r) = []"

definition with_engine :: "ConsumerEngine \<Rightarrow> life \<Rightarrow> life" where
  "with_engine e l = l\<lparr>lf_session := (lf_session l)\<lparr>ss_engine := e\<rparr>\<rparr>"

definition with_handle :: "TopicConsumer \<Rightarrow> life \<Rightarrow> life" where
  "with_handle h l = l\<lparr>lf_session := (lf_session l)\<lparr>ss_handle := h\<rparr>\<rparr>"

inductive life_step :: "session_env \<Rightarrow> life \<Rightarrow> session_label \<Rightarrow> life \<Rightarrow> bool" for V :: session_env where
  life_sends: "may_send (present V l) (lf_session l) m \<Longrightarrow>
    life_step V l (Sent m) (l\<lparr>lf_session := (lf_session l)
      \<lparr>ss_link := ss_link (lf_session l) @ frame_of V m, ss_sent := ss_sent (lf_session l) @ [m]\<rparr>\<rparr>)"
| life_reads: "lf_open l \<Longrightarrow> \<forall>g \<in> set gs. \<forall>c ch. g \<noteq> RegConsumer c ch \<Longrightarrow>
    read_input (present V l) n gs (lf_session l) = (i, b) \<Longrightarrow> poll i (ss_receiver (lf_session l)) = (p, r) \<Longrightarrow>
    life_step V l Internal (l\<lparr>lf_session := (lf_session l)
      \<lparr>ss_link := drop n (ss_link (lf_session l)), ss_buffer := b, ss_receiver := r\<rparr>\<rparr>)"
| life_receiver_ends: "life_step V l Internal (l\<lparr>lf_open := False\<rparr>)"
| life_connection_changes: "life_step V l Internal (with_engine ((lf_engine l)\<lparr>e_connection := conn\<rparr>) l)"
| life_begins: "ss_running (lf_session l) \<Longrightarrow> \<not> lf_waiting l \<Longrightarrow> reconnecting E (lf_engine l) = None \<Longrightarrow>
    engine_begin E (lf_engine l) = (Inr (), e) \<Longrightarrow>
    life_step V l Internal ((acted (begin_tx E (lf_engine l)) Continue e l)\<lparr>lf_waiting := True\<rparr>)"
| life_begins_again: "ss_running (lf_session l) \<Longrightarrow> \<not> lf_waiting l \<Longrightarrow> reconnecting E (lf_engine l) = Some R \<Longrightarrow>
    engine_begin E (lf_engine l) = (Inr (), e) \<Longrightarrow> offered R = Some conn \<Longrightarrow> new_channel (rc_channel R) r \<Longrightarrow>
    listening (lf_engine l) \<noteq> Some (rc_channel R) \<Longrightarrow>
    life_step V l Internal
      ((resumed R conn r (acted (begin_tx E (lf_engine l)) Continue e l))\<lparr>lf_waiting := True\<rparr>)"
| life_begin_fails: "ss_running (lf_session l) \<Longrightarrow> \<not> lf_waiting l \<Longrightarrow> engine_begin E (lf_engine l) = (Inl err, e) \<Longrightarrow>
    life_step V l Internal (acted (begin_tx E (lf_engine l)) (Return (Inl err)) e l)"
| life_takes: "ss_running (lf_session l) \<Longrightarrow> lf_waiting l \<Longrightarrow> listening (lf_engine l) = Some (lf_channel l) \<Longrightarrow>
    ss_taken (lf_session l) < length (inbox (present V l) (lf_session l)) \<Longrightarrow> same_codecs (se_engine V) E \<Longrightarrow>
    m = inbox (present V l) (lf_session l) ! ss_taken (lf_session l) \<Longrightarrow>
    wait_for_event E (MessagesNext (Some m)) (lf_engine l) = (t, e) \<Longrightarrow>
    life_step V l Internal (acted (engine_tx (lf_engine l)) t e
      (l\<lparr>lf_session := (lf_session l)\<lparr>ss_taken := Suc (ss_taken (lf_session l))\<rparr>, lf_events := lf_events l @ [Took m]\<rparr>))"
| life_takes_stale: "ss_running (lf_session l) \<Longrightarrow> lf_waiting l \<Longrightarrow> listening (lf_engine l) \<noteq> Some (lf_channel l) \<Longrightarrow>
    undisturbed (e_dead_letter_policy (lf_engine l)) (MessagesNext (Some m)) \<Longrightarrow> same_codecs (se_engine V) E \<Longrightarrow>
    wait_for_event E (MessagesNext (Some m)) (lf_engine l) = (t, e) \<Longrightarrow>
    life_step V l Internal (acted (engine_tx (lf_engine l)) t e (l\<lparr>lf_events := lf_events l @ [Took m]\<rparr>))"
| life_closed: "ss_running (lf_session l) \<Longrightarrow> lf_waiting l \<Longrightarrow> closes m \<Longrightarrow>
    fst (reconnect (ee_dbg E) (ee_rc_close E) (received m (lf_engine l))) = Inr () \<Longrightarrow>
    wait_for_event E (MessagesNext (Some m)) (lf_engine l) = (t, e) \<Longrightarrow>
    offered (ee_rc_close E) = Some conn \<Longrightarrow> new_channel (rc_channel (ee_rc_close E)) r \<Longrightarrow>
    listening (lf_engine l) \<noteq> Some (rc_channel (ee_rc_close E)) \<Longrightarrow>
    life_step V l Internal
      (resumed (ee_rc_close E) conn r (acted (tx_before (ee_rc_close E) (lf_engine l)) t e l))"
| life_close_fails: "ss_running (lf_session l) \<Longrightarrow> lf_waiting l \<Longrightarrow> closes m \<Longrightarrow>
    fst (reconnect (ee_dbg E) (ee_rc_close E) (received m (lf_engine l))) = Inl err \<Longrightarrow>
    wait_for_event E (MessagesNext (Some m)) (lf_engine l) = (t, e) \<Longrightarrow>
    life_step V l Internal (acted (tx_before (ee_rc_close E) (lf_engine l)) t e
      (l\<lparr>lf_events := lf_events l @ [Refused err]\<rparr>))"
| life_request: "ss_running (lf_session l) \<Longrightarrow> lf_waiting l \<Longrightarrow>
    ss_asked (lf_session l) < length (tc_engine_tx (ss_handle (lf_session l))) \<Longrightarrow>
    q = tc_engine_tx (ss_handle (lf_session l)) ! ss_asked (lf_session l) \<Longrightarrow>
    wait_for_event E (EngineNext (Some q)) (lf_engine l) = (t, e) \<Longrightarrow>
    life_step V l Internal (acted (engine_tx (lf_engine l)) t e
      (l\<lparr>lf_session := (lf_session l)\<lparr>ss_asked := Suc (ss_asked (lf_session l))\<rparr>,
        lf_requests := lf_requests l @ [(q, cs_tx_open (conn_sender (e_connection (lf_engine l))))]\<rparr>))"
| life_timer: "ss_running (lf_session l) \<Longrightarrow> lf_waiting l \<Longrightarrow> wait_for_event E Timer (lf_engine l) = (t, e) \<Longrightarrow>
    life_step V l Internal (acted (engine_tx (lf_engine l)) t e l)"
| life_channel_ends: "ss_running (lf_session l) \<Longrightarrow> lf_waiting l \<Longrightarrow>
    listening (lf_engine l) \<noteq> Some (lf_channel l) \<or>
      \<not> lf_open l \<and> ss_taken (lf_session l) = length (inbox (present V l) (lf_session l)) \<Longrightarrow>
    wait_for_event E (MessagesNext None) (lf_engine l) = (t, e) \<Longrightarrow>
    life_step V l Internal (acted (engine_tx (lf_engine l)) t e l)"
| life_polls: "tc_poll_next now (ss_handle (lf_session l)) = (Ready (Some x), h) \<Longrightarrow>
    life_step V l (Got x) ((with_handle h l)\<lparr>lf_got := lf_got l @ [x]\<rparr>)"
| life_tells: "engine_send q (ss_handle (lf_session l)) = (True, h) \<Longrightarrow> life_step V l Internal (with_handle h l)"

text \<open>The life of a subscription begins with the creation of its consumer.\<close>

definition life_new :: "session_env \<Rightarrow> session \<Rightarrow> life" where
  "life_new V s =
     \<lparr>lf_session = s, lf_channel = se_channel V, lf_open = True, lf_waiting = False, lf_events = [], lf_base = 0,
      lf_got = [], lf_requests = [], lf_acks = []\<rparr>"

definition life_start :: "session_env \<Rightarrow> life \<Rightarrow> bool" where
  "life_start V l \<longleftrightarrow>
     (\<exists>s. l = life_new V s \<and> session_start V s \<and> e_id (ss_engine s) = se_consumer V \<and>
        listening (ss_engine s) = Some (se_channel V))"

lemma created_engine:
  assumes "topic_consumer_new CE topic addr config = Some (Inr (c, e))"
  shows "e_id e = tc_consumer_id c" and "listening e = Some (ce_channel CE)" and "e_held e = None"
  by (rule topic_consumer_new_Inr [OF assms]; simp add: engine_new_def listening_def)+

lemma created_life:
  assumes "topic_consumer_new CE topic addr config = Some (Inr (c, e))" and "is_valid (e_connection e)"
    and "sole_channel r (tc_consumer_id c) (ce_channel CE)" and "deliveries (ce_channel CE) (effects r) = []"
  shows "life_start (session_env_new W P M E (ce_channel CE) c e)
    (life_new (session_env_new W P M E (ce_channel CE) c e) (session_new r c e))"
  unfolding life_start_def
  using created_session_start [OF assms, of W P M E] created_engine [OF assms(1)]
  by (intro exI [of _ "session_new r c e"]) (simp add: session_new_def session_env_new_def)

section \<open>The invariant\<close>

text \<open>With \<open>xs\<close> still to be put on the channel of the application and \<open>as\<close> still to be acknowledged.\<close>

definition life_owes :: "session_env \<Rightarrow> life \<Rightarrow> channel_item list \<Rightarrow> pulsar_message list \<Rightarrow> bool" where
  "life_owes V l xs as \<longleftrightarrow>
     link_inv (present V l) (lf_session l) \<and> tc_topic (ss_handle (lf_session l)) = se_topic V \<and>
     e_id (lf_engine l) = se_consumer V \<and> e_tx_open (lf_engine l) \<and> lf_base l \<le> length (lf_events l) \<and>
     lf_got l @ map (seen_as (se_topic V)) (tc_messages (ss_handle (lf_session l)) @ xs) =
       concat (map (event_seen V) (lf_events l)) \<and>
     ss_asked (lf_session l) \<le> length (tc_engine_tx (ss_handle (lf_session l))) \<and>
     map fst (lf_requests l) = take (ss_asked (lf_session l)) (tc_engine_tx (ss_handle (lf_session l))) \<and>
     lf_acks l @ as = concat (map (\<lambda>q. ack_messages (se_consumer V) (fst q)) (filter snd (lf_requests l)))"

definition here_inv :: "life \<Rightarrow> session_env \<Rightarrow> bool" where
  "here_inv l V \<longleftrightarrow>
     listening (lf_engine l) \<noteq> None \<and>
     (listening (lf_engine l) = Some (lf_channel l) \<longrightarrow>
        taken_of (drop (lf_base l) (lf_events l)) =
          take (ss_taken (lf_session l)) (for_consumer V (ss_sent (lf_session l))))"

definition life_inv :: "session_env \<Rightarrow> life \<Rightarrow> bool" where
  "life_inv V l \<longleftrightarrow> life_owes V l [] [] \<and> here_inv l V"

lemma present_simps [simp]:
  "se_wire (present V l) = se_wire V" "se_commands (present V l) = se_commands V"
  "se_metadata (present V l) = se_metadata V" "se_consumer (present V l) = se_consumer V"
  "se_topic (present V l) = se_topic V" "se_engine (present V l) = se_engine V"
  "se_channel (present V l) = lf_channel l" "frame_of (present V l) = frame_of V"
  "for_consumer (present V l) = for_consumer V"
  by (auto simp: present_def frame_of_def for_consumer_def intro!: ext)

lemma present_cong: "lf_channel l' = lf_channel l \<Longrightarrow> present V l' = present V l"
  by (simp add: present_def)

lemma link_inv_engine:
  assumes "e_dead_letter_policy (ss_engine s') = e_dead_letter_policy (ss_engine s)"
    and "ss_link s' = ss_link s" and "ss_buffer s' = ss_buffer s" and "ss_sent s' = ss_sent s"
    and "ss_receiver s' = ss_receiver s" and "ss_taken s' = ss_taken s"
  shows "link_inv V s' = link_inv V s"
  using assms by (simp add: link_inv_def inbox_def)

lemma acted_owes:
  assumes "life_owes V l xs as" and "same_engine (lf_engine l) e" and "e_tx e = e_tx (lf_engine l) @ xs"
    and "acks_of (engine_tx e) = acks_of before @ as"
  shows "life_owes V (acted before t e l) [] []"
proof -
  let ?l = "acted before t e l"
  have p: "present V ?l = present V l" by (rule present_cong) (simp add: acted_def)
  have "link_inv (present V l) (lf_session ?l) = link_inv (present V l) (lf_session l)"
    by (rule link_inv_engine) (use assms(2) in \<open>simp_all add: acted_def same_engine_def\<close>)
  with assms p show ?thesis by (simp add: life_owes_def acted_def same_engine_def)
qed

lemma acted_fields [simp]:
  "lf_engine (acted before t e l) = e" "lf_channel (acted before t e l) = lf_channel l"
  "lf_events (acted before t e l) = lf_events l" "lf_base (acted before t e l) = lf_base l"
  "ss_taken (lf_session (acted before t e l)) = ss_taken (lf_session l)"
  "ss_sent (lf_session (acted before t e l)) = ss_sent (lf_session l)"
  by (simp_all add: acted_def)

lemma acted_here:
  "here_inv l V \<Longrightarrow> listening e = listening (lf_engine l) \<Longrightarrow> here_inv (acted before t e l) V"
  by (simp add: here_inv_def)

lemma owes_waiting [simp]: "life_owes V (l\<lparr>lf_waiting := w\<rparr>) xs as = life_owes V l xs as"
  by (simp add: life_owes_def present_def)

lemma here_waiting [simp]: "here_inv (l\<lparr>lf_waiting := w\<rparr>) V = here_inv l V"
  by (simp add: here_inv_def)

subsection \<open>Another connection\<close>

lemma registered:
  assumes "new_channel ch r" and "r' = fold handle_registration [RegConsumer c ch, RegRequest k m] r"
  shows "sole_channel r' c ch" and "deliveries ch (effects r') = []"
  using assms
  by (auto simp: new_channel_def sole_channel_def register_request_def emit_def dropped_def deliveries_def
      split: option.splits if_splits)

lemma resumed_inv:
  assumes "life_owes V l [] []" and "new_channel (rc_channel R) r" and "listening (lf_engine l) \<noteq> None"
    and "cs_registrations (conn_sender (e_connection (lf_engine l))) =
      cs_registrations (conn_sender conn) @ [RegConsumer (e_id (lf_engine l)) (rc_channel R), RegRequest (RequestId n) k]"
  shows "life_inv V (resumed R conn r l)"
proof -
  let ?l = "resumed R conn r l"
  let ?r = "fold handle_registration [RegConsumer (e_id (lf_engine l)) (rc_channel R), RegRequest (RequestId n) k] r"
  have rcv: "ss_receiver (lf_session ?l) = ?r" using assms(4) by (simp add: resumed_def)
  note new = registered [OF assms(2), of ?r, OF refl]
  have "inbox (present V ?l) (lf_session ?l) = []"
    unfolding inbox_def rcv using new(2) by (simp add: resumed_def)
  then have "link_inv (present V ?l) (lf_session ?l)"
    using assms(1) new(1) rcv by (simp add: link_inv_def resumed_def life_owes_def)
  then show ?thesis
    using assms(1,3) by (simp add: life_inv_def life_owes_def here_inv_def resumed_def)
qed

lemma subscribed_listening: "subscribed R conn e e' \<Longrightarrow> listening e' \<noteq> None"
  by (simp add: subscribed_def listening_def split: option.split)

lemma subscribed_inv:
  assumes "life_owes V l [] []" and "subscribed R conn (lf_engine l) e" and "new_channel (rc_channel R) r"
    and "before = cs_tx (conn_sender conn)"
  shows "life_inv V (resumed R conn r (acted before t e l))"
proof -
  have s: "same_engine (lf_engine l) e" "e_tx e = e_tx (lf_engine l)" "acks_of (engine_tx e) = acks_of before"
      "\<exists>n k. cs_registrations (conn_sender (e_connection e)) =
        cs_registrations (conn_sender conn) @ [RegConsumer (e_id (lf_engine l)) (rc_channel R), RegRequest (RequestId n) k]"
    using assms(2,4) by (simp_all add: subscribed_def)
  have "life_owes V (acted before t e l) [] []" by (rule acted_owes [OF assms(1) s(1)]) (simp_all add: s(2,3))
  with assms(2,3) s(1,4) show ?thesis
    by (auto intro!: resumed_inv simp: same_engine_def dest: subscribed_listening)
qed

subsection \<open>Every step keeps the invariant\<close>

lemma life_begins_inv:
  assumes "life_inv V l" and "reconnecting E (lf_engine l) = None" and "engine_begin E (lf_engine l) = (Inr (), e)"
  shows "life_inv V ((acted (begin_tx E (lf_engine l)) Continue e l)\<lparr>lf_waiting := True\<rparr>)"
  using assms(1) begin_stays [OF assms(2,3)] acted_owes [of V l "[]" "[]" e "begin_tx E (lf_engine l)"]
  by (auto simp: life_inv_def acted_here begin_tx_def assms(2))

lemma life_begins_again_inv:
  assumes "life_inv V l" and "reconnecting E (lf_engine l) = Some R" and "engine_begin E (lf_engine l) = (Inr (), e)"
    and "offered R = Some conn" and "new_channel (rc_channel R) r"
  shows "life_inv V ((resumed R conn r (acted (begin_tx E (lf_engine l)) Continue e l))\<lparr>lf_waiting := True\<rparr>)"
proof -
  have "subscribed R conn (lf_engine l) e" using begin_subscribes [OF assms(2,3)] assms(4) by auto
  from subscribed_inv [OF _ this assms(5)] assms(1,2,4) show ?thesis
    by (simp add: life_inv_def begin_tx_def tx_before_def)
qed

lemma life_begin_fails_inv:
  assumes "life_inv V l" and "engine_begin E (lf_engine l) = (Inl err, e)"
  shows "life_inv V (acted (begin_tx E (lf_engine l)) t e l)"
  using assms(1) begin_fails [OF assms(2)] acted_owes [of V l "[]" "[]" e "begin_tx E (lf_engine l)"]
  by (auto simp: life_inv_def acted_here)

lemma life_takes_inv:
  assumes "life_inv V l" and "listening (lf_engine l) = Some (lf_channel l)"
    and "ss_taken (lf_session l) < length (inbox (present V l) (lf_session l))" and "same_codecs (se_engine V) E"
    and "m = inbox (present V l) (lf_session l) ! ss_taken (lf_session l)"
    and "wait_for_event E (MessagesNext (Some m)) (lf_engine l) = (t, e)"
  shows "life_inv V (acted (engine_tx (lf_engine l)) t e
      (l\<lparr>lf_session := (lf_session l)\<lparr>ss_taken := Suc (ss_taken (lf_session l))\<rparr>, lf_events := lf_events l @ [Took m]\<rparr>))"
    (is "life_inv V (acted _ _ _ ?l)")
proof -
  have o: "life_owes V l [] []" and here: "here_inv l V" using assms(1) by (simp_all add: life_inv_def)
  then have link: "link_inv (present V l) (lf_session l)" and tx: "e_tx_open (lf_engine l)"
    by (simp_all add: life_owes_def)
  note nm = next_message [OF link assms(3), folded assms(5)]
  note w = wait_message [OF assms(2) tx nm(3) assms(6)]
  have "link_inv (present V ?l) (lf_session ?l)"
    using link assms(3) present_cong [of ?l l V] by (simp add: link_inv_def inbox_def)
  with o have "life_owes V ?l (forwards E m) []"
    by (simp add: life_owes_def event_seen_def forwards_same_codecs [OF assms(4)])
  from acted_owes [OF this] w have "life_owes V (acted (engine_tx (lf_engine l)) t e ?l) [] []" by simp
  moreover have "here_inv ?l V"
    using here assms(2) nm(4) o by (simp add: here_inv_def life_owes_def)
  ultimately show ?thesis using w assms(2) acted_here [of ?l V e] by (simp add: life_inv_def)
qed

lemma life_takes_stale_inv:
  assumes "life_inv V l" and "listening (lf_engine l) \<noteq> Some (lf_channel l)"
    and "undisturbed (e_dead_letter_policy (lf_engine l)) (MessagesNext (Some m))" and "same_codecs (se_engine V) E"
    and "wait_for_event E (MessagesNext (Some m)) (lf_engine l) = (t, e)"
  shows "life_inv V (acted (engine_tx (lf_engine l)) t e (l\<lparr>lf_events := lf_events l @ [Took m]\<rparr>))"
    (is "life_inv V (acted _ _ _ ?l)")
proof -
  have o: "life_owes V l [] []" and "listening (lf_engine l) \<noteq> None"
    using assms(1) by (simp_all add: life_inv_def here_inv_def)
  then obtain ch where ch: "listening (lf_engine l) = Some ch" and tx: "e_tx_open (lf_engine l)"
    by (auto simp: life_owes_def)
  note w = wait_message [OF ch tx assms(3,5)]
  have "life_owes V ?l (forwards E m) []"
    using o present_cong [of ?l l V] by (simp add: life_owes_def event_seen_def forwards_same_codecs [OF assms(4)])
  from acted_owes [OF this] w have "life_owes V (acted (engine_tx (lf_engine l)) t e ?l) [] []" by simp
  then show ?thesis using w ch assms(2) by (simp add: life_inv_def here_inv_def)
qed

lemma life_closed_inv:
  assumes "life_inv V l" and "closes m"
    and "fst (reconnect (ee_dbg E) (ee_rc_close E) (received m (lf_engine l))) = Inr ()"
    and "wait_for_event E (MessagesNext (Some m)) (lf_engine l) = (t, e)"
    and "offered (ee_rc_close E) = Some conn" and "new_channel (rc_channel (ee_rc_close E)) r"
  shows "life_inv V (resumed (ee_rc_close E) conn r (acted (tx_before (ee_rc_close E) (lf_engine l)) t e l))"
proof -
  have o: "life_owes V l [] []" and "listening (lf_engine l) \<noteq> None"
    using assms(1) by (simp_all add: life_inv_def here_inv_def)
  then obtain ch where ch: "listening (lf_engine l) = Some ch" by blast
  from assms(3,4) wait_close [OF ch assms(2), of E]
  have rc: "reconnect (ee_dbg E) (ee_rc_close E) (received m (lf_engine l)) = (Inr (), e)"
    by (cases "reconnect (ee_dbg E) (ee_rc_close E) (received m (lf_engine l))") auto
  have sub: "subscribed (ee_rc_close E) conn (received m (lf_engine l)) e" using reconnect_Inr [OF rc] assms(5) by auto
  note lis = subscribed_listening [OF sub]
  have s: "same_engine (lf_engine l) e" "e_tx e = e_tx (lf_engine l)"
      "acks_of (engine_tx e) = acks_of (tx_before (ee_rc_close E) (lf_engine l))"
      "\<exists>n k. cs_registrations (conn_sender (e_connection e)) = cs_registrations (conn_sender conn) @
        [RegConsumer (e_id (lf_engine l)) (rc_channel (ee_rc_close E)), RegRequest (RequestId n) k]"
    using received_keeps [where e = "lf_engine l" and m = m] assms(5) sub
    by (auto simp: subscribed_def tx_before_def intro: same_engine_trans)
  have "life_owes V (acted (tx_before (ee_rc_close E) (lf_engine l)) t e l) [] []"
    by (rule acted_owes [OF o s(1)]) (simp_all add: s(2,3))
  with assms(6) s lis show ?thesis by (auto intro!: resumed_inv simp: same_engine_def)
qed

lemma life_close_fails_inv:
  assumes "life_inv V l" and "closes m"
    and "fst (reconnect (ee_dbg E) (ee_rc_close E) (received m (lf_engine l))) = Inl err"
    and "wait_for_event E (MessagesNext (Some m)) (lf_engine l) = (t, e)"
  shows "life_inv V (acted (tx_before (ee_rc_close E) (lf_engine l)) t e (l\<lparr>lf_events := lf_events l @ [Refused err]\<rparr>))"
    (is "life_inv V (acted _ _ _ ?l)")
proof -
  have o: "life_owes V l [] []" and here: "here_inv l V" using assms(1) by (simp_all add: life_inv_def)
  then obtain ch where ch: "listening (lf_engine l) = Some ch" and tx: "e_tx_open (lf_engine l)"
    by (auto simp: life_owes_def here_inv_def)
  obtain e1 where rc: "reconnect (ee_dbg E) (ee_rc_close E) (received m (lf_engine l)) = (Inl err, e1)"
    using assms(3) by (cases "reconnect (ee_dbg E) (ee_rc_close E) (received m (lf_engine l))") auto
  note k = reconnect_Inl [OF rc] and r = received_keeps [where e = "lf_engine l" and m = m]
  have "e_tx_open e1" using k r tx by (simp add: same_engine_def)
  with assms(4) wait_close [OF ch assms(2), of E] rc have e: "e = e1\<lparr>e_tx := e_tx e1 @ [Inl err]\<rparr>" by simp
  have s: "same_engine (lf_engine l) e" "e_tx e = e_tx (lf_engine l) @ [Inl err]" "listening e = listening (lf_engine l)"
      "acks_of (engine_tx e) = acks_of (tx_before (ee_rc_close E) (lf_engine l))"
    using k r by (auto simp: e same_engine_def listening_def engine_tx_def tx_before_def split: option.splits)
  have "life_owes V ?l [Inl err] []"
    using o present_cong [of ?l l V] by (simp add: life_owes_def event_seen_def)
  from acted_owes [OF this] s have "life_owes V (acted (tx_before (ee_rc_close E) (lf_engine l)) t e ?l) [] []" by simp
  moreover have "here_inv ?l V" using here o by (simp add: here_inv_def life_owes_def)
  ultimately show ?thesis using s acted_here [of ?l V e] by (simp add: life_inv_def)
qed

lemma life_request_inv:
  assumes "life_inv V l" and "ss_asked (lf_session l) < length (tc_engine_tx (ss_handle (lf_session l)))"
    and "q = tc_engine_tx (ss_handle (lf_session l)) ! ss_asked (lf_session l)"
    and "wait_for_event E (EngineNext (Some q)) (lf_engine l) = (t, e)"
  shows "life_inv V (acted (engine_tx (lf_engine l)) t e
      (l\<lparr>lf_session := (lf_session l)\<lparr>ss_asked := Suc (ss_asked (lf_session l))\<rparr>,
        lf_requests := lf_requests l @ [(q, cs_tx_open (conn_sender (e_connection (lf_engine l))))]\<rparr>))"
    (is "life_inv V (acted _ _ _ ?l)")
proof -
  let ?as = "if cs_tx_open (conn_sender (e_connection (lf_engine l))) then ack_messages (se_consumer V) q else []"
  have o: "life_owes V l [] []" and here: "here_inv l V" using assms(1) by (simp_all add: life_inv_def)
  then obtain ch where ch: "listening (lf_engine l) = Some ch" by (auto simp: here_inv_def)
  note w = wait_request [OF ch assms(4)]
  have "link_inv (present V ?l) (lf_session ?l) = link_inv (present V l) (lf_session l)"
    using present_cong [of ?l l V] by (simp add: link_inv_def inbox_def)
  with o assms(2,3) have "life_owes V ?l [] ?as"
    by (simp add: life_owes_def take_Suc_conv_app_nth)
  from acted_owes [OF this] w o have "life_owes V (acted (engine_tx (lf_engine l)) t e ?l) [] []"
    by (simp add: life_owes_def)
  moreover have "here_inv ?l V" using here by (simp add: here_inv_def)
  ultimately show ?thesis using w ch acted_here [of ?l V e] by (simp add: life_inv_def)
qed

lemma life_idle_inv:
  assumes "life_inv V l" and "ev = Timer \<or> ev = MessagesNext None" and "wait_for_event E ev (lf_engine l) = (t, e)"
  shows "life_inv V (acted (engine_tx (lf_engine l)) t e l)"
proof -
  obtain ch where ch: "listening (lf_engine l) = Some ch" using assms(1) by (auto simp: life_inv_def here_inv_def)
  have w: "same_engine (lf_engine l) e" "e_tx e = e_tx (lf_engine l)" "listening e = listening (lf_engine l)"
      "engine_tx e = engine_tx (lf_engine l)"
    using assms(2,3) ch wait_timer [OF ch] wait_end [OF ch] by auto
  from acted_owes [of V l "[]" "[]" e "engine_tx (lf_engine l)"] assms(1) w show ?thesis
    by (simp add: life_inv_def acted_here)
qed

lemma life_handle_inv:
  assumes "life_inv V l" and "tc_topic h = tc_topic (ss_handle (lf_session l))"
    and "map (seen_as (se_topic V)) (tc_messages (ss_handle (lf_session l))) = xs @ map (seen_as (se_topic V)) (tc_messages h)"
    and "\<exists>more. tc_engine_tx h = tc_engine_tx (ss_handle (lf_session l)) @ more"
  shows "life_inv V ((with_handle h l)\<lparr>lf_got := lf_got l @ xs\<rparr>)"
proof -
  let ?l = "(with_handle h l)\<lparr>lf_got := lf_got l @ xs\<rparr>"
  have "link_inv (present V ?l) (lf_session ?l) = link_inv (present V l) (lf_session l)"
    using present_cong [of ?l l V] by (simp add: with_handle_def link_inv_def inbox_def)
  with assms show ?thesis
    by (auto simp: life_inv_def life_owes_def here_inv_def with_handle_def)
qed

lemma life_step_inv:
  assumes "wire_format (se_wire V)" and "life_inv V l" and "life_step V l x l'"
  shows "life_inv V l'"
proof -
  have link: "link_inv (present V l) (lf_session l)" and topic: "tc_topic (ss_handle (lf_session l)) = se_topic V"
    using assms(2) by (simp_all add: life_inv_def life_owes_def)
  from assms(3) show ?thesis
  proof cases
    case (life_sends m)
    with broker_sends_link [OF link life_sends(3)] taken_bound [OF link] assms(2) present_cong [of l' l V]
    show ?thesis by (simp add: life_inv_def life_owes_def here_inv_def)
  next
    case (life_reads gs n i b p r)
    with transport_reads_link(1) [OF _ link life_reads(4-6)] assms(1,2) present_cong [of l' l V]
    show ?thesis by (simp add: life_inv_def life_owes_def here_inv_def)
  next
    case life_receiver_ends
    with assms(2) present_cong [of l' l V] show ?thesis by (simp add: life_inv_def life_owes_def here_inv_def)
  next
    case (life_connection_changes conn)
    have "link_inv (present V l') (lf_session l') = link_inv (present V l) (lf_session l)"
      using life_connection_changes present_cong [of l' l V] by (simp add: with_engine_def link_inv_def inbox_def)
    moreover have "listening ((lf_engine l)\<lparr>e_connection := conn\<rparr>) = listening (lf_engine l)"
      by (simp add: listening_def split: option.split)
    ultimately show ?thesis using life_connection_changes assms(2)
      by (simp add: life_inv_def life_owes_def here_inv_def with_engine_def)
  next
    case (life_polls now y h)
    obtain z where "tc_messages (ss_handle (lf_session l)) = z # tc_messages h" "y = yielded (ss_handle (lf_session l)) z"
        "tc_topic h = tc_topic (ss_handle (lf_session l))" "tc_engine_tx h = tc_engine_tx (ss_handle (lf_session l))"
      by (rule tc_poll_next_item [OF life_polls(3)])
    with life_polls topic show ?thesis
      by (auto intro!: life_handle_inv [OF assms(2)] simp: yielded_seen)
  next
    case (life_tells q h)
    have l': "l' = (with_handle h l)\<lparr>lf_got := lf_got l @ []\<rparr>" using life_tells by (simp add: with_handle_def)
    show ?thesis unfolding l'
      by (rule life_handle_inv [OF assms(2)]) (use engine_send_handle [OF life_tells(3)] in auto)
  qed (auto intro: life_idle_inv [OF assms(2)] simp: life_begins_inv life_begins_again_inv life_begin_fails_inv
      life_takes_inv life_takes_stale_inv life_closed_inv life_close_fails_inv life_request_inv assms(2))
qed

lemma life_run_inv:
  "runs (life_step V) l ls l' \<Longrightarrow> wire_format (se_wire V) \<Longrightarrow> life_inv V l \<Longrightarrow> life_inv V l'"
  by (induction rule: runs.induct) (auto intro: life_step_inv)

lemma life_start_inv:
  assumes "life_start V l"
  shows "life_inv V l"
proof -
  obtain s where s: "l = life_new V s" "session_start V s" "e_id (ss_engine s) = se_consumer V"
      "listening (ss_engine s) = Some (se_channel V)"
    using assms by (auto simp: life_start_def)
  have "present V l = V" by (simp add: s(1) life_new_def present_def)
  with s session_start_inv [OF s(2)] show ?thesis
    by (simp add: life_inv_def life_owes_def here_inv_def life_new_def session_start_def session_inv_def)
qed

section \<open>Progress\<close>

text \<open>An engine that runs on a connection that is up, listening on the channel of its present subscription.\<close>

definition going :: "session_env \<Rightarrow> life \<Rightarrow> bool" where
  "going V l \<longleftrightarrow>
     life_inv V l \<and> ss_running (lf_session l) \<and> listening (lf_engine l) = Some (lf_channel l) \<and> healthy (lf_engine l)"

definition life_queue :: "session_env \<Rightarrow> life \<Rightarrow> (pulsar_error, ConsMessage) res list" where
  "life_queue V l =
     map (seen_as (se_topic V)) (tc_messages (ss_handle (lf_session l))) @ items_of V (undelivered V (lf_session l))"

text \<open>What the steps of this section keep.\<close>

definition kept :: "session_env \<Rightarrow> life \<Rightarrow> life \<Rightarrow> bool" where
  "kept V l l' \<longleftrightarrow>
     ss_sent (lf_session l') = ss_sent (lf_session l) \<and>
     inbox (present V l') (lf_session l') = inbox (present V l) (lf_session l) \<and> life_queue V l' = life_queue V l"

lemma kept_trans: "kept V a b \<Longrightarrow> kept V b c \<Longrightarrow> kept V a c"
  by (simp add: kept_def)

lemma silent_labels [simp]: "sent_messages (Internal # xs) = sent_messages xs" "got_items (Internal # xs) = got_items xs"
  "sent_messages (Got x # xs) = sent_messages xs" "got_items (Got x # xs) = x # got_items xs"
  "sent_messages [] = []" "got_items [] = []" "got_items (Sent m # xs) = got_items xs"
  "sent_messages (xs @ ys) = sent_messages xs @ sent_messages ys" "got_items (xs @ ys) = got_items xs @ got_items ys"
  by (simp_all add: sent_messages_def got_items_def)

lemma healthy_stays: "healthy e \<Longrightarrow> reconnecting E e = None"
  by (simp add: healthy_def reconnecting_def)

text \<open>The engine comes to wait for a message.\<close>

lemma life_comes_to_wait:
  assumes "wire_format (se_wire V)" and "going V l"
  shows "\<exists>ls l'. runs (life_step V) l ls l' \<and> sent_messages ls = [] \<and> got_items ls = [] \<and> lf_waiting l' \<and>
    going V l' \<and> kept V l l' \<and> ss_taken (lf_session l') = ss_taken (lf_session l)"
proof (cases "lf_waiting l")
  case True
  with assms show ?thesis by (intro exI [of _ "[]"] exI [of _ l]) (simp add: runs.runs_Nil kept_def)
next
  case False
  obtain r e where e: "engine_begin (se_engine V) (lf_engine l) = (r, e)" by fastforce
  have none: "reconnecting (se_engine V) (lf_engine l) = None" using assms(2) healthy_stays by (simp add: going_def)
  from begin_stays [OF none e] assms(2) have b: "r = Inr ()" "e_tx e = e_tx (lf_engine l)"
      "listening e = listening (lf_engine l)" "healthy e"
    by (simp_all add: going_def)
  let ?l = "(acted (begin_tx (se_engine V) (lf_engine l)) Continue e l)\<lparr>lf_waiting := True\<rparr>"
  have step: "life_step V l Internal ?l" using life_begins [OF _ False none] e b(1) assms(2) by (simp add: going_def)
  moreover have "going V ?l"
    using life_step_inv [OF assms(1) _ step] b assms(2) by (simp add: going_def acted_def)
  moreover have "kept V l ?l"
    using b(2) by (simp add: kept_def life_queue_def undelivered_def acted_def inbox_def)
  ultimately show ?thesis
    by (intro exI [of _ "[Internal]"] exI [of _ ?l]) (simp add: runs_one)
qed

text \<open>The next message is taken.\<close>

lemma life_takes_next:
  assumes "wire_format (se_wire V)" and "going V l" and "lf_waiting l"
    and "ss_taken (lf_session l) < length (inbox (present V l) (lf_session l))"
    and "\<not> ends_topic (inbox (present V l) (lf_session l) ! ss_taken (lf_session l))"
  shows "\<exists>l'. life_step V l Internal l' \<and> going V l' \<and> kept V l l' \<and>
    ss_taken (lf_session l') = Suc (ss_taken (lf_session l))"
proof -
  let ?m = "inbox (present V l) (lf_session l) ! ss_taken (lf_session l)"
  have inv: "life_inv V l" and run: "ss_running (lf_session l)" and lis: "listening (lf_engine l) = Some (lf_channel l)"
      and up: "healthy (lf_engine l)"
    using assms(2) by (simp_all add: going_def)
  then have link: "link_inv (present V l) (lf_session l)" and tx: "e_tx_open (lf_engine l)"
    by (simp_all add: life_inv_def life_owes_def)
  note nm = next_message [OF link assms(4)]
  obtain t e where e: "wait_for_event (se_engine V) (MessagesNext (Some ?m)) (lf_engine l) = (t, e)" by fastforce
  note w = wait_message [OF lis tx nm(3) e]
  have t: "t = Continue" using w assms(5) by simp
  have up': "healthy e" using wait_for_event_wraps [OF e up undisturbed_calm [OF nm(3)]] t by simp
  let ?k = "l\<lparr>lf_session := (lf_session l)\<lparr>ss_taken := Suc (ss_taken (lf_session l))\<rparr>, lf_events := lf_events l @ [Took ?m]\<rparr>"
  let ?l = "acted (engine_tx (lf_engine l)) t e ?k"
  have step: "life_step V l Internal ?l"
    by (rule life_takes [OF run assms(3) lis assms(4) _ refl e]) (simp add: same_codecs_def)
  have "going V ?l"
    using life_step_inv [OF assms(1) inv step] w up' t lis by (simp add: going_def acted_def)
  moreover have "kept V l ?l"
    using w nm(1) by (simp add: kept_def life_queue_def undelivered_def acted_def inbox_def)
  ultimately show ?thesis using step by (intro exI [of _ ?l]) simp
qed

lemma life_engine_catches_up:
  assumes "wire_format (se_wire V)" and "going V l"
    and "inbox (present V l) (lf_session l) = for_consumer V (ss_sent (lf_session l))"
    and "list_all (\<lambda>m. \<not> ends_topic m) (for_consumer V (ss_sent (lf_session l)))"
  shows "\<exists>ls l'. runs (life_step V) l ls l' \<and> sent_messages ls = [] \<and> got_items ls = [] \<and> going V l' \<and> kept V l l' \<and>
    undelivered V (lf_session l') = []"
  using assms(2-)
proof (induction "length (for_consumer V (ss_sent (lf_session l))) - ss_taken (lf_session l)" arbitrary: l)
  case 0
  then have "undelivered V (lf_session l) = []" by (simp add: undelivered_def)
  with 0 show ?case by (intro exI [of _ "[]"] exI [of _ l]) (simp add: runs.runs_Nil kept_def)
next
  case (Suc k)
  obtain ls1 l1 where one: "runs (life_step V) l ls1 l1" "sent_messages ls1 = []" "got_items ls1 = []" "lf_waiting l1"
      "going V l1" "kept V l l1" "ss_taken (lf_session l1) = ss_taken (lf_session l)"
    using life_comes_to_wait [OF assms(1) Suc.prems(1)] by blast
  have lt: "ss_taken (lf_session l1) < length (inbox (present V l1) (lf_session l1))"
    using Suc.hyps(2) Suc.prems(2) one(6,7) by (simp add: kept_def)
  moreover have "\<not> ends_topic (inbox (present V l1) (lf_session l1) ! ss_taken (lf_session l1))"
    using Suc.prems(2,3) lt nth_mem [OF lt] one(6) by (auto simp: kept_def list_all_iff)
  ultimately obtain l2 where two: "life_step V l1 Internal l2" "going V l2" "kept V l1 l2"
      "ss_taken (lf_session l2) = Suc (ss_taken (lf_session l1))"
    using life_takes_next [OF assms(1) one(5,4)] by blast
  have k2: "kept V l l2" by (rule kept_trans [OF one(6) two(3)])
  have "\<exists>ls l'. runs (life_step V) l2 ls l' \<and> sent_messages ls = [] \<and> got_items ls = [] \<and> going V l' \<and> kept V l2 l' \<and>
      undelivered V (lf_session l') = []"
    by (rule Suc.hyps(1)) (use two k2 Suc.hyps(2) Suc.prems one(7) in \<open>simp_all add: kept_def\<close>)
  then obtain ls3 l3 where three: "runs (life_step V) l2 ls3 l3" "sent_messages ls3 = []" "got_items ls3 = []" "going V l3"
      "kept V l2 l3" "undelivered V (lf_session l3) = []" by blast
  have "runs (life_step V) l1 [Internal] l2" using two(1) by (rule runs_one)
  from runs_trans [OF runs_trans [OF three(1) this] one(1)]
  have "runs (life_step V) l (ls1 @ [Internal] @ ls3) l3" by simp
  with one three kept_trans [OF k2 three(5)] show ?case
    by (intro exI [of _ "ls1 @ [Internal] @ ls3"] exI [of _ l3]) simp
qed

lemma life_application_catches_up:
  assumes "tc_topic (ss_handle (lf_session l)) = se_topic V"
  shows "\<exists>ls l'. runs (life_step V) l ls l' \<and> sent_messages ls = [] \<and>
    got_items ls = map (seen_as (se_topic V)) (tc_messages (ss_handle (lf_session l)))"
  using assms
proof (induction "tc_messages (ss_handle (lf_session l))" arbitrary: l)
  case Nil
  then show ?case by (intro exI [of _ "[]"] exI [of _ l]) (simp add: runs.runs_Nil)
next
  case (Cons x xs)
  let ?h = "ss_handle (lf_session l)"
  obtain h where p: "tc_poll_next 0 ?h = (Ready (Some (yielded ?h x)), h)" "tc_messages h = xs" "tc_topic h = tc_topic ?h"
    by (rule tc_poll_next_cases [of ?h 0]) (use Cons.hyps(2) in auto)
  let ?l = "(with_handle h l)\<lparr>lf_got := lf_got l @ [yielded ?h x]\<rparr>"
  have one: "runs (life_step V) l [Got (yielded ?h x)] ?l" by (intro runs_one life_polls [OF p(1)])
  have "\<exists>ls l'. runs (life_step V) ?l ls l' \<and> sent_messages ls = [] \<and>
      got_items ls = map (seen_as (se_topic V)) (tc_messages (ss_handle (lf_session ?l)))"
    using p Cons.prems by (intro Cons.hyps(1)) (simp_all add: with_handle_def)
  then obtain ls l' where "runs (life_step V) ?l ls l'" "sent_messages ls = []"
      "got_items ls = map (seen_as (se_topic V)) xs"
    using p(2) by (auto simp: with_handle_def)
  with runs_trans [OF this(1) one] Cons.hyps(2) [symmetric] yielded_seen [OF Cons.prems, of x] show ?case
    by (intro exI [of _ "[Got (yielded ?h x)] @ ls"] exI [of _ l']) simp
qed

lemma life_progress:
  assumes "wire_format (se_wire V)" and "going V l" and "lf_open l"
    and "list_all (\<lambda>m. \<not> ends_topic m) (for_consumer V (ss_sent (lf_session l)))"
  shows "\<exists>ls l'. runs (life_step V) l ls l' \<and> sent_messages ls = [] \<and> got_items ls = life_queue V l"
proof -
  let ?s = "lf_session l"
  obtain i b where read: "read_input (present V l) (length (ss_link ?s)) [] ?s = (i, b)" by fastforce
  obtain p r where poll: "poll i (ss_receiver ?s) = (p, r)" by fastforce
  let ?l = "l\<lparr>lf_session := ?s\<lparr>ss_link := drop (length (ss_link ?s)) (ss_link ?s), ss_buffer := b, ss_receiver := r\<rparr>\<rparr>"
  have step: "life_step V l Internal ?l" by (rule life_reads [OF assms(3) _ read poll]) simp
  have going: "going V ?l" using life_step_inv [OF assms(1) _ step] assms(2) by (simp add: going_def)
  have "link_inv (present V l) ?s" using assms(2) by (simp add: going_def life_inv_def life_owes_def)
  then have all: "inbox (present V ?l) (lf_session ?l) = for_consumer V (ss_sent (lf_session ?l))"
    using transport_reads_link(2) [OF _ _ _ read poll] assms(1) present_cong [of ?l l V] by simp
  have queue: "life_queue V ?l = life_queue V l" by (simp add: life_queue_def undelivered_def)
  obtain ls1 l1 where one: "runs (life_step V) ?l ls1 l1" "sent_messages ls1 = []" "got_items ls1 = []"
      "going V l1" "kept V ?l l1" "undelivered V (lf_session l1) = []"
    using life_engine_catches_up [OF assms(1) going all] assms(4) by auto
  then have "tc_topic (ss_handle (lf_session l1)) = se_topic V" by (simp add: going_def life_inv_def life_owes_def)
  from life_application_catches_up [OF this] obtain ls2 l2 where two: "runs (life_step V) l1 ls2 l2"
      "sent_messages ls2 = []" "got_items ls2 = life_queue V l1"
    using one(6) by (auto simp: life_queue_def)
  have "runs (life_step V) l [Internal] ?l" using step by (rule runs_one)
  from runs_trans [OF runs_trans [OF two(1) one(1)] this]
  have "runs (life_step V) l ([Internal] @ ls1 @ ls2) l2" by simp
  with one(2,3,5) two(2,3) queue show ?thesis
    by (intro exI [of _ "[Internal] @ ls1 @ ls2"] exI [of _ l2]) (simp add: kept_def)
qed

section \<open>Properties of the life of a subscription\<close>

lemma life_step_got: "life_step V l x l' \<Longrightarrow> lf_got l' = lf_got l @ got_items [x]"
  by (induction rule: life_step.induct) (simp_all add: acted_def resumed_def with_engine_def with_handle_def)

lemma life_run_got: "runs (life_step V) l ls l' \<Longrightarrow> lf_got l' = lf_got l @ got_items ls"
  by (induction rule: runs.induct) (simp_all add: life_step_got)

text \<open>C2: A subscription survives reconnections. Take any life of a subscription: any interleaving of the parts, on
  any number of connections, which may break at any time, also while the engine waits, so that it may wait on the
  channel of an earlier subscription, and any number of times that the broker closes the consumer. What the
  application has received followed by what is queued for it is exactly what the messages unpack to that the engine
  took, on whichever channel, in order, and the errors of the subscriptions that were refused: the client loses
  nothing that its engine has taken and repeats nothing. While the engine listens on the channel of its present
  subscription, what it has taken since it subscribed is a prefix of what the broker sent on the present connection to
  the consumer, whose only channel in the receiver that is.\<close>

theorem subscription_survives_reconnections:
  assumes "wire_format (se_wire V)" and "life_start V l\<^sub>0" and "runs (life_step V) l\<^sub>0 ls l"
  shows "got_items ls @ map (seen_as (se_topic V)) (tc_messages (ss_handle (lf_session l))) =
      concat (map (event_seen V) (lf_events l)) \<and>
    (listening (lf_engine l) = Some (lf_channel l) \<longrightarrow>
      taken_of (drop (lf_base l) (lf_events l)) =
        take (ss_taken (lf_session l)) (for_consumer V (ss_sent (lf_session l))) \<and>
      sole_channel (ss_receiver (lf_session l)) (se_consumer V) (lf_channel l))"
proof -
  have "life_inv V l" using life_run_inv [OF assms(3,1) life_start_inv [OF assms(2)]] .
  moreover have "lf_got l = got_items ls"
    using life_run_got [OF assms(3)] assms(2) by (auto simp: life_start_def life_new_def)
  ultimately show ?thesis by (simp add: life_inv_def life_owes_def here_inv_def link_inv_def)
qed


text \<open>C6: A subscription makes progress, also after reconnections. From every state of its life in which the engine runs
  on a connection that is up and listens on the channel of its present subscription, the receiver of the
  connection runs and no end of the topic has been sent, transport, receiver, engine and application alone, with no help
  from the broker, come to a state in which the application has received exactly what was queued for it and what
  was under way on the present connection, in order.\<close>

theorem reconnected_subscription_progresses:
  assumes "wire_format (se_wire V)" and "life_start V l\<^sub>0" and "runs (life_step V) l\<^sub>0 ls l"
    and "ss_running (lf_session l)" and "healthy (lf_engine l)" and "lf_open l"
    and "listening (lf_engine l) = Some (lf_channel l)"
    and "list_all (\<lambda>m. \<not> ends_topic m) (for_consumer V (ss_sent (lf_session l)))"
  shows "\<exists>ls' l'. runs (life_step V) l ls' l' \<and> sent_messages ls' = [] \<and>
    got_items ls' = map (seen_as (se_topic V)) (tc_messages (ss_handle (lf_session l))) @
      items_of V (undelivered V (lf_session l))"
proof -
  have "life_inv V l" using life_run_inv [OF assms(3,1) life_start_inv [OF assms(2)]] .
  then have "going V l" using assms(4,5,7) by (simp add: going_def)
  from life_progress [OF assms(1) this assms(6,8)] show ?thesis unfolding life_queue_def .
qed

section \<open>Instances for concrete inputs\<close>

text \<open>The subscription of the example in \<open>Session\<close>: the broker sends a message, the connection breaks before it is
  read, and the engine subscribes on another connection with another channel.\<close>

definition ex_life :: life where
  "ex_life = life_new ex_session_env ex_session"

definition ex_life_sent :: life where
  "ex_life_sent = life_new ex_session_env ex_session_sent"

definition ex_life_broken :: life where
  "ex_life_broken = with_engine ((lf_engine ex_life_sent)
     \<lparr>e_connection := (e_connection (lf_engine ex_life_sent))
        \<lparr>conn_sender := (conn_sender (e_connection (lf_engine ex_life_sent)))
           \<lparr>cs_error := shared_error_set Disconnected shared_error_new\<rparr>\<rparr>\<rparr>) ex_life_sent"

definition ex_moved_env :: engine_env where
  "ex_moved_env = ex_env\<lparr>ee_rc_check := ex_reconnect\<lparr>rc_channel := 6\<rparr>\<rparr>"

definition ex_life_resumed :: life where
  "ex_life_resumed =
     (resumed (ee_rc_check ex_moved_env) (ex_connection 9) (receiver_new shared_error_new)
       (acted (begin_tx ex_moved_env (lf_engine ex_life_broken)) Continue
         (snd (engine_begin ex_moved_env (lf_engine ex_life_broken))) ex_life_broken))\<lparr>lf_waiting := True\<rparr>"

lemma ex_wire: "wire_format (se_wire ex_session_env)"
  by (simp add: ex_session_env_def session_env_new_def be.wire_format_axioms)

lemma ex_life_engine: "e_id (ss_engine ex_session) = se_consumer ex_session_env"
  "listening (ss_engine ex_session) = Some (se_channel ex_session_env)"
  using created_engine [OF ex_creation_consumer]
  by (simp_all add: ex_session_fields ex_session_env_def session_env_new_def)

lemma ex_life_start: "life_start ex_session_env ex_life"
  using ex_session_start ex_life_engine by (auto simp: life_start_def ex_life_def)

lemma ex_life_run: "runs (life_step ex_session_env) ex_life [Sent (ex_inbound None)] ex_life_sent"
proof -
  have "present ex_session_env ex_life = ex_session_env" by (simp add: ex_life_def life_new_def present_def)
  moreover have "may_send ex_session_env ex_session (ex_inbound None)" using ex_session_sends by cases
  ultimately have "life_step ex_session_env ex_life (Sent (ex_inbound None)) ex_life_sent"
    using life_sends [of ex_session_env ex_life "ex_inbound None"]
    by (simp add: ex_life_def ex_life_sent_def life_new_def ex_session_sent_def ex_session_fields)
  then show ?thesis by (rule runs_one)
qed

lemma ex_broken_engine:
  "\<not> is_valid (e_connection (lf_engine ex_life_broken))"
  "fst (connection_error (e_connection (lf_engine ex_life_broken))) = Some Disconnected"
  by (simp_all add: ex_life_broken_def with_engine_def is_valid_def connection_error_def shared_error_defs)

lemma ex_begins_again: "fst (engine_begin ex_moved_env (lf_engine ex_life_broken)) = Inr ()"
proof -
  obtain c where "connection_error (e_connection (lf_engine ex_life_broken)) = (Some Disconnected, c)"
    using ex_broken_engine(2) by (metis prod.collapse)
  then have "fst (check_connection ex_moved_env (lf_engine ex_life_broken)) = Inr () \<and>
      cs_tx_open (conn_sender (e_connection (snd (check_connection ex_moved_env (lf_engine ex_life_broken)))))"
    using ex_broken_engine(1)
    by (simp add: check_connection_def ex_moved_env_def ex_env_def ex_reconnect_def reconnect_def on_sender_def
        sender_subscribe_def next_request_id_eq registrations_send_def send_message_def open_channel_def tx_send_def
        ex_connection_def connection_sender_new_def extract_message_def ex_success_def send_flow_def proto_simps Let_def)
  then obtain e where e: "check_connection ex_moved_env (lf_engine ex_life_broken) = (Inr (), e)"
      "cs_tx_open (conn_sender (e_connection e))"
    by (metis prod.collapse)
  obtain r e' where "refill ex_moved_env e = (r, e')" by fastforce
  with refill_open [OF e(2) this] e(1) show ?thesis by (simp add: engine_begin_def)
qed

lemma ex_life_resumed_run:
  "runs (life_step ex_session_env) ex_life [Sent (ex_inbound None), Internal, Internal] ex_life_resumed"
proof -
  have "life_step ex_session_env ex_life_sent Internal ex_life_broken"
    unfolding ex_life_broken_def by (rule life_connection_changes)
  from runs.runs_snoc [OF ex_life_run this]
  have run: "runs (life_step ex_session_env) ex_life [Sent (ex_inbound None), Internal] ex_life_broken" by simp
  have "life_step ex_session_env ex_life_broken Internal ex_life_resumed"
    unfolding ex_life_resumed_def
  proof (rule life_begins_again)
    show "reconnecting ex_moved_env (lf_engine ex_life_broken) = Some (ee_rc_check ex_moved_env)"
      using ex_broken_engine by (simp add: reconnecting_def)
    show "engine_begin ex_moved_env (lf_engine ex_life_broken) =
        (Inr (), snd (engine_begin ex_moved_env (lf_engine ex_life_broken)))"
      using ex_begins_again by (metis prod.collapse)
    have "listening (lf_engine ex_life_broken) = listening (ss_engine ex_session)"
      by (simp add: ex_life_broken_def ex_life_sent_def with_engine_def life_new_def ex_session_sent_def listening_def
          split: option.split)
    then show "listening (lf_engine ex_life_broken) \<noteq> Some (rc_channel (ee_rc_check ex_moved_env))"
      using ex_life_engine(2)
      by (simp add: ex_session_env_def session_env_new_def ex_consumer_env_def ex_moved_env_def)
  qed (simp_all add: ex_life_broken_def ex_life_sent_def with_engine_def life_new_def ex_session_sent_def
      ex_session_fields offered_def ex_moved_env_def ex_reconnect_def new_channel_def receiver_new_def)
  from runs.runs_snoc [OF run this] show ?thesis by simp
qed

lemma ex_resumed_listening: "listening (lf_engine ex_life_resumed) = Some (lf_channel ex_life_resumed)"
proof -
  have "reconnecting ex_moved_env (lf_engine ex_life_broken) = Some (ee_rc_check ex_moved_env)"
    using ex_broken_engine by (simp add: reconnecting_def)
  moreover have "engine_begin ex_moved_env (lf_engine ex_life_broken) =
      (Inr (), snd (engine_begin ex_moved_env (lf_engine ex_life_broken)))"
    using ex_begins_again by (metis prod.collapse)
  ultimately obtain conn where "subscribed (ee_rc_check ex_moved_env) conn (lf_engine ex_life_broken)
      (snd (engine_begin ex_moved_env (lf_engine ex_life_broken)))"
    using begin_subscribes by blast
  moreover have "e_held (lf_engine ex_life_broken) = None"
    using created_engine(3) [OF ex_creation_consumer]
    by (simp add: ex_life_broken_def ex_life_sent_def with_engine_def life_new_def ex_session_sent_def ex_session_fields)
  ultimately show ?thesis
    by (simp add: ex_life_resumed_def resumed_def acted_def subscribed_def listening_def)
qed

theorem subscription_survives_reconnections_witness:
  "got_items [Sent (ex_inbound None), Internal, Internal] @
     map (seen_as (se_topic ex_session_env)) (tc_messages (ss_handle (lf_session ex_life_resumed))) =
     concat (map (event_seen ex_session_env) (lf_events ex_life_resumed)) \<and>
   taken_of (drop (lf_base ex_life_resumed) (lf_events ex_life_resumed)) =
     take (ss_taken (lf_session ex_life_resumed)) (for_consumer ex_session_env (ss_sent (lf_session ex_life_resumed))) \<and>
   sole_channel (ss_receiver (lf_session ex_life_resumed)) (se_consumer ex_session_env) (lf_channel ex_life_resumed)"
  using subscription_survives_reconnections [OF ex_wire ex_life_start ex_life_resumed_run] ex_resumed_listening by blast

theorem reconnected_subscription_progresses_witness:
  "\<exists>ls' l'. runs (life_step ex_session_env) ex_life_sent ls' l' \<and> sent_messages ls' = [] \<and>
    got_items ls' = items_of ex_session_env [ex_inbound None]"
proof -
  have "ss_taken (lf_session ex_life_sent) = 0" "for_consumer ex_session_env (ss_sent (lf_session ex_life_sent)) = [ex_inbound None]"
    by (simp_all add: ex_life_sent_def life_new_def ex_session_sent_def ex_session_def session_new_def
        ex_session_env_def session_env_new_def ex_created_fields ex_inbound_for_consumer)
  then have under_way: "undelivered ex_session_env (lf_session ex_life_sent) = [ex_inbound None]"
    by (simp add: undelivered_def)
  have handle: "tc_messages (ss_handle (lf_session ex_life_sent)) = []"
    by (simp add: ex_life_sent_def life_new_def ex_session_sent_def ex_session_fields ex_created_fields)
  have "healthy (ss_engine ex_session)" using ex_session_start by (simp add: session_start_def working_def)
  then have "healthy (lf_engine ex_life_sent)" "ss_running (lf_session ex_life_sent)" "lf_open ex_life_sent"
      "listening (lf_engine ex_life_sent) = Some (lf_channel ex_life_sent)"
    using ex_life_engine by (simp_all add: ex_life_sent_def life_new_def ex_session_sent_def ex_session_fields)
  moreover have "list_all (\<lambda>m. \<not> ends_topic m) (for_consumer ex_session_env (ss_sent (lf_session ex_life_sent)))"
    by (simp add: ex_life_sent_def life_new_def ex_session_sent_def ends_topic_def ex_inbound_def proto_simps)
  ultimately show ?thesis
    using reconnected_subscription_progresses [OF ex_wire ex_life_start ex_life_run] unfolding under_way handle by simp
qed






end
