(* ===== verification/TreeMap.thy ===== *)
theory TreeMap
  imports Prelude "HOL-Library.List_Lexorder" "HOL-Library.Char_ord"
begin

text \<open>
  \<open>BTreeMap\<close> of the standard library as \<open>src/consumer.rs\<close> uses it: a finite map whose entries are
  visited in the order of their keys. The contract is the locale \<open>tree_map\<close>; what its clients
  need of whole sequences of insertions and removals is proved there once. The model is the list
  of the entries in the order of their keys.
\<close>

section \<open>The contract\<close>

locale tree_map =
  fixes wf :: "'m \<Rightarrow> bool"
    and lookup :: "'m \<Rightarrow> 'k \<Rightarrow> 'v option"
    and insert :: "'k \<Rightarrow> 'v \<Rightarrow> 'm \<Rightarrow> 'm"
    and remove :: "'k \<Rightarrow> 'm \<Rightarrow> 'm"
    and keys :: "'m \<Rightarrow> 'k list"
    and total :: "('v \<Rightarrow> u64) \<Rightarrow> 'm \<Rightarrow> u64"
  assumes wf_insert: "wf m \<Longrightarrow> wf (insert k v m)"
    and wf_remove: "wf m \<Longrightarrow> wf (remove k m)"
    and lookup_insert: "wf m \<Longrightarrow> lookup (insert k v m) = (lookup m)(k \<mapsto> v)"
    and lookup_remove: "wf m \<Longrightarrow> lookup (remove k m) = (lookup m)(k := None)"
    and set_keys: "wf m \<Longrightarrow> set (keys m) = dom (lookup m)"
    and total_insert: "wf m \<Longrightarrow> total f (insert k v m) = f v + total f (remove k m)"
    and total_remove: "wf m \<Longrightarrow>
      total f m = total f (remove k m) + (case lookup m k of None \<Rightarrow> 0 | Some v \<Rightarrow> f v)"
begin

lemma wf_inserts: "wf m \<Longrightarrow> wf (fold (\<lambda>v. insert (key v) v) vs m)"
  by (induction vs arbitrary: m) (simp_all add: wf_insert)

lemma dom_inserts:
  "wf m \<Longrightarrow> dom (lookup (fold (\<lambda>v. insert (key v) v) vs m)) = dom (lookup m) \<union> key ` set vs"
  by (induction vs arbitrary: m) (auto simp: wf_insert lookup_insert)

lemma lookup_inserts_other:
  "wf m \<Longrightarrow> k \<notin> key ` set vs \<Longrightarrow> lookup (fold (\<lambda>v. insert (key v) v) vs m) k = lookup m k"
  by (induction vs arbitrary: m) (auto simp: wf_insert lookup_insert)

lemma wf_removes: "wf m \<Longrightarrow> wf (fold remove ks m)"
  by (induction ks arbitrary: m) (simp_all add: wf_remove)

lemma lookup_removes:
  "wf m \<Longrightarrow> lookup (fold remove ks m) k = (if k \<in> set ks then None else lookup m k)"
  by (induction ks arbitrary: m) (auto simp: wf_remove lookup_remove)

lemma dom_removes: "wf m \<Longrightarrow> dom (lookup (fold remove ks m)) = dom (lookup m) - set ks"
  by (auto simp: dom_def lookup_removes)

text \<open>Replacing the value of a key changes the total by the difference of the two values.\<close>

lemma total_replace:
  assumes "wf m" and "lookup m k = Some v"
  shows "total f (insert k v' m) + f v = total f m + f v'"
  using total_insert [OF assms(1), of f k v'] total_remove [OF assms(1), of f k] assms(2)
  by (simp add: algebra_simps)

text \<open>Values that count nothing, put where nothing was counted, leave the total as it is.\<close>

lemma total_inserts_zero:
  assumes "wf m" and "\<forall>v\<in>set vs. f v = 0 \<and> (\<forall>w. lookup m (key v) = Some w \<longrightarrow> f w = 0)"
  shows "total f (fold (\<lambda>v. insert (key v) v) vs m) = total f m"
  using assms
proof (induction vs arbitrary: m)
  case Nil
  show ?case by simp
next
  case (Cons v vs)
  have "total f (insert (key v) v m) = total f m"
    using total_insert [OF Cons.prems(1), of f "key v" v] total_remove [OF Cons.prems(1), of f "key v"]
      Cons.prems(2)
    by (cases "lookup m (key v)") auto
  moreover have "total f (fold (\<lambda>v. insert (key v) v) vs (insert (key v) v m)) =
      total f (insert (key v) v m)"
    by (rule Cons.IH) (use Cons.prems in \<open>auto simp: wf_insert lookup_insert split: if_splits\<close>)
  ultimately show ?case by simp
qed

lemma total_absent: "wf m \<Longrightarrow> lookup m k = None \<Longrightarrow> total f (remove k m) = total f m"
  using total_remove [of m f k] by simp

end

section \<open>Ordered association lists\<close>

type_synonym ('k, 'v) btree = "('k \<times> 'v) list"

definition bt_wf :: "('k :: linorder, 'v) btree \<Rightarrow> bool" where
  "bt_wf m \<longleftrightarrow> sorted (map fst m) \<and> distinct (map fst m)"

definition bt_lookup :: "('k, 'v) btree \<Rightarrow> 'k \<Rightarrow> 'v option" where
  "bt_lookup m k = map_of m k"

fun bt_insert :: "'k :: linorder \<Rightarrow> 'v \<Rightarrow> ('k, 'v) btree \<Rightarrow> ('k, 'v) btree" where
  "bt_insert k v [] = [(k, v)]"
| "bt_insert k v ((k', v') # m) =
     (if k < k' then (k, v) # (k', v') # m
      else if k = k' then (k, v) # m
      else (k', v') # bt_insert k v m)"

definition bt_remove :: "'k \<Rightarrow> ('k, 'v) btree \<Rightarrow> ('k, 'v) btree" where
  "bt_remove k m = filter (\<lambda>x. fst x \<noteq> k) m"

definition bt_keys :: "('k, 'v) btree \<Rightarrow> 'k list" where
  "bt_keys m = map fst m"

definition bt_values :: "('k, 'v) btree \<Rightarrow> 'v list" where
  "bt_values m = map snd m"

definition bt_total :: "('v \<Rightarrow> u64) \<Rightarrow> ('k, 'v) btree \<Rightarrow> u64" where
  "bt_total f m = sum_list (map f (bt_values m))"

text \<open>\<open>collect\<close> of entries that are keyed by a function of their value.\<close>

definition bt_collect :: "('v \<Rightarrow> 'k :: linorder) \<Rightarrow> 'v list \<Rightarrow> ('k, 'v) btree" where
  "bt_collect key vs = fold (\<lambda>v. bt_insert (key v) v) vs []"

lemma set_bt_insert_keys: "fst ` set (bt_insert k v m) = insert k (fst ` set m)"
  by (induction k v m rule: bt_insert.induct) auto

lemma bt_wf_insert: "bt_wf m \<Longrightarrow> bt_wf (bt_insert k v m)"
proof (induction k v m rule: bt_insert.induct)
  case (1 k v)
  show ?case by (simp add: bt_wf_def)
next
  case (2 k v k' v' m)
  then show ?case
    by (auto simp: bt_wf_def set_bt_insert_keys not_less dest: order_trans)
qed

lemma bt_wf_remove: "bt_wf m \<Longrightarrow> bt_wf (bt_remove k m)"
  by (induction m) (auto simp: bt_wf_def bt_remove_def)

lemma map_of_bt_insert: "bt_wf m \<Longrightarrow> map_of (bt_insert k v m) = (map_of m)(k \<mapsto> v)"
proof (induction k v m rule: bt_insert.induct)
  case (1 k v)
  show ?case by simp
next
  case (2 k v k' v' m)
  then show ?case by (auto simp: bt_wf_def fun_eq_iff)
qed

lemma map_of_bt_remove: "map_of (bt_remove k m) = (map_of m)(k := None)"
  by (induction m) (auto simp: bt_remove_def fun_eq_iff)

lemma bt_remove_absent: "k \<notin> fst ` set m \<Longrightarrow> bt_remove k m = m"
  by (induction m) (auto simp: bt_remove_def)

lemma bt_total_simps [simp]:
  "bt_total f [] = 0"
  "bt_total f (x # m) = f (snd x) + bt_total f m"
  by (simp_all add: bt_total_def bt_values_def)

lemma bt_total_insert: "bt_wf m \<Longrightarrow> bt_total f (bt_insert k v m) = f v + bt_total f (bt_remove k m)"
proof (induction k v m rule: bt_insert.induct)
  case (1 k v)
  show ?case by (simp add: bt_remove_def)
next
  case (2 k v k' v' m)
  have absent: "k \<notin> fst ` set ((k', v') # m)" if "k < k'"
    using that "2.prems" by (auto simp: bt_wf_def)
  have tail: "bt_wf m" "k' \<notin> fst ` set m" using "2.prems" by (simp_all add: bt_wf_def)
  show ?case
    using 2 tail absent bt_remove_absent [of k "(k', v') # m"] bt_remove_absent [of k' m]
    by (auto simp: bt_remove_def ac_simps)
qed

lemma bt_total_remove:
  "bt_wf m \<Longrightarrow> bt_total f m =
     bt_total f (bt_remove k m) + (case map_of m k of None \<Rightarrow> 0 | Some v \<Rightarrow> f v)"
proof (induction m)
  case Nil
  show ?case by (simp add: bt_remove_def)
next
  case (Cons x m)
  then have "bt_wf m" and "fst x \<notin> fst ` set m" by (simp_all add: bt_wf_def)
  with Cons.IH bt_remove_absent [of "fst x" m] show ?case
    by (auto simp: bt_remove_def ac_simps)
qed

interpretation bt: tree_map bt_wf bt_lookup bt_insert bt_remove bt_keys bt_total
  by unfold_locales
    (auto simp: bt_lookup_def [abs_def] bt_keys_def bt_wf_insert bt_wf_remove map_of_bt_insert
      map_of_bt_remove bt_total_insert bt_total_remove dom_map_of_conv_image_fst)

lemma bt_wf_Nil [simp]: "bt_wf []"
  by (simp add: bt_wf_def)

lemma bt_insert_same: "bt_wf m \<Longrightarrow> bt_lookup m k = Some v \<Longrightarrow> bt_insert k v m = m"
proof (induction k v m rule: bt_insert.induct)
  case (1 k v)
  then show ?case by (simp add: bt_lookup_def)
next
  case (2 k v k' v' m)
  have "\<not> k < k'"
  proof
    assume less: "k < k'"
    with "2.prems" have "map_of m k = Some v" by (auto simp: bt_lookup_def split: if_splits)
    then have "k \<in> fst ` set m" by (auto dest: map_of_SomeD intro: rev_image_eqI)
    with less "2.prems"(1) show False by (auto simp: bt_wf_def)
  qed
  with 2 show ?case by (auto simp: bt_wf_def bt_lookup_def)
qed

lemma bt_collect_props:
  "bt_wf (bt_collect key vs)" "dom (bt_lookup (bt_collect key vs)) = key ` set vs"
  using bt.wf_inserts [of "[]" key vs] bt.dom_inserts [of "[]" key vs]
  by (simp_all add: bt_collect_def bt_lookup_def [abs_def])

end
