(* ===== verification/MultiConsumer.thy ===== *)
theory MultiConsumer
  imports Consumer TreeMap
begin

text \<open>
  \<open>MultiTopicConsumer\<close> and \<open>Consumer\<close> of \<open>src/consumer.rs\<close>: a consumer of many topics, which
  holds a handle per topic, polls them in turn, drops the topics that fail, and looks for new
  topics that match its pattern whenever its timer fires; and the public type, which is a
  consumer of one topic or of many.

  The pattern is the test \<open>mt_topic_regex\<close>. The future that discovers topics is the set of the
  names that were known when it was made; what it meets when it is polled is a \<open>discovery_env\<close>.
  What the engines and brokers of the topics answer is a function of the topic.
\<close>

section \<open>State\<close>

record MultiTopicConsumer =
  mt_namespace :: string
  mt_topic_regex :: "(string \<Rightarrow> bool) option"
  mt_consumers :: "(string, TopicConsumer) btree"
  mt_topics :: "string list"
  mt_new_consumers :: "string list option"
  mt_config :: ConsumerConfig
  disc_messages_received :: u64
  disc_last_message_received :: "nat option"

datatype InnerConsumer = Single TopicConsumer | Multi MultiTopicConsumer

text \<open>A consumer of many topics as the builder and a seek put it together.\<close>

definition multi_new ::
  "string \<Rightarrow> (string \<Rightarrow> bool) option \<Rightarrow> ConsumerConfig \<Rightarrow> TopicConsumer list \<Rightarrow> MultiTopicConsumer" where
  "multi_new namespace regex config cs =
     (let consumers = bt_collect tc_topic cs in
      \<lparr>mt_namespace = namespace, mt_topic_regex = regex, mt_consumers = consumers,
       mt_topics = bt_keys consumers, mt_new_consumers = None, mt_config = config,
       disc_messages_received = 0, disc_last_message_received = None\<rparr>)"

section \<open>Counters\<close>

definition last_of :: "nat option list \<Rightarrow> nat option" where
  "last_of ts = (case List.map_filter (\<lambda>t. t) ts of [] \<Rightarrow> None | t # ts \<Rightarrow> Some (fold max ts t))"

definition mt_last_message_received :: "MultiTopicConsumer \<Rightarrow> nat option" where
  "mt_last_message_received m =
     last_of (map tc_last_message_received (bt_values (mt_consumers m)) @ [disc_last_message_received m])"

definition mt_messages_received :: "MultiTopicConsumer \<Rightarrow> u64" where
  "mt_messages_received m =
     bt_total tc_messages_received (mt_consumers m) + disc_messages_received m"

section \<open>Adding and removing topics\<close>

definition add_consumer :: "TopicConsumer \<Rightarrow> MultiTopicConsumer \<Rightarrow> MultiTopicConsumer" where
  "add_consumer c m =
     m\<lparr>mt_consumers := bt_insert (tc_topic c) c (mt_consumers m), mt_topics := mt_topics m @ [tc_topic c]\<rparr>"

definition add_consumers :: "TopicConsumer list \<Rightarrow> MultiTopicConsumer \<Rightarrow> MultiTopicConsumer" where
  "add_consumers cs m = fold add_consumer cs m"

definition remove_consumer :: "string \<Rightarrow> MultiTopicConsumer \<Rightarrow> MultiTopicConsumer" where
  "remove_consumer topic m =
     (case bt_lookup (mt_consumers m) topic of
        None \<Rightarrow> m
      | Some c \<Rightarrow>
          m\<lparr>mt_consumers := bt_remove topic (mt_consumers m),
            disc_messages_received := disc_messages_received m + tc_messages_received c,
            disc_last_message_received :=
              last_of [disc_last_message_received m, tc_last_message_received c]\<rparr>)"

definition remove_consumers :: "string list \<Rightarrow> MultiTopicConsumer \<Rightarrow> MultiTopicConsumer" where
  "remove_consumers topics m =
     fold remove_consumer topics (m\<lparr>mt_topics := filter (\<lambda>t. t \<notin> set topics) (mt_topics m)\<rparr>)"

definition update_topics :: "MultiTopicConsumer \<Rightarrow> MultiTopicConsumer" where
  "update_topics m =
     (case mt_topic_regex m of
        None \<Rightarrow> m
      | Some _ \<Rightarrow> m\<lparr>mt_new_consumers := Some (bt_keys (mt_consumers m))\<rparr>)"

section \<open>Discovery\<close>

text \<open>What a discovery meets: the names in the namespace, the partitions of each of them, and what
  creating a consumer for a topic meets.\<close>

record discovery_env =
  de_topics :: "(pulsar_error, string list) res option"
  de_lookup :: "string \<Rightarrow> (pulsar_error, (string \<times> BrokerAddress) list) res option"
  de_create :: "string \<Rightarrow> consumer_env"

definition create_consumer ::
  "(string \<Rightarrow> consumer_env) \<Rightarrow> ConsumerConfig \<Rightarrow> string \<Rightarrow> BrokerAddress
     \<Rightarrow> (pulsar_error, TopicConsumer) res option" where
  "create_consumer envs config topic addr =
     map_option (\<lambda>r. bind_res r (\<lambda>x. Inr (fst x)))
       (topic_consumer_new (envs topic) topic addr config)"

definition discover_topics ::
  "discovery_env \<Rightarrow> (string \<Rightarrow> bool) \<Rightarrow> string list \<Rightarrow> ConsumerConfig
     \<Rightarrow> (pulsar_error, TopicConsumer list) res option" where
  "discover_topics D regex existing_topics config =
     (case de_topics D of
        None \<Rightarrow> None
      | Some (Inl err) \<Rightarrow> Some (Inl err)
      | Some (Inr topics) \<Rightarrow>
          (case try_join_all (map (de_lookup D) (filter regex topics)) of
             None \<Rightarrow> None
           | Some (Inl err) \<Rightarrow> Some (Inl err)
           | Some (Inr parts) \<Rightarrow>
               try_join_all (map (\<lambda>(topic, addr). create_consumer (de_create D) config topic addr)
                 (filter (\<lambda>(t, _). t \<notin> set existing_topics) (concat parts)))))"

text \<open>The first part of \<open>poll_next\<close>: the future is polled if there is one.\<close>

definition poll_discovery :: "discovery_env \<Rightarrow> MultiTopicConsumer \<Rightarrow> MultiTopicConsumer" where
  "poll_discovery D m =
     (case (mt_new_consumers m, mt_topic_regex m) of
        (Some existing, Some regex) \<Rightarrow>
          (case discover_topics D regex existing (mt_config m) of
             None \<Rightarrow> m
           | Some (Inl _) \<Rightarrow> m\<lparr>mt_new_consumers := None\<rparr>
           | Some (Inr cs) \<Rightarrow> add_consumers cs (m\<lparr>mt_new_consumers := None\<rparr>))
      | _ \<Rightarrow> m)"

section \<open>Polling\<close>

type_synonym round_result = "ConsMessage option \<times> string list \<times> MultiTopicConsumer"

text \<open>One turn of the loop over the topics: the result so far, the topics to remove, the state.\<close>

definition poll_topic :: "nat \<Rightarrow> MultiTopicConsumer \<Rightarrow> round_result" where
  "poll_topic now m =
     (let topic = hd (mt_topics m); rest = tl (mt_topics m); m = m\<lparr>mt_topics := rest @ [topic]\<rparr> in
      case bt_lookup (mt_consumers m) topic of
        None \<Rightarrow> (None, [], m)
      | Some c \<Rightarrow>
          (case tc_poll_next now c of
             (item, c) \<Rightarrow>
               (let m = m\<lparr>mt_consumers := bt_insert topic c (mt_consumers m)\<rparr> in
                case item of
                  Pending \<Rightarrow> (None, [], m)
                | Ready (Some (Inr msg)) \<Rightarrow> (Some msg, [], m)
                | Ready None \<Rightarrow> (None, [topic], m)
                | Ready (Some (Inl _)) \<Rightarrow> (None, [topic], m))))"

text \<open>The loop runs at most once per topic and stops at the first message.\<close>

fun poll_topics :: "nat \<Rightarrow> nat \<Rightarrow> MultiTopicConsumer \<Rightarrow> round_result" where
  "poll_topics now 0 m = (None, [], m)"
| "poll_topics now (Suc n) m =
     (case poll_topic now m of
        (Some msg, rm, m) \<Rightarrow> (Some msg, rm, m)
      | (None, rm, m) \<Rightarrow> (case poll_topics now n m of (r, rm', m) \<Rightarrow> (r, rm @ rm', m)))"

definition poll_consumers :: "nat \<Rightarrow> MultiTopicConsumer \<Rightarrow> ConsMessage option \<times> MultiTopicConsumer" where
  "poll_consumers now m =
     (case poll_topics now (length (mt_topics m)) m of
        (r, topics_to_remove, m) \<Rightarrow> (r, remove_consumers topics_to_remove m))"

text \<open>
  \<open>poll_next\<close> calls itself as long as the timer has fired: \<open>refreshes\<close> has what the discovery meets
  in each of these calls, \<open>D\<close> what it meets in the last one, which finds the timer idle.
\<close>

definition mt_poll_next ::
  "discovery_env list \<Rightarrow> discovery_env \<Rightarrow> nat \<Rightarrow> MultiTopicConsumer
     \<Rightarrow> (pulsar_error, ConsMessage) res option poll \<times> MultiTopicConsumer" where
  "mt_poll_next refreshes D now m =
     (case poll_consumers now
             (poll_discovery D (fold (\<lambda>R m. update_topics (poll_discovery R m)) refreshes m)) of
        (Some msg, m) \<Rightarrow> (Ready (Some (Inr msg)), m)
      | (None, m) \<Rightarrow> (Pending, m))"

section \<open>Operations on one topic\<close>

definition no_consumer :: "string \<Rightarrow> consumer_error" where
  "no_consumer topic = ConsConnection (Unexpected (''no consumer for topic '' @ topic))"

text \<open>\<open>get_mut\<close>: the operation works on the entry in place.\<close>

definition on_topic ::
  "(TopicConsumer \<Rightarrow> (consumer_error, unit) res \<times> TopicConsumer) \<Rightarrow> string \<Rightarrow> MultiTopicConsumer
     \<Rightarrow> (consumer_error, unit) res \<times> MultiTopicConsumer" where
  "on_topic f topic m =
     (case bt_lookup (mt_consumers m) topic of
        Some c \<Rightarrow> (case f c of (r, c) \<Rightarrow> (r, m\<lparr>mt_consumers := bt_insert topic c (mt_consumers m)\<rparr>))
      | None \<Rightarrow> (Inl (no_consumer topic), m))"

definition mt_ack ::
  "ConsMessage \<Rightarrow> MultiTopicConsumer \<Rightarrow> (consumer_error, unit) res \<times> MultiTopicConsumer" where
  "mt_ack msg m = on_topic (tc_ack msg) (cm_topic msg) m"

definition mt_cumulative_ack ::
  "ConsMessage \<Rightarrow> MultiTopicConsumer \<Rightarrow> (consumer_error, unit) res \<times> MultiTopicConsumer" where
  "mt_cumulative_ack msg m = on_topic (tc_cumulative_ack msg) (cm_topic msg) m"

definition mt_nack ::
  "ConsMessage \<Rightarrow> MultiTopicConsumer \<Rightarrow> (consumer_error, unit) res \<times> MultiTopicConsumer" where
  "mt_nack msg m = on_topic (tc_nack msg) (cm_topic msg) m"

section \<open>Operations on all topics\<close>

text \<open>What the operations on the consumers of many topics meet, per topic: the engine's answer to the
  request for its connection, the broker's answer, and whether the operation has finished when
  an error of another one ends the whole.\<close>

record topic_answers =
  ta_channel :: nat
  ta_connection :: "Connection option"
  ta_response :: "pulsar_message awaited"
  ta_ping :: "unit awaited"
  ta_done :: bool

type_synonym 'r topic_op =
  "string \<Rightarrow> TopicConsumer \<Rightarrow> (pulsar_error, 'r) res \<times> Connection option \<times> TopicConsumer"

type_synonym consumers = "(string, TopicConsumer) btree"

text \<open>\<open>try_join_all\<close> over the consumers: all operations start at once, in the order of the topics. One
  whose engine is gone fails when it starts, and the rest is not started then.\<close>

fun join_topics ::
  "(string \<Rightarrow> topic_answers) \<Rightarrow> 'r topic_op \<Rightarrow> consumers
     \<Rightarrow> (pulsar_error, 'r) res option list \<times> Connection option list \<times> consumers" where
  "join_topics A f [] = ([], [], [])"
| "join_topics A f ((t, c) # m) =
     (case f t c of
        (r, conn, c') \<Rightarrow>
          (if tc_engine_open c then
             (case join_topics A f m of
                (rs, conns, m) \<Rightarrow>
                  ((if ta_done (A t) then Some r else None) # rs, conn # conns, (t, c') # m))
           else ([Some r], [conn], (t, c') # m)))"

text \<open>A loop that awaits one consumer after the other and stops at the first error.\<close>

fun each_topic ::
  "'r topic_op \<Rightarrow> consumers \<Rightarrow> (pulsar_error, unit) res \<times> Connection option list \<times> consumers" where
  "each_topic f [] = (Inr (), [], [])"
| "each_topic f ((t, c) # m) =
     (case f t c of
        (Inl err, conn, c) \<Rightarrow> (Inl err, [conn], (t, c) # m)
      | (Inr _, conn, c) \<Rightarrow>
          (case each_topic f m of (r, conns, m) \<Rightarrow> (r, conn # conns, (t, c) # m)))"

text \<open>\<open>join_all\<close> over some of the consumers: every operation runs to its end.\<close>

fun all_topics ::
  "(string \<Rightarrow> bool) \<Rightarrow> 'r topic_op \<Rightarrow> consumers
     \<Rightarrow> (pulsar_error, 'r) res list \<times> Connection option list \<times> consumers" where
  "all_topics P f [] = ([], [], [])"
| "all_topics P f ((t, c) # m) =
     (case all_topics P f m of
        (rs, conns, m) \<Rightarrow>
          (if P t then (case f t c of (r, conn, c) \<Rightarrow> (r # rs, conn # conns, (t, c) # m))
           else (rs, conns, (t, c) # m)))"

definition mt_get_stats ::
  "(base_command \<Rightarrow> string) \<Rightarrow> (string \<Rightarrow> topic_answers) \<Rightarrow> MultiTopicConsumer
     \<Rightarrow> (pulsar_error, command_consumer_stats_response list) res option \<times> Connection option list
         \<times> MultiTopicConsumer" where
  "mt_get_stats dbg A m =
     (case join_topics A (\<lambda>t. tc_get_stats dbg (ta_response (A t)) (ta_channel (A t)) (ta_connection (A t)))
             (mt_consumers m) of
        (rs, conns, cs) \<Rightarrow> (try_join_all rs, conns, m\<lparr>mt_consumers := cs\<rparr>))"

definition mt_get_last_message_id ::
  "(base_command \<Rightarrow> string) \<Rightarrow> (string \<Rightarrow> topic_answers) \<Rightarrow> MultiTopicConsumer
     \<Rightarrow> (pulsar_error, message_id_data list) res option \<times> Connection option list \<times> MultiTopicConsumer"
where
  "mt_get_last_message_id dbg A m =
     (case join_topics A
             (\<lambda>t. tc_get_last_message_id dbg (ta_response (A t)) (ta_channel (A t)) (ta_connection (A t)))
             (mt_consumers m) of
        (rs, conns, cs) \<Rightarrow> (try_join_all rs, conns, m\<lparr>mt_consumers := cs\<rparr>))"

definition mt_unsubscribe ::
  "(base_command \<Rightarrow> string) \<Rightarrow> (string \<Rightarrow> topic_answers) \<Rightarrow> MultiTopicConsumer
     \<Rightarrow> (pulsar_error, unit) res \<times> Connection option list \<times> MultiTopicConsumer" where
  "mt_unsubscribe dbg A m =
     (case each_topic
             (\<lambda>t. tc_unsubscribe dbg (ta_response (A t)) (ta_channel (A t)) (ta_connection (A t)))
             (mt_consumers m) of
        (r, conns, cs) \<Rightarrow> (r, conns, m\<lparr>mt_consumers := cs\<rparr>))"

text \<open>\<open>base\<close> is what the manager gives as its base connection, \<open>reply\<close> the answer to the ping on it.\<close>

definition mt_check_connections ::
  "(connection_error, Connection) res \<Rightarrow> unit awaited \<Rightarrow> (string \<Rightarrow> topic_answers) \<Rightarrow> MultiTopicConsumer
     \<Rightarrow> (pulsar_error, unit) res \<times> Connection option list \<times> MultiTopicConsumer" where
  "mt_check_connections base reply A m =
     (case base of
        Inl err \<Rightarrow> (Inl (EConnection err), [], m)
      | Inr conn \<Rightarrow>
          (case send_ping reply (conn_sender conn) of
             (Inl err, s) \<Rightarrow> (Inl (EConnection err), [Some (conn\<lparr>conn_sender := s\<rparr>)], m)
           | (Inr _, s) \<Rightarrow>
               (case each_topic
                       (\<lambda>t. tc_check_connection (ta_ping (A t)) (ta_channel (A t)) (ta_connection (A t)))
                       (mt_consumers m) of
                  (r, conns, cs) \<Rightarrow>
                    (r, Some (conn\<lparr>conn_sender := s\<rparr>) # conns, m\<lparr>mt_consumers := cs\<rparr>))))"

fun first_failure :: "('e, unit) res list \<Rightarrow> ('e, unit) res" where
  "first_failure [] = Inr ()"
| "first_failure (Inl err # rs) = Inl err"
| "first_failure (Inr _ # rs) = first_failure rs"

definition mt_seek ::
  "(base_command \<Rightarrow> string) \<Rightarrow> string list option \<Rightarrow> message_id_data option \<Rightarrow> u64 option
     \<Rightarrow> (string \<Rightarrow> topic_answers) \<Rightarrow> MultiTopicConsumer
     \<Rightarrow> (pulsar_error, unit) res \<times> Connection option list \<times> MultiTopicConsumer" where
  "mt_seek dbg consumer_ids message_id timestamp A m =
     (case consumer_ids of
        None \<Rightarrow> (Inl (EConnection (Unexpected ''no consumer for consumer ids None'')), [], m)
      | Some ids \<Rightarrow>
          (case all_topics (\<lambda>t. t \<in> set ids)
                  (\<lambda>t. tc_seek dbg message_id timestamp (ta_response (A t)) (ta_channel (A t))
                     (ta_connection (A t)))
                  (mt_consumers m) of
             (rs, conns, cs) \<Rightarrow> (first_failure rs, conns, m\<lparr>mt_consumers := cs\<rparr>)))"

section \<open>The public consumer\<close>

definition consumer_check_connection ::
  "(connection_error, Connection) res \<Rightarrow> unit awaited \<Rightarrow> (string \<Rightarrow> topic_answers) \<Rightarrow> InnerConsumer
     \<Rightarrow> (pulsar_error, unit) res \<times> Connection option list \<times> InnerConsumer" where
  "consumer_check_connection base reply A i =
     (case i of
        Single c \<Rightarrow>
          (let a = A (tc_topic c) in
           case tc_check_connection (ta_ping a) (ta_channel a) (ta_connection a) c of
             (r, conn, c) \<Rightarrow> (r, [conn], Single c))
      | Multi m \<Rightarrow>
          (case mt_check_connections base reply A m of (r, conns, m) \<Rightarrow> (r, conns, Multi m)))"

definition consumer_get_stats ::
  "(base_command \<Rightarrow> string) \<Rightarrow> (string \<Rightarrow> topic_answers) \<Rightarrow> InnerConsumer
     \<Rightarrow> (pulsar_error, command_consumer_stats_response list) res option \<times> Connection option list
         \<times> InnerConsumer" where
  "consumer_get_stats dbg A i =
     (case i of
        Single c \<Rightarrow>
          (let a = A (tc_topic c) in
           case tc_get_stats dbg (ta_response a) (ta_channel a) (ta_connection a) c of
             (r, conn, c) \<Rightarrow> (Some (bind_res r (\<lambda>x. Inr [x])), [conn], Single c))
      | Multi m \<Rightarrow> (case mt_get_stats dbg A m of (r, conns, m) \<Rightarrow> (r, conns, Multi m)))"

definition consumer_get_last_message_id ::
  "(base_command \<Rightarrow> string) \<Rightarrow> (string \<Rightarrow> topic_answers) \<Rightarrow> InnerConsumer
     \<Rightarrow> (pulsar_error, message_id_data list) res option \<times> Connection option list \<times> InnerConsumer" where
  "consumer_get_last_message_id dbg A i =
     (case i of
        Single c \<Rightarrow>
          (let a = A (tc_topic c) in
           case tc_get_last_message_id dbg (ta_response a) (ta_channel a) (ta_connection a) c of
             (r, conn, c) \<Rightarrow> (Some (bind_res r (\<lambda>x. Inr [x])), [conn], Single c))
      | Multi m \<Rightarrow> (case mt_get_last_message_id dbg A m of (r, conns, m) \<Rightarrow> (r, conns, Multi m)))"

definition consumer_unsubscribe ::
  "(base_command \<Rightarrow> string) \<Rightarrow> (string \<Rightarrow> topic_answers) \<Rightarrow> InnerConsumer
     \<Rightarrow> (pulsar_error, unit) res \<times> Connection option list \<times> InnerConsumer" where
  "consumer_unsubscribe dbg A i =
     (case i of
        Single c \<Rightarrow>
          (let a = A (tc_topic c) in
           case tc_unsubscribe dbg (ta_response a) (ta_channel a) (ta_connection a) c of
             (r, conn, c) \<Rightarrow> (r, [conn], Single c))
      | Multi m \<Rightarrow> (case mt_unsubscribe dbg A m of (r, conns, m) \<Rightarrow> (r, conns, Multi m)))"

text \<open>The three acknowledgements dispatch alike.\<close>

definition on_inner ::
  "(TopicConsumer \<Rightarrow> (consumer_error, unit) res \<times> TopicConsumer)
     \<Rightarrow> (MultiTopicConsumer \<Rightarrow> (consumer_error, unit) res \<times> MultiTopicConsumer) \<Rightarrow> InnerConsumer
     \<Rightarrow> (consumer_error, unit) res \<times> InnerConsumer" where
  "on_inner f g i =
     (case i of
        Single c \<Rightarrow> (case f c of (r, c) \<Rightarrow> (r, Single c))
      | Multi m \<Rightarrow> (case g m of (r, m) \<Rightarrow> (r, Multi m)))"

definition consumer_ack ::
  "ConsMessage \<Rightarrow> InnerConsumer \<Rightarrow> (consumer_error, unit) res \<times> InnerConsumer" where
  "consumer_ack msg i = on_inner (tc_ack msg) (mt_ack msg) i"

definition consumer_cumulative_ack ::
  "ConsMessage \<Rightarrow> InnerConsumer \<Rightarrow> (consumer_error, unit) res \<times> InnerConsumer" where
  "consumer_cumulative_ack msg i = on_inner (tc_cumulative_ack msg) (mt_cumulative_ack msg) i"

definition consumer_nack ::
  "ConsMessage \<Rightarrow> InnerConsumer \<Rightarrow> (consumer_error, unit) res \<times> InnerConsumer" where
  "consumer_nack msg i = on_inner (tc_nack msg) (mt_nack msg) i"

text \<open>What \<open>seek\<close> meets beside the answers to the requests: the lookup of each topic and what creating
  a consumer for it meets. The second component of the result is the inner consumer afterwards:
  after an error it is the old one, on which the seek request may have been sent. \<open>None\<close> as the
  result says that a lookup or a creation has not ended.\<close>

record seek_env =
  se_answers :: "string \<Rightarrow> topic_answers"
  se_lookup :: "string \<Rightarrow> (service_discovery_error, BrokerAddress) res option"
  se_create :: "string \<Rightarrow> consumer_env"

definition rebuilt :: "TopicConsumer list \<Rightarrow> MultiTopicConsumer \<Rightarrow> MultiTopicConsumer" where
  "rebuilt cs m = multi_new (mt_namespace m) (mt_topic_regex m) (mt_config m) cs"

definition seek_single ::
  "(base_command \<Rightarrow> string) \<Rightarrow> seek_env \<Rightarrow> message_id_data option \<Rightarrow> u64 option \<Rightarrow> TopicConsumer
     \<Rightarrow> (pulsar_error, unit) res option \<times> TopicConsumer" where
  "seek_single dbg S message_id timestamp c =
     (let a = se_answers S (tc_topic c) in
      case tc_seek dbg message_id timestamp (ta_response a) (ta_channel a) (ta_connection a) c of
        (Inl err, _, c) \<Rightarrow> (Some (Inl err), c)
      | (Inr _, _, c) \<Rightarrow>
          (case se_lookup S (tc_topic c) of
             None \<Rightarrow> (None, c)
           | Some (Inl err) \<Rightarrow> (Some (Inl (EServiceDiscovery err)), c)
           | Some (Inr addr) \<Rightarrow>
               (case create_consumer (se_create S) (tc_config c) (tc_topic c) addr of
                  None \<Rightarrow> (None, c)
                | Some (Inl err) \<Rightarrow> (Some (Inl err), c)
                | Some (Inr c) \<Rightarrow> (Some (Inr ()), c))))"

definition seek_multi ::
  "(base_command \<Rightarrow> string) \<Rightarrow> seek_env \<Rightarrow> string list option \<Rightarrow> message_id_data option \<Rightarrow> u64 option
     \<Rightarrow> MultiTopicConsumer \<Rightarrow> (pulsar_error, unit) res option \<times> MultiTopicConsumer" where
  "seek_multi dbg S consumer_ids message_id timestamp m =
     (case mt_seek dbg consumer_ids message_id timestamp (se_answers S) m of
        (Inl err, _, m) \<Rightarrow> (Some (Inl err), m)
      | (Inr _, _, m) \<Rightarrow>
          (case try_join_all (map (\<lambda>t. map_option (map_err EServiceDiscovery) (se_lookup S t)) (mt_topics m)) of
             None \<Rightarrow> (None, m)
           | Some (Inl err) \<Rightarrow> (Some (Inl err), m)
           | Some (Inr addrs) \<Rightarrow>
               (case try_join_all
                       (map (\<lambda>(topic, addr). create_consumer (se_create S) (mt_config m) topic addr)
                          (zip (mt_topics m) addrs)) of
                  None \<Rightarrow> (None, m)
                | Some (Inl err) \<Rightarrow> (Some (Inl err), m)
                | Some (Inr cs) \<Rightarrow> (Some (Inr ()), rebuilt cs m))))"

definition consumer_seek ::
  "(base_command \<Rightarrow> string) \<Rightarrow> seek_env \<Rightarrow> string list option \<Rightarrow> message_id_data option \<Rightarrow> u64 option
     \<Rightarrow> InnerConsumer \<Rightarrow> (pulsar_error, unit) res option \<times> InnerConsumer" where
  "consumer_seek dbg S consumer_ids message_id timestamp i =
     (case i of
        Single c \<Rightarrow> (case seek_single dbg S message_id timestamp c of (r, c) \<Rightarrow> (r, Single c))
      | Multi m \<Rightarrow>
          (case seek_multi dbg S consumer_ids message_id timestamp m of (r, m) \<Rightarrow> (r, Multi m)))"

definition consumer_topics :: "InnerConsumer \<Rightarrow> string list" where
  "consumer_topics i = (case i of Single c \<Rightarrow> [tc_topic c] | Multi m \<Rightarrow> mt_topics m)"

text \<open>The set of the URLs is ordered by their text.\<close>

definition consumer_connections ::
  "(string \<Rightarrow> topic_answers) \<Rightarrow> InnerConsumer
     \<Rightarrow> (pulsar_error, url list) res option \<times> InnerConsumer" where
  "consumer_connections A i =
     (case i of
        Single c \<Rightarrow>
          (case tc_connection (ta_channel (A (tc_topic c))) (ta_connection (A (tc_topic c))) c of
             (r, c) \<Rightarrow> (Some (bind_res r (\<lambda>conn. Inr [conn_url conn])), Single c))
      | Multi m \<Rightarrow>
          (case join_topics A
                  (\<lambda>t c. case tc_connection (ta_channel (A t)) (ta_connection (A t)) c of
                            (r, c) \<Rightarrow> (r, None, c))
                  (mt_consumers m) of
             (rs, _, cs) \<Rightarrow>
               (map_option (\<lambda>r. bind_res r
                    (\<lambda>conns. Inr (bt_values (bt_collect url_text (map conn_url conns)))))
                  (try_join_all rs),
                Multi (m\<lparr>mt_consumers := cs\<rparr>))))"

definition consumer_config :: "InnerConsumer \<Rightarrow> ConsumerConfig" where
  "consumer_config i = (case i of Single c \<Rightarrow> tc_config c | Multi m \<Rightarrow> mt_config m)"

definition consumer_options :: "InnerConsumer \<Rightarrow> ConsumerOptions" where
  "consumer_options i = cc_options (consumer_config i)"

definition consumer_dead_letter_policy :: "InnerConsumer \<Rightarrow> DeadLetterPolicy option" where
  "consumer_dead_letter_policy i =
     (case i of
        Single c \<Rightarrow> tc_dead_letter_policy c
      | Multi m \<Rightarrow> cc_dead_letter_policy (mt_config m))"

definition consumer_subscription :: "InnerConsumer \<Rightarrow> string" where
  "consumer_subscription i = cc_subscription (consumer_config i)"

definition consumer_sub_type :: "InnerConsumer \<Rightarrow> sub_type" where
  "consumer_sub_type i = cc_sub_type (consumer_config i)"

definition consumer_batch_size :: "InnerConsumer \<Rightarrow> u32 option" where
  "consumer_batch_size i = cc_batch_size (consumer_config i)"

definition consumer_name :: "InnerConsumer \<Rightarrow> string option" where
  "consumer_name i = cc_consumer_name (consumer_config i)"

definition consumer_ids :: "InnerConsumer \<Rightarrow> u64 list" where
  "consumer_ids i =
     (case i of
        Single c \<Rightarrow> [tc_consumer_id c]
      | Multi m \<Rightarrow> map tc_consumer_id (bt_values (mt_consumers m)))"

definition consumer_redelivery_delay :: "InnerConsumer \<Rightarrow> nat option" where
  "consumer_redelivery_delay i = cc_redelivery_delay (consumer_config i)"

definition consumer_last_message_received :: "InnerConsumer \<Rightarrow> nat option" where
  "consumer_last_message_received i =
     (case i of
        Single c \<Rightarrow> tc_last_message_received c
      | Multi m \<Rightarrow> mt_last_message_received m)"

definition consumer_messages_received :: "InnerConsumer \<Rightarrow> u64" where
  "consumer_messages_received i =
     (case i of Single c \<Rightarrow> tc_messages_received c | Multi m \<Rightarrow> mt_messages_received m)"

definition consumer_poll_next ::
  "discovery_env list \<Rightarrow> discovery_env \<Rightarrow> nat \<Rightarrow> InnerConsumer
     \<Rightarrow> (pulsar_error, ConsMessage) res option poll \<times> InnerConsumer" where
  "consumer_poll_next refreshes D now i =
     (case i of
        Single c \<Rightarrow> (case tc_poll_next now c of (r, c) \<Rightarrow> (r, Single c))
      | Multi m \<Rightarrow> (case mt_poll_next refreshes D now m of (r, m) \<Rightarrow> (r, Multi m)))"

section \<open>The invariant\<close>

definition mt_inv :: "MultiTopicConsumer \<Rightarrow> bool" where
  "mt_inv m \<longleftrightarrow>
     bt_wf (mt_consumers m) \<and>
     (\<forall>t c. bt_lookup (mt_consumers m) t = Some c \<longrightarrow> tc_topic c = t) \<and>
     set (mt_topics m) = dom (bt_lookup (mt_consumers m)) \<and>
     (\<forall>ks. mt_new_consumers m = Some ks \<longrightarrow> dom (bt_lookup (mt_consumers m)) \<subseteq> set ks)"

lemma mt_invI:
  assumes "bt_wf (mt_consumers m)"
    and "\<And>t c. bt_lookup (mt_consumers m) t = Some c \<Longrightarrow> tc_topic c = t"
    and "set (mt_topics m) = dom (bt_lookup (mt_consumers m))"
    and "\<And>ks. mt_new_consumers m = Some ks \<Longrightarrow> dom (bt_lookup (mt_consumers m)) \<subseteq> set ks"
  shows "mt_inv m"
  unfolding mt_inv_def using assms by blast

lemma mt_invD:
  assumes "mt_inv m"
  shows "bt_wf (mt_consumers m)"
    and "bt_lookup (mt_consumers m) t = Some c \<Longrightarrow> tc_topic c = t"
    and "set (mt_topics m) = dom (bt_lookup (mt_consumers m))"
    and "mt_new_consumers m = Some ks \<Longrightarrow> dom (bt_lookup (mt_consumers m)) \<subseteq> set ks"
  using assms unfolding mt_inv_def by blast+

text \<open>A handle whose channels from and to the engine have changed, and nothing else.\<close>

definition same_handle :: "TopicConsumer \<Rightarrow> TopicConsumer \<Rightarrow> bool" where
  "same_handle c c' \<longleftrightarrow>
     c' = c\<lparr>tc_messages := tc_messages c', tc_closed := tc_closed c', tc_engine_tx := tc_engine_tx c'\<rparr>"

lemma same_handle_refl [simp]: "same_handle c c"
  by (simp add: same_handle_def)

lemma same_handle_fields:
  assumes "same_handle c c'"
  shows "tc_topic c' = tc_topic c" "tc_messages_received c' = tc_messages_received c"
proof -
  have e: "c' = c\<lparr>tc_messages := tc_messages c', tc_closed := tc_closed c', tc_engine_tx := tc_engine_tx c'\<rparr>"
    using assms by (simp add: same_handle_def)
  show "tc_topic c' = tc_topic c" by (subst e) simp
  show "tc_messages_received c' = tc_messages_received c" by (subst e) simp
qed

lemma same_handle_tell_engine: "tell_engine x c = (r, c') \<Longrightarrow> same_handle c c'"
  by (auto simp: tell_engine_def engine_send_def same_handle_def split: if_splits)

lemma same_handle_connection: "tc_connection ch a c = (r, c') \<Longrightarrow> same_handle c c'"
  by (auto simp: tc_connection_def engine_send_def same_handle_def split: if_splits option.splits)

lemma same_handle_on_connection: "on_engine_connection f ch a c = (r, conn, c') \<Longrightarrow> same_handle c c'"
  by (auto simp: on_engine_connection_def split: prod.splits sum.splits dest: same_handle_connection)

lemma same_handle_ops:
  "tc_get_stats dbg w ch a c = (r1, conn, c') \<Longrightarrow> same_handle c c'"
  "tc_check_connection p ch a c = (r2, conn, c') \<Longrightarrow> same_handle c c'"
  "tc_seek dbg i ts w ch a c = (r2, conn, c') \<Longrightarrow> same_handle c c'"
  "tc_unsubscribe dbg w ch a c = (r2, conn, c') \<Longrightarrow> same_handle c c'"
  "tc_get_last_message_id dbg w ch a c = (r3, conn, c') \<Longrightarrow> same_handle c c'"
  by (auto simp: tc_get_stats_def tc_check_connection_def tc_seek_def tc_unsubscribe_def
      tc_get_last_message_id_def split: prod.splits dest: same_handle_on_connection)

text \<open>The maps of two states that differ in the channels of the engines.\<close>

definition same_handles :: "consumers \<Rightarrow> consumers \<Rightarrow> bool" where
  "same_handles cs cs' \<longleftrightarrow> list_all2 (\<lambda>x y. fst x = fst y \<and> same_handle (snd x) (snd y)) cs cs'"

lemma same_handles_refl [simp]: "same_handles cs cs"
  by (auto simp: same_handles_def intro: list_all2_refl)

lemma same_handles_Cons [simp]:
  "same_handles ((t, c) # cs) cs' \<longleftrightarrow> (\<exists>c' ds. cs' = (t, c') # ds \<and> same_handle c c' \<and> same_handles cs ds)"
  by (auto simp: same_handles_def list_all2_Cons1)

lemma join_topics_same:
  assumes "\<And>t c r conn c'. f t c = (r, conn, c') \<Longrightarrow> same_handle c c'"
  shows "same_handles cs (snd (snd (join_topics A f cs)))"
proof (induction cs)
  case Nil
  show ?case by simp
next
  case (Cons x cs)
  obtain t c where x: "x = (t, c)" by fastforce
  obtain r conn c' where f: "f t c = (r, conn, c')" by (metis prod_cases3)
  obtain rs conns ds where j: "join_topics A f cs = (rs, conns, ds)" by (metis prod_cases3)
  from Cons.IH assms [OF f] show ?case by (simp add: x f j)
qed

lemma each_topic_same:
  assumes "\<And>t c r conn c'. f t c = (r, conn, c') \<Longrightarrow> same_handle c c'"
  shows "same_handles cs (snd (snd (each_topic f cs)))"
proof (induction cs)
  case Nil
  show ?case by simp
next
  case (Cons x cs)
  obtain t c where x: "x = (t, c)" by fastforce
  obtain r conn c' where f: "f t c = (r, conn, c')" by (metis prod_cases3)
  obtain rs conns ds where j: "each_topic f cs = (rs, conns, ds)" by (metis prod_cases3)
  from Cons.IH assms [OF f] show ?case by (cases r) (simp_all add: x f j)
qed

lemma all_topics_same:
  assumes "\<And>t c r conn c'. f t c = (r, conn, c') \<Longrightarrow> same_handle c c'"
  shows "same_handles cs (snd (snd (all_topics P f cs)))"
proof (induction cs)
  case Nil
  show ?case by simp
next
  case (Cons x cs)
  obtain t c where x: "x = (t, c)" by fastforce
  obtain r conn c' where f: "f t c = (r, conn, c')" by (metis prod_cases3)
  obtain rs conns ds where j: "all_topics P f cs = (rs, conns, ds)" by (metis prod_cases3)
  from Cons.IH assms [OF f] show ?case by (simp add: x f j)
qed

lemma same_handles_keys: "same_handles cs cs' \<Longrightarrow> map fst cs' = map fst cs"
  by (induction cs arbitrary: cs') (auto simp: same_handles_def list_all2_Cons1)

lemma same_handles_lookup:
  "same_handles cs cs' \<Longrightarrow> bt_lookup cs' t = Some c' \<Longrightarrow>
     \<exists>c. bt_lookup cs t = Some c \<and> same_handle c c'"
proof (induction cs arbitrary: cs')
  case Nil
  then show ?case by (simp add: same_handles_def bt_lookup_def)
next
  case (Cons x cs)
  then show ?case by (cases x) (auto simp: bt_lookup_def split: if_splits)
qed

lemma same_handles_dom: "same_handles cs cs' \<Longrightarrow> dom (bt_lookup cs') = dom (bt_lookup cs)"
  using same_handles_keys [of cs cs']
  by (simp add: bt_lookup_def [abs_def] dom_map_of_conv_image_fst flip: set_map)

lemma same_handles_wf: "same_handles cs cs' \<Longrightarrow> bt_wf cs' = bt_wf cs"
  by (simp add: bt_wf_def same_handles_keys)

lemma same_handles_total:
  "same_handles cs cs' \<Longrightarrow> bt_total tc_messages_received cs' = bt_total tc_messages_received cs"
proof (induction cs arbitrary: cs')
  case Nil
  then show ?case by (simp add: same_handles_def)
next
  case (Cons x cs)
  then obtain c c' ds where "snd x = c" "cs' = (fst x, c') # ds" "same_handle c c'" "same_handles cs ds"
    by (cases x) auto
  with Cons.IH [OF this(4)] show ?case by (simp add: same_handle_fields(2) [of c c'])
qed

text \<open>The state of the consumer of many topics up to the channels of the engines.\<close>

definition same_multi :: "MultiTopicConsumer \<Rightarrow> MultiTopicConsumer \<Rightarrow> bool" where
  "same_multi m m' \<longleftrightarrow>
     m' = m\<lparr>mt_consumers := mt_consumers m'\<rparr> \<and> same_handles (mt_consumers m) (mt_consumers m')"

lemma same_multiI: "same_handles (mt_consumers m) cs \<Longrightarrow> same_multi m (m\<lparr>mt_consumers := cs\<rparr>)"
  by (simp add: same_multi_def)

lemma same_multi_refl [simp]: "same_multi m m"
  by (simp add: same_multi_def)

lemma same_multi_fields:
  assumes "same_multi m m'"
  shows "mt_topics m' = mt_topics m" "mt_new_consumers m' = mt_new_consumers m"
    "mt_topic_regex m' = mt_topic_regex m" "mt_config m' = mt_config m"
    "disc_messages_received m' = disc_messages_received m"
proof -
  have e: "m' = m\<lparr>mt_consumers := mt_consumers m'\<rparr>" using assms by (simp add: same_multi_def)
  show "mt_topics m' = mt_topics m" by (subst e) simp
  show "mt_new_consumers m' = mt_new_consumers m" by (subst e) simp
  show "mt_topic_regex m' = mt_topic_regex m" by (subst e) simp
  show "mt_config m' = mt_config m" by (subst e) simp
  show "disc_messages_received m' = disc_messages_received m" by (subst e) simp
qed

lemma same_multi_inv:
  assumes "same_multi m m'" and "mt_inv m"
  shows "mt_inv m'"
proof -
  have s: "same_handles (mt_consumers m) (mt_consumers m')"
    using assms(1) by (simp add: same_multi_def)
  show ?thesis
  proof (rule mt_invI)
    show "tc_topic c' = t" if "bt_lookup (mt_consumers m') t = Some c'" for t c'
      using same_handles_lookup [OF s that] mt_invD(2) [OF assms(2)] by (auto dest: same_handle_fields(1))
  qed (use s assms(2) same_multi_fields [OF assms(1)] in
      \<open>simp_all add: same_handles_wf [OF s] same_handles_dom [OF s] mt_invD\<close>)
qed

lemma same_multi_count:
  assumes "same_multi m m'"
  shows "mt_messages_received m' = mt_messages_received m"
  using assms same_handles_total [of "mt_consumers m" "mt_consumers m'"] same_multi_fields(5) [OF assms]
  by (simp add: mt_messages_received_def same_multi_def)

section \<open>Adding and removing\<close>

lemma add_consumers_fields:
  "mt_consumers (add_consumers cs m) = fold (\<lambda>c. bt_insert (tc_topic c) c) cs (mt_consumers m)"
  "mt_topics (add_consumers cs m) = mt_topics m @ map tc_topic cs"
  "mt_new_consumers (add_consumers cs m) = mt_new_consumers m"
  "mt_topic_regex (add_consumers cs m) = mt_topic_regex m"
  "mt_config (add_consumers cs m) = mt_config m"
  "disc_messages_received (add_consumers cs m) = disc_messages_received m"
  unfolding add_consumers_def
  by (induction cs arbitrary: m) (simp_all add: add_consumer_def)

lemma remove_consumer_fields:
  "mt_consumers (remove_consumer t m) = bt_remove t (mt_consumers m)"
  "mt_topics (remove_consumer t m) = mt_topics m"
  "mt_new_consumers (remove_consumer t m) = mt_new_consumers m"
  "mt_topic_regex (remove_consumer t m) = mt_topic_regex m"
  "mt_config (remove_consumer t m) = mt_config m"
  by (auto simp: remove_consumer_def bt_lookup_def bt_remove_absent map_of_eq_None_iff split: option.split)

lemma remove_consumers_fields:
  "mt_consumers (remove_consumers ts m) = fold bt_remove ts (mt_consumers m)"
  "mt_topics (remove_consumers ts m) = filter (\<lambda>t. t \<notin> set ts) (mt_topics m)"
  "mt_new_consumers (remove_consumers ts m) = mt_new_consumers m"
  "mt_topic_regex (remove_consumers ts m) = mt_topic_regex m"
  "mt_config (remove_consumers ts m) = mt_config m"
proof -
  have "mt_consumers (fold remove_consumer us m) = fold bt_remove us (mt_consumers m) \<and>
    mt_topics (fold remove_consumer us m) = mt_topics m \<and>
    mt_new_consumers (fold remove_consumer us m) = mt_new_consumers m \<and>
    mt_topic_regex (fold remove_consumer us m) = mt_topic_regex m \<and>
    mt_config (fold remove_consumer us m) = mt_config m" for us m
    by (induction us arbitrary: m) (simp_all add: remove_consumer_fields)
  then show "mt_consumers (remove_consumers ts m) = fold bt_remove ts (mt_consumers m)"
    "mt_topics (remove_consumers ts m) = filter (\<lambda>t. t \<notin> set ts) (mt_topics m)"
    "mt_new_consumers (remove_consumers ts m) = mt_new_consumers m"
    "mt_topic_regex (remove_consumers ts m) = mt_topic_regex m"
    "mt_config (remove_consumers ts m) = mt_config m"
    by (simp_all add: remove_consumers_def)
qed

text \<open>Removing consumers keeps the count of the messages received.\<close>

lemma remove_consumer_count:
  assumes "bt_wf (mt_consumers m)"
  shows "mt_messages_received (remove_consumer t m) = mt_messages_received m"
  using bt.total_remove [OF assms, of tc_messages_received t]
  by (auto simp: mt_messages_received_def remove_consumer_def ac_simps split: option.split)

lemma remove_consumers_count:
  assumes "bt_wf (mt_consumers m)"
  shows "mt_messages_received (remove_consumers ts m) = mt_messages_received m"
proof -
  have "mt_messages_received (fold remove_consumer us m) = mt_messages_received m"
    if "bt_wf (mt_consumers m)" for us m
    using that
    by (induction us arbitrary: m) (simp_all add: remove_consumer_count remove_consumer_fields bt.wf_remove)
  with assms show ?thesis by (simp add: remove_consumers_def mt_messages_received_def)
qed

lemma remove_consumers_inv:
  assumes "mt_inv m"
  shows "mt_inv (remove_consumers ts m)"
proof (rule mt_invI)
  note wf = mt_invD(1) [OF assms]
  show "bt_wf (mt_consumers (remove_consumers ts m))"
    by (simp add: remove_consumers_fields bt.wf_removes wf)
  show "set (mt_topics (remove_consumers ts m)) = dom (bt_lookup (mt_consumers (remove_consumers ts m)))"
    using mt_invD(3) [OF assms] by (auto simp: remove_consumers_fields bt.dom_removes wf)
  show "dom (bt_lookup (mt_consumers (remove_consumers ts m))) \<subseteq> set ks"
    if "mt_new_consumers (remove_consumers ts m) = Some ks" for ks
    using that mt_invD(4) [OF assms, of ks] by (auto simp: remove_consumers_fields bt.dom_removes wf)
qed (use mt_invD(1,2) [OF assms] in
    \<open>auto simp: remove_consumers_fields bt.lookup_removes split: if_splits\<close>)

lemma add_consumers_inv:
  assumes "mt_inv m" and "mt_new_consumers m = None"
  shows "mt_inv (add_consumers cs m)"
  using assms
proof (induction cs arbitrary: m)
  case Nil
  then show ?case by (simp add: add_consumers_def)
next
  case (Cons c cs)
  have "mt_inv (add_consumer c m)"
    using Cons.prems
    by (auto intro!: mt_invI simp: add_consumer_def bt.wf_insert bt.lookup_insert mt_invD
        split: if_splits dest: mt_invD(2))
  with Cons.IH [of "add_consumer c m"] Cons.prems(2) show ?case
    by (simp add: add_consumers_def add_consumer_def)
qed

section \<open>One round of polling\<close>

text \<open>What a topic can be when it is polled: it has a message, it has nothing, or it has failed.\<close>

definition idle :: "TopicConsumer \<Rightarrow> bool" where
  "idle c \<longleftrightarrow> tc_messages c = [] \<and> \<not> tc_closed c"

definition failed :: "TopicConsumer \<Rightarrow> bool" where
  "failed c \<longleftrightarrow> (case tc_messages c of [] \<Rightarrow> tc_closed c | x # xs \<Rightarrow> \<not> is_ok x)"

definition has_message :: "MultiTopicConsumer \<Rightarrow> string \<Rightarrow> bool" where
  "has_message m t \<longleftrightarrow>
     (case bt_lookup (mt_consumers m) t of
        None \<Rightarrow> False
      | Some c \<Rightarrow> (case tc_messages c of [] \<Rightarrow> False | x # xs \<Rightarrow> is_ok x))"

definition has_failed :: "MultiTopicConsumer \<Rightarrow> string \<Rightarrow> bool" where
  "has_failed m t \<longleftrightarrow> (case bt_lookup (mt_consumers m) t of None \<Rightarrow> False | Some c \<Rightarrow> failed c)"

lemma has_message_iff:
  "has_message m t \<longleftrightarrow> (\<exists>c x xs. bt_lookup (mt_consumers m) t = Some c \<and> tc_messages c = Inr x # xs)"
  by (auto simp: has_message_def is_ok_def split: option.split list.split sum.split)

lemma has_failed_iff: "has_failed m t \<longleftrightarrow> (\<exists>c. bt_lookup (mt_consumers m) t = Some c \<and> failed c)"
  by (auto simp: has_failed_def split: option.split)

definition polled :: "string \<Rightarrow> TopicConsumer \<Rightarrow> MultiTopicConsumer \<Rightarrow> MultiTopicConsumer" where
  "polled t c m = m\<lparr>mt_topics := tl (mt_topics m) @ [t], mt_consumers := bt_insert t c (mt_consumers m)\<rparr>"

lemma polled_fields [simp]:
  "mt_topics (polled t c m) = tl (mt_topics m) @ [t]"
  "mt_new_consumers (polled t c m) = mt_new_consumers m"
  "mt_topic_regex (polled t c m) = mt_topic_regex m"
  "mt_config (polled t c m) = mt_config m"
  "mt_consumers (polled t c m) = bt_insert t c (mt_consumers m)"
  by (simp_all add: polled_def)

lemma poll_topic_cases [consumes 3, case_names Idle Failed Message]:
  assumes "mt_inv m" and "mt_topics m = t # ts" and "bt_lookup (mt_consumers m) t = Some c"
  obtains
    (Idle) "idle c" "poll_topic now m = (None, [], polled t c m)"
  | (Failed) c' where "failed c" "poll_topic now m = (None, [t], polled t c' m)" "tc_topic c' = t"
      "tc_messages_received c' = tc_messages_received c"
  | (Message) i p c' where "tc_messages c = Inr (i, p) # tc_messages c'" "tc_topic c' = t"
      "poll_topic now m = (Some (create_message c i p), [], polled t c' m)"
      "tc_messages_received c' = tc_messages_received c + 1"
proof -
  have t: "tc_topic c = t" using mt_invD(2) [OF assms(1)] assms(3) .
  show thesis
  proof (rule tc_poll_next_cases [of c now])
    assume "tc_messages c = []" "\<not> tc_closed c" "tc_poll_next now c = (Pending, c)"
    then show thesis using assms Idle by (simp add: poll_topic_def idle_def polled_def Let_def)
  next
    assume "tc_messages c = []" "tc_closed c" "tc_poll_next now c = (Ready None, c)"
    then show thesis using assms Failed [of c] t by (simp add: poll_topic_def failed_def polled_def Let_def)
  next
    fix x xs
    assume "tc_messages c = x # xs"
      "tc_poll_next now c = (Ready (Some (yielded c x)),
         c\<lparr>tc_messages := xs,
           tc_last_message_received := (if is_ok x then Some now else tc_last_message_received c),
           tc_messages_received := tc_messages_received c + (if is_ok x then 1 else 0)\<rparr>)"
    then show thesis
      using assms t Failed [of "snd (tc_poll_next now c)"] Message [of _ _ "snd (tc_poll_next now c)"]
      by (cases x) (auto simp: poll_topic_def failed_def polled_def yielded_def Let_def)
  qed
qed

lemma polled_inv:
  assumes "mt_inv m" and "mt_topics m = t # ts" and "tc_topic c = t"
  shows "mt_inv (polled t c m)"
proof (rule mt_invI)
  have dom: "t \<in> dom (bt_lookup (mt_consumers m))" using mt_invD(3) [OF assms(1)] assms(2) by auto
  show "set (mt_topics (polled t c m)) = dom (bt_lookup (mt_consumers (polled t c m)))"
    using mt_invD(3) [OF assms(1)] assms(2) by (auto simp: bt.lookup_insert mt_invD(1) [OF assms(1)])
  show "dom (bt_lookup (mt_consumers (polled t c m))) \<subseteq> set ks"
    if "mt_new_consumers (polled t c m) = Some ks" for ks
    using that mt_invD(4) [OF assms(1), of ks] dom
    by (auto simp: bt.lookup_insert mt_invD(1) [OF assms(1)])
qed (use assms(3) mt_invD(1,2) [OF assms(1)] in
    \<open>auto simp: bt.lookup_insert bt.wf_insert split: if_splits\<close>)

lemma polled_count:
  assumes "mt_inv m" and "bt_lookup (mt_consumers m) t = Some c"
  shows "mt_messages_received (polled t c' m) =
    mt_messages_received m + tc_messages_received c' - tc_messages_received c"
  using bt.total_replace [OF mt_invD(1) [OF assms(1)] assms(2), of tc_messages_received c']
  by (simp add: mt_messages_received_def polled_def algebra_simps)

text \<open>The part of a round before the first message: the topics \<open>xs\<close> go to the back, and those that
  failed are to be removed; nothing else changes.\<close>

definition skipped :: "string list \<Rightarrow> MultiTopicConsumer \<Rightarrow> MultiTopicConsumer \<Rightarrow> bool" where
  "skipped xs m m' \<longleftrightarrow>
     mt_inv m' \<and> mt_messages_received m' = mt_messages_received m \<and>
     mt_new_consumers m' = mt_new_consumers m \<and> mt_topic_regex m' = mt_topic_regex m \<and>
     mt_config m' = mt_config m \<and>
     (\<forall>u. u \<notin> set (filter (has_failed m) xs) \<longrightarrow>
        bt_lookup (mt_consumers m') u = bt_lookup (mt_consumers m) u)"

lemma poll_topic_skip:
  assumes "mt_inv m" and "mt_topics m = t # ts" and "\<not> has_message m t"
  obtains m' where "poll_topic now m = (None, filter (has_failed m) [t], m')" "skipped [t] m m'"
    "mt_topics m' = ts @ [t]"
proof -
  have "t \<in> dom (bt_lookup (mt_consumers m))"
    by (simp add: assms(2) flip: mt_invD(3) [OF assms(1)])
  then obtain c where c: "bt_lookup (mt_consumers m) t = Some c" by blast
  note wf = mt_invD(1) [OF assms(1)]
  show thesis using assms(1,2) c
  proof (cases rule: poll_topic_cases [where now = now])
    case Idle
    then have "\<not> has_failed m t" using c by (auto simp: has_failed_iff failed_def idle_def)
    moreover have "skipped [t] m (polled t c m)"
      using polled_inv [OF assms(1,2), of c] mt_invD(2) [OF assms(1) c] c polled_count [OF assms(1) c, of c]
      by (simp add: skipped_def bt.lookup_insert [OF wf])
    ultimately show thesis using that [of "polled t c m"] Idle assms(2) by simp
  next
    case (Failed c')
    then have "has_failed m t" using c by (auto simp: has_failed_iff)
    moreover have "skipped [t] m (polled t c' m)"
      using polled_inv [OF assms(1,2), of c'] Failed polled_count [OF assms(1) c, of c']
      by (simp add: skipped_def bt.lookup_insert [OF wf] \<open>has_failed m t\<close>)
    ultimately show thesis using that [of "polled t c' m"] Failed assms(2) by simp
  next
    case (Message i p c')
    then show thesis using assms(3) c by (auto simp: has_message_iff)
  qed
qed

lemma poll_topics_skip:
  assumes "mt_inv m" and "mt_topics m = xs @ ys" and "distinct (xs @ ys)"
    and "\<forall>t\<in>set xs. \<not> has_message m t"
  obtains m' where "skipped xs m m'" "mt_topics m' = ys @ xs"
    "poll_topics now (length xs + n) m =
       (case poll_topics now n m' of (r, rm, m'') \<Rightarrow> (r, filter (has_failed m) xs @ rm, m''))"
  using assms
proof (induction xs arbitrary: m ys thesis)
  case Nil
  then show ?case using Nil(1) [of m] by (simp add: skipped_def case_prod_eta)
next
  case (Cons t xs)
  obtain m1 where p: "poll_topic now m = (None, filter (has_failed m) [t], m1)"
    and s1: "skipped [t] m m1" and t1: "mt_topics m1 = (xs @ ys) @ [t]"
    by (rule poll_topic_skip [of m t "xs @ ys" now]) (use Cons.prems in auto)
  have same: "bt_lookup (mt_consumers m1) u = bt_lookup (mt_consumers m) u" if "u \<in> set xs" for u
  proof -
    from that Cons.prems(4) have "u \<notin> set (filter (has_failed m) [t])" by auto
    with s1 show ?thesis unfolding skipped_def by blast
  qed
  obtain m2 where s2: "skipped xs m1 m2" and t2: "mt_topics m2 = (ys @ [t]) @ xs"
    and r: "poll_topics now (length xs + n) m1 =
       (case poll_topics now n m2 of (r, rm, m'') \<Rightarrow> (r, filter (has_failed m1) xs @ rm, m''))"
    by (rule Cons.IH [of m1 "ys @ [t]"])
      (use s1 t1 Cons.prems same in \<open>auto simp: skipped_def has_message_iff\<close>)
  have f: "filter (has_failed m1) xs = filter (has_failed m) xs"
    by (rule filter_cong) (simp_all add: has_failed_iff same)
  have "skipped (t # xs) m m2"
    using s1 s2 f unfolding skipped_def by (auto split: if_splits)
  with t2 r p f show ?case
    by (intro Cons.prems(1) [of m2]) (auto split: prod.splits)
qed

lemma poll_consumers_none:
  assumes "mt_inv m" and "distinct (mt_topics m)" and "\<forall>t\<in>set (mt_topics m). \<not> has_message m t"
  obtains m' where "poll_consumers now m = (None, m')" "mt_inv m'"
    "mt_messages_received m' = mt_messages_received m"
    "mt_topics m' = filter (\<lambda>t. \<not> has_failed m t) (mt_topics m)"
    "mt_new_consumers m' = mt_new_consumers m" "mt_topic_regex m' = mt_topic_regex m"
    "mt_config m' = mt_config m"
    "\<And>u. bt_lookup (mt_consumers m') u = (if has_failed m u then None else bt_lookup (mt_consumers m) u)"
proof -
  obtain m1 where s: "skipped (mt_topics m) m m1" and t: "mt_topics m1 = mt_topics m"
    and p: "poll_topics now (length (mt_topics m) + 0) m = (None, filter (has_failed m) (mt_topics m), m1)"
    by (rule poll_topics_skip [of m "mt_topics m" "[]" now 0]) (use assms in auto)
  let ?rm = "filter (has_failed m) (mt_topics m)"
  have inv: "mt_inv m1" using s by (simp add: skipped_def)
  have failed: "u \<in> set ?rm \<longleftrightarrow> has_failed m u" for u
    using mt_invD(3) [OF assms(1)] by (auto simp: has_failed_iff)
  show thesis
  proof (rule that [of "remove_consumers ?rm m1"])
    show "poll_consumers now m = (None, remove_consumers ?rm m1)"
      using p by (simp add: poll_consumers_def)
    show "mt_inv (remove_consumers ?rm m1)" by (rule remove_consumers_inv [OF inv])
    show "bt_lookup (mt_consumers (remove_consumers ?rm m1)) u =
        (if has_failed m u then None else bt_lookup (mt_consumers m) u)" for u
      using s failed [of u]
      by (simp add: remove_consumers_fields bt.lookup_removes mt_invD(1) [OF inv] skipped_def)
    show "mt_topics (remove_consumers ?rm m1) = filter (\<lambda>t. \<not> has_failed m t) (mt_topics m)"
      by (simp add: remove_consumers_fields t failed del: set_filter)
  qed (use s in \<open>simp_all add: remove_consumers_fields skipped_def remove_consumers_count mt_invD(1) [OF inv]\<close>)
qed

lemma poll_consumers_some:
  assumes "mt_inv m" and "mt_topics m = xs @ t # ys" and "distinct (xs @ t # ys)"
    and "\<forall>t\<in>set xs. \<not> has_message m t" and "has_message m t"
  obtains c i p c' m' where
    "poll_consumers now m = (Some (create_message c i p), m')" "mt_inv m'"
    "bt_lookup (mt_consumers m) t = Some c" "tc_messages c = Inr (i, p) # tc_messages c'"
    "mt_messages_received m' = mt_messages_received m + 1"
    "mt_topics m' = ys @ filter (\<lambda>t. \<not> has_failed m t) xs @ [t]"
    "mt_new_consumers m' = mt_new_consumers m" "mt_topic_regex m' = mt_topic_regex m"
    "mt_config m' = mt_config m"
    "\<And>u. bt_lookup (mt_consumers m') u =
       (if u = t then Some c' else if u \<in> set xs \<and> has_failed m u then None
        else bt_lookup (mt_consumers m) u)"
proof -
  obtain m1 where s: "skipped xs m m1" and t1: "mt_topics m1 = (t # ys) @ xs"
    and p: "poll_topics now (length xs + Suc (length ys)) m =
       (case poll_topics now (Suc (length ys)) m1 of (r, rm, m'') \<Rightarrow> (r, filter (has_failed m) xs @ rm, m''))"
    by (rule poll_topics_skip [of m xs "t # ys" now "Suc (length ys)"]) (use assms in auto)
  let ?rm = "filter (has_failed m) xs"
  have inv: "mt_inv m1" using s by (simp add: skipped_def)
  have t_in: "t \<notin> set xs" "t \<notin> set ?rm" using assms(3) by auto
  then have same: "bt_lookup (mt_consumers m1) t = bt_lookup (mt_consumers m) t"
    using s unfolding skipped_def by blast
  from assms(5) obtain c x zs where c: "bt_lookup (mt_consumers m) t = Some c" "tc_messages c = Inr x # zs"
    by (auto simp: has_message_iff)
  have c1: "bt_lookup (mt_consumers m1) t = Some c" using c same by simp
  have "mt_topics m1 = t # (ys @ xs)" by (simp add: t1)
  with inv show thesis using c1
  proof (cases rule: poll_topic_cases [where now = now])
    case Idle
    with c show thesis by (simp add: idle_def)
  next
    case (Failed c')
    with c show thesis by (simp add: failed_def)
  next
    case (Message i q c')
    let ?m = "polled t c' m1"
    have inv': "mt_inv ?m" using polled_inv [OF inv, of t] t1 Message(2) by simp
    have poll: "poll_consumers now m = (Some (create_message c i q), remove_consumers ?rm ?m)"
      using p Message(3) by (simp add: poll_consumers_def assms(2))
    show thesis
    proof (rule that [OF poll remove_consumers_inv [OF inv'] c(1) Message(1)])
      show "mt_topics (remove_consumers ?rm ?m) = ys @ filter (\<lambda>t. \<not> has_failed m t) xs @ [t]"
      proof -
        have "filter (\<lambda>t. t \<notin> set ?rm) ys = ys"
          using assms(3) by (auto simp: filter_id_conv)
        moreover have "filter (\<lambda>t. t \<notin> set ?rm) xs = filter (\<lambda>t. \<not> has_failed m t) xs"
          by (rule filter_cong) auto
        ultimately show ?thesis
          using t_in by (simp add: remove_consumers_fields t1 del: set_filter)
      qed
      show "bt_lookup (mt_consumers (remove_consumers ?rm ?m)) u =
         (if u = t then Some c' else if u \<in> set xs \<and> has_failed m u then None
          else bt_lookup (mt_consumers m) u)" for u
        using s t_in bt.lookup_insert [OF mt_invD(1) [OF inv], of t c'] bt.lookup_removes [OF mt_invD(1) [OF inv'], of ?rm u]
        by (simp add: remove_consumers_fields skipped_def)
      show "mt_messages_received (remove_consumers ?rm ?m) = mt_messages_received m + 1"
        using s polled_count [OF inv c1, of c'] Message(4)
        by (simp add: remove_consumers_count [OF mt_invD(1) [OF inv']] skipped_def)
    qed (use s in \<open>simp_all add: remove_consumers_fields skipped_def\<close>)
  qed
qed

section \<open>Discovery\<close>

lemma create_consumer_Inr:
  assumes "create_consumer envs config t addr = Some (Inr c)"
  shows "tc_topic c = t" "tc_messages_received c = 0" "tc_config c = config"
    "tc_messages c = []" "\<not> tc_closed c"
proof -
  from assms obtain e where "topic_consumer_new (envs t) t addr config = Some (Inr (c, e))"
    by (auto simp: create_consumer_def bind_res_Inr_iff)
  then show "tc_topic c = t" "tc_messages_received c = 0" "tc_config c = config"
    "tc_messages c = []" "\<not> tc_closed c"
    by (auto elim: topic_consumer_new_Inr)
qed

lemma created_consumers:
  assumes "try_join_all (map (\<lambda>(t, a). create_consumer envs config t a) ps) = Some (Inr cs)"
  shows "map tc_topic cs = map fst ps" "\<forall>c\<in>set cs. tc_messages_received c = 0"
proof -
  have "map tc_topic cs = map fst ps \<and> (\<forall>c\<in>set cs. tc_messages_received c = 0)"
    using try_join_all_Inr [OF assms]
    by (induction ps arbitrary: cs) (auto simp: map_eq_Cons_conv dest: create_consumer_Inr)
  then show "map tc_topic cs = map fst ps" "\<forall>c\<in>set cs. tc_messages_received c = 0" by simp_all
qed

text \<open>The topics a discovery finds, with their addresses.\<close>

definition discovered :: "discovery_env \<Rightarrow> (string \<Rightarrow> bool) \<Rightarrow> (string \<times> BrokerAddress) list" where
  "discovered D regex =
     (case de_topics D of
        Some (Inr topics) \<Rightarrow>
          (case try_join_all (map (de_lookup D) (filter regex topics)) of
             Some (Inr parts) \<Rightarrow> concat parts
           | _ \<Rightarrow> [])
      | _ \<Rightarrow> [])"

definition found_once :: "discovery_env \<Rightarrow> (string \<Rightarrow> bool) option \<Rightarrow> bool" where
  "found_once D regex \<longleftrightarrow> (\<forall>p. regex = Some p \<longrightarrow> distinct (map fst (discovered D p)))"

lemma discover_topics_Inr:
  assumes "discover_topics D regex existing config = Some (Inr cs)"
  shows "map tc_topic cs = map fst (filter (\<lambda>(t, _). t \<notin> set existing) (discovered D regex))"
    and "\<forall>c\<in>set cs. tc_messages_received c = 0"
  using assms
  by (auto simp: discover_topics_def discovered_def split: option.splits sum.splits dest: created_consumers)

lemma discover_topics_new:
  assumes "discover_topics D regex existing config = Some (Inr cs)"
  shows "tc_topic ` set cs \<inter> set existing = {}"
    and "distinct (map fst (discovered D regex)) \<Longrightarrow> distinct (map tc_topic cs)"
proof -
  note names = discover_topics_Inr(1) [OF assms]
  have "set (map tc_topic cs) \<inter> set existing = {}" by (auto simp: names)
  then show "tc_topic ` set cs \<inter> set existing = {}" by simp
  show "distinct (map tc_topic cs)" if "distinct (map fst (discovered D regex))"
    unfolding names using that by (rule distinct_map_filter)
qed

lemma poll_discovery_cases [case_names Same Failed Added]:
  obtains (Same) "poll_discovery D m = m"
  | (Failed) "poll_discovery D m = m\<lparr>mt_new_consumers := None\<rparr>"
  | (Added) existing regex cs where "mt_new_consumers m = Some existing" "mt_topic_regex m = Some regex"
      "discover_topics D regex existing (mt_config m) = Some (Inr cs)"
      "poll_discovery D m = add_consumers cs (m\<lparr>mt_new_consumers := None\<rparr>)"
proof (cases "mt_new_consumers m")
  case None
  then show thesis using Same by (simp add: poll_discovery_def)
next
  case (Some existing)
  show thesis
  proof (cases "mt_topic_regex m")
    case None
    then show thesis using Some Same by (simp add: poll_discovery_def)
  next
    case regex: (Some regex)
    consider "discover_topics D regex existing (mt_config m) = None"
      | err where "discover_topics D regex existing (mt_config m) = Some (Inl err)"
      | cs where "discover_topics D regex existing (mt_config m) = Some (Inr cs)"
      by (metis not_Some_eq sum.exhaust)
    then show thesis
    proof cases
      case 1
      then show thesis using Some regex Same by (simp add: poll_discovery_def)
    next
      case 2
      then show thesis using Some regex Failed by (simp add: poll_discovery_def)
    next
      case 3
      then show thesis using Some regex Added by (simp add: poll_discovery_def)
    qed
  qed
qed

lemma forget_discovery_inv: "mt_inv m \<Longrightarrow> mt_inv (m\<lparr>mt_new_consumers := None\<rparr>)"
  by (simp add: mt_inv_def)

lemma poll_discovery_inv: "mt_inv m \<Longrightarrow> mt_inv (poll_discovery D m)"
  by (rule poll_discovery_cases [of D m]) (simp_all add: forget_discovery_inv add_consumers_inv)

lemma poll_discovery_regex: "mt_topic_regex (poll_discovery D m) = mt_topic_regex m"
  by (rule poll_discovery_cases [of D m]) (simp_all add: add_consumers_fields)

lemma poll_discovery_count:
  assumes "mt_inv m"
  shows "mt_messages_received (poll_discovery D m) = mt_messages_received m"
proof (rule poll_discovery_cases [of D m])
  fix existing regex cs
  assume ex: "mt_new_consumers m = Some existing"
    and d: "discover_topics D regex existing (mt_config m) = Some (Inr cs)"
    and p: "poll_discovery D m = add_consumers cs (m\<lparr>mt_new_consumers := None\<rparr>)"
  have "tc_topic c \<notin> dom (bt_lookup (mt_consumers m))" if "c \<in> set cs" for c
    using that discover_topics_new(1) [OF d] mt_invD(4) [OF assms ex] by blast
  then have "bt_total tc_messages_received (fold (\<lambda>c. bt_insert (tc_topic c) c) cs (mt_consumers m)) =
      bt_total tc_messages_received (mt_consumers m)"
    using discover_topics_Inr(2) [OF d] by (intro bt.total_inserts_zero mt_invD(1) [OF assms]) blast
  then show ?thesis by (simp add: p mt_messages_received_def add_consumers_fields)
qed (simp_all add: mt_messages_received_def)

lemma poll_discovery_distinct:
  assumes "mt_inv m" and "distinct (mt_topics m)" and "found_once D (mt_topic_regex m)"
  shows "distinct (mt_topics (poll_discovery D m))"
proof (rule poll_discovery_cases [of D m])
  fix existing regex cs
  assume ex: "mt_new_consumers m = Some existing" "mt_topic_regex m = Some regex"
    and d: "discover_topics D regex existing (mt_config m) = Some (Inr cs)"
    and p: "poll_discovery D m = add_consumers cs (m\<lparr>mt_new_consumers := None\<rparr>)"
  have "set (mt_topics m) \<inter> tc_topic ` set cs = {}"
    using discover_topics_new(1) [OF d] mt_invD(3,4) [OF assms(1)] ex(1) by blast
  with discover_topics_new(2) [OF d] assms(2,3) ex(2) show ?thesis
    by (simp add: p add_consumers_fields found_once_def)
qed (use assms(2) in simp_all)

lemma update_topics_facts:
  assumes "mt_inv m"
  shows "mt_inv (update_topics m)" "mt_messages_received (update_topics m) = mt_messages_received m"
    "mt_topics (update_topics m) = mt_topics m" "mt_topic_regex (update_topics m) = mt_topic_regex m"
proof -
  show "mt_inv (update_topics m)"
    using assms bt.set_keys [OF mt_invD(1) [OF assms]]
    by (auto simp: update_topics_def mt_inv_def split: option.split)
qed (simp_all add: update_topics_def mt_messages_received_def split: option.split)

text \<open>The state in which a poll looks at the topics.\<close>

definition refreshed ::
  "discovery_env list \<Rightarrow> discovery_env \<Rightarrow> MultiTopicConsumer \<Rightarrow> MultiTopicConsumer" where
  "refreshed refreshes D m =
     poll_discovery D (fold (\<lambda>R m. update_topics (poll_discovery R m)) refreshes m)"

lemma refreshed_facts:
  assumes "mt_inv m"
  shows "mt_inv (refreshed Rs D m)" "mt_messages_received (refreshed Rs D m) = mt_messages_received m"
    "mt_topic_regex (refreshed Rs D m) = mt_topic_regex m"
    "distinct (mt_topics m) \<Longrightarrow> \<forall>R\<in>set (Rs @ [D]). found_once R (mt_topic_regex m) \<Longrightarrow>
       distinct (mt_topics (refreshed Rs D m))"
proof -
  let ?f = "\<lambda>R m. update_topics (poll_discovery R m)"
  have *: "mt_inv (fold ?f Rs m) \<and> mt_messages_received (fold ?f Rs m) = mt_messages_received m \<and>
      mt_topic_regex (fold ?f Rs m) = mt_topic_regex m \<and>
      (distinct (mt_topics m) \<longrightarrow> (\<forall>R\<in>set Rs. found_once R (mt_topic_regex m)) \<longrightarrow>
         distinct (mt_topics (fold ?f Rs m)))"
    using assms
    by (induction Rs arbitrary: m)
      (simp_all add: poll_discovery_inv poll_discovery_count poll_discovery_regex poll_discovery_distinct
        update_topics_facts)
  then show "mt_inv (refreshed Rs D m)" "mt_messages_received (refreshed Rs D m) = mt_messages_received m"
    "mt_topic_regex (refreshed Rs D m) = mt_topic_regex m"
    by (simp_all add: refreshed_def poll_discovery_inv poll_discovery_count poll_discovery_regex)
  show "distinct (mt_topics (refreshed Rs D m))"
    if "distinct (mt_topics m)" "\<forall>R\<in>set (Rs @ [D]). found_once R (mt_topic_regex m)"
    using * that by (simp add: refreshed_def poll_discovery_distinct)
qed

section \<open>Any sequence of operations\<close>

lemma bt_lookup_inserts:
  assumes "bt_wf m" and "\<And>t c. bt_lookup m t = Some c \<Longrightarrow> tc_topic c = t"
    and "bt_lookup (fold (\<lambda>c. bt_insert (tc_topic c) c) cs m) t = Some c"
  shows "tc_topic c = t"
  using assms
proof (induction cs arbitrary: m)
  case Nil
  then show ?case by simp
next
  case (Cons d cs)
  have "bt_wf (bt_insert (tc_topic d) d m)" by (rule bt.wf_insert [OF Cons.prems(1)])
  then show ?case
    by (rule Cons.IH) (use Cons.prems in \<open>auto simp: bt.lookup_insert split: if_splits\<close>)
qed

lemma bt_lookup_collect: "bt_lookup (bt_collect tc_topic cs) t = Some c \<Longrightarrow> tc_topic c = t"
  unfolding bt_collect_def by (rule bt_lookup_inserts [of "[]"]) (simp_all add: bt_lookup_def)

lemma multi_new_inv: "mt_inv (multi_new ns regex config cs)" "distinct (mt_topics (multi_new ns regex config cs))"
  using bt_collect_props [of tc_topic cs] bt.set_keys [of "bt_collect tc_topic cs"]
  by (auto simp: multi_new_def Let_def mt_inv_def bt_wf_def bt_keys_def dest: bt_lookup_collect)

text \<open>Everything that can happen to a consumer of many topics: its operations, and what the engines put
  into its channels.\<close>

datatype mt_event =
    EvPoll "discovery_env list" discovery_env nat
  | EvAck ConsMessage
  | EvCumulativeAck ConsMessage
  | EvNack ConsMessage
  | EvStats "base_command \<Rightarrow> string" "string \<Rightarrow> topic_answers"
  | EvLastId "base_command \<Rightarrow> string" "string \<Rightarrow> topic_answers"
  | EvUnsubscribe "base_command \<Rightarrow> string" "string \<Rightarrow> topic_answers"
  | EvCheck "(connection_error, Connection) res" "unit awaited" "string \<Rightarrow> topic_answers"
  | EvSeek "base_command \<Rightarrow> string" seek_env "string list option" "message_id_data option" "u64 option"
  | EvEngines "string \<Rightarrow> channel_item list" "string \<Rightarrow> bool"

definition engines_forward ::
  "(string \<Rightarrow> channel_item list) \<Rightarrow> (string \<Rightarrow> bool) \<Rightarrow> MultiTopicConsumer \<Rightarrow> MultiTopicConsumer" where
  "engines_forward arrived gone m =
     m\<lparr>mt_consumers := map (\<lambda>(t, c).
        (t, c\<lparr>tc_messages := tc_messages c @ arrived t, tc_closed := (tc_closed c \<or> gone t)\<rparr>))
        (mt_consumers m)\<rparr>"

fun mt_step :: "mt_event \<Rightarrow> MultiTopicConsumer \<Rightarrow> ConsMessage list \<times> MultiTopicConsumer" where
  "mt_step (EvPoll Rs D now) m =
     (case mt_poll_next Rs D now m of
        (Ready (Some (Inr msg)), m) \<Rightarrow> ([msg], m)
      | (_, m) \<Rightarrow> ([], m))"
| "mt_step (EvAck msg) m = ([], snd (mt_ack msg m))"
| "mt_step (EvCumulativeAck msg) m = ([], snd (mt_cumulative_ack msg m))"
| "mt_step (EvNack msg) m = ([], snd (mt_nack msg m))"
| "mt_step (EvStats dbg A) m = ([], snd (snd (mt_get_stats dbg A m)))"
| "mt_step (EvLastId dbg A) m = ([], snd (snd (mt_get_last_message_id dbg A m)))"
| "mt_step (EvUnsubscribe dbg A) m = ([], snd (snd (mt_unsubscribe dbg A m)))"
| "mt_step (EvCheck base reply A) m = ([], snd (snd (mt_check_connections base reply A m)))"
| "mt_step (EvSeek dbg S ids i ts) m = ([], snd (seek_multi dbg S ids i ts m))"
| "mt_step (EvEngines arrived gone) m = ([], engines_forward arrived gone m)"

fun mt_run :: "mt_event list \<Rightarrow> MultiTopicConsumer \<Rightarrow> ConsMessage list \<times> MultiTopicConsumer" where
  "mt_run [] m = ([], m)"
| "mt_run (e # es) m =
     (case mt_step e m of (out, m) \<Rightarrow> (case mt_run es m of (outs, m) \<Rightarrow> (out @ outs, m)))"

lemma poll_topic_keeps:
  assumes "mt_inv m" and "mt_topics m \<noteq> []" and "poll_topic now m = (r, rm, m')"
  shows "mt_inv m' \<and> mt_topics m' = tl (mt_topics m) @ [hd (mt_topics m)] \<and>
    mt_topic_regex m' = mt_topic_regex m \<and>
    mt_messages_received m' = mt_messages_received m + of_nat (length (case r of None \<Rightarrow> [] | Some x \<Rightarrow> [x]))"
proof -
  obtain t ts where t: "mt_topics m = t # ts" using assms(2) by (cases "mt_topics m") auto
  have "t \<in> dom (bt_lookup (mt_consumers m))" by (simp add: t flip: mt_invD(3) [OF assms(1)])
  then obtain c where c: "bt_lookup (mt_consumers m) t = Some c" by blast
  have inv: "mt_inv (polled t c' m)" if "tc_topic c' = t" for c'
    by (rule polled_inv [OF assms(1) t that])
  show ?thesis using assms(1) t c
    by (cases rule: poll_topic_cases [where now = now])
      (use assms(3) t inv polled_count [OF assms(1) c] mt_invD(2) [OF assms(1) c] in auto)
qed

lemma poll_topics_keeps:
  assumes "mt_inv m" and "n \<le> length (mt_topics m)" and "poll_topics now n m = (r, rm, m')"
  shows "mt_inv m' \<and> distinct (mt_topics m') = distinct (mt_topics m) \<and> mt_topic_regex m' = mt_topic_regex m \<and>
    mt_messages_received m' = mt_messages_received m + of_nat (length (case r of None \<Rightarrow> [] | Some x \<Rightarrow> [x]))"
  using assms
proof (induction n arbitrary: m r rm m')
  case 0
  then show ?case by simp
next
  case (Suc n)
  then have ne: "mt_topics m \<noteq> []" by auto
  obtain r1 rm1 m1 where p: "poll_topic now m = (r1, rm1, m1)" by (metis prod_cases3)
  note k = poll_topic_keeps [OF Suc.prems(1) ne p]
  have ms: "distinct (mt_topics m1) = distinct (mt_topics m)" using k ne by (cases "mt_topics m") auto
  show ?case
  proof (cases r1)
    case None
    obtain r2 rm2 m2 where q: "poll_topics now n m1 = (r2, rm2, m2)" by (metis prod_cases3)
    have "n \<le> length (mt_topics m1)" using k ne Suc.prems(2) by (cases "mt_topics m") auto
    from Suc.IH [OF _ this q] k ms None p q Suc.prems(3) show ?thesis by simp
  next
    case (Some x)
    with k ms p Suc.prems(3) show ?thesis by auto
  qed
qed

lemma poll_consumers_keeps:
  assumes "mt_inv m" and "poll_consumers now m = (r, m')"
  shows "mt_inv m' \<and> (distinct (mt_topics m) \<longrightarrow> distinct (mt_topics m')) \<and>
    mt_topic_regex m' = mt_topic_regex m \<and>
    mt_messages_received m' = mt_messages_received m + of_nat (length (case r of None \<Rightarrow> [] | Some x \<Rightarrow> [x]))"
proof -
  obtain q rm m1 where p: "poll_topics now (length (mt_topics m)) m = (q, rm, m1)" by (metis prod_cases3)
  note k = poll_topics_keeps [OF assms(1) order_refl p]
  with p assms(2) show ?thesis
    by (auto simp: poll_consumers_def remove_consumers_inv remove_consumers_fields remove_consumers_count
        mt_invD(1))
qed

lemma same_handles_insert:
  "bt_lookup cs t = Some c \<Longrightarrow> bt_wf cs \<Longrightarrow> same_handle c c' \<Longrightarrow> same_handles cs (bt_insert t c' cs)"
proof (induction t c' cs rule: bt_insert.induct)
  case (1 k v)
  then show ?case by (simp add: bt_lookup_def)
next
  case (2 k v k' v' m)
  have "\<not> k < k'"
  proof
    assume less: "k < k'"
    with "2.prems"(1) have "map_of m k = Some c" by (simp add: bt_lookup_def split: if_splits)
    then have "k \<in> fst ` set m" by (auto dest: map_of_SomeD intro: rev_image_eqI)
    with less "2.prems"(2) show False by (auto simp: bt_wf_def)
  qed
  with 2 show ?case by (auto simp: bt_wf_def bt_lookup_def)
qed

lemma same_multi_on_topic:
  assumes "mt_inv m" and "\<And>c r c'. f c = (r, c') \<Longrightarrow> same_handle c c'"
  shows "same_multi m (snd (on_topic f t m))"
proof (cases "bt_lookup (mt_consumers m) t")
  case None
  then show ?thesis by (simp add: on_topic_def)
next
  case (Some c)
  obtain r c' where f: "f c = (r, c')" by fastforce
  have "same_handles (mt_consumers m) (bt_insert t c' (mt_consumers m))"
    by (rule same_handles_insert [OF Some mt_invD(1) [OF assms(1)] assms(2) [OF f]])
  with Some f show ?thesis by (simp add: on_topic_def same_multiI)
qed

lemma same_multi_engines: "same_multi m (engines_forward arrived gone m)"
  unfolding engines_forward_def
  by (rule same_multiI) (auto simp: same_handles_def list.rel_map same_handle_def intro!: list.rel_refl_strong)

lemma same_multi_joined:
  assumes "\<And>t c r conn c'. f t c = (r, conn, c') \<Longrightarrow> same_handle c c'"
  shows "same_multi m (snd (snd (case join_topics A f (mt_consumers m) of
      (rs, conns, cs) \<Rightarrow> (g rs, conns, m\<lparr>mt_consumers := cs\<rparr>))))"
    and "same_multi m (snd (snd (case each_topic f (mt_consumers m) of
      (r, conns, cs) \<Rightarrow> (h r, k conns, m\<lparr>mt_consumers := cs\<rparr>))))"
    and "same_multi m (snd (snd (case all_topics P f (mt_consumers m) of
      (rs, conns, cs) \<Rightarrow> (l rs, conns, m\<lparr>mt_consumers := cs\<rparr>))))"
proof -
  note same = join_topics_same [of f "mt_consumers m" A] each_topic_same [of f "mt_consumers m"]
    all_topics_same [of f "mt_consumers m" P]
  show "same_multi m (snd (snd (case join_topics A f (mt_consumers m) of
      (rs, conns, cs) \<Rightarrow> (g rs, conns, m\<lparr>mt_consumers := cs\<rparr>))))"
    using same(1) assms by (simp add: case_prod_beta same_multiI)
  show "same_multi m (snd (snd (case each_topic f (mt_consumers m) of
      (r, conns, cs) \<Rightarrow> (h r, k conns, m\<lparr>mt_consumers := cs\<rparr>))))"
    using same(2) assms by (simp add: case_prod_beta same_multiI)
  show "same_multi m (snd (snd (case all_topics P f (mt_consumers m) of
      (rs, conns, cs) \<Rightarrow> (l rs, conns, m\<lparr>mt_consumers := cs\<rparr>))))"
    using same(3) assms by (simp add: case_prod_beta same_multiI)
qed

lemma same_multi_seek: "same_multi m (snd (snd (mt_seek dbg ids i ts A m)))"
  unfolding mt_seek_def
  by (cases ids) (auto intro!: same_multi_joined(3) dest: same_handle_ops simp del: split_paired_All)

lemma same_multi_check: "same_multi m (snd (snd (mt_check_connections base reply A m)))"
proof (cases base)
  case (Inl err)
  then show ?thesis by (simp add: mt_check_connections_def)
next
  case (Inr conn)
  obtain r s where p: "send_ping reply (conn_sender conn) = (r, s)" by fastforce
  show ?thesis
  proof (cases r)
    case (Inl err)
    then show ?thesis using Inr p by (simp add: mt_check_connections_def)
  next
    case (Inr u)
    then show ?thesis
      using \<open>base = Inr conn\<close> p
      by (simp add: mt_check_connections_def, intro same_multi_joined(2)) (rule same_handle_ops)
  qed
qed

lemma same_multi_ops:
  assumes "mt_inv m"
  shows "same_multi m (snd (mt_ack msg m))" "same_multi m (snd (mt_cumulative_ack msg m))"
    "same_multi m (snd (mt_nack msg m))" "same_multi m (snd (snd (mt_get_stats dbg A m)))"
    "same_multi m (snd (snd (mt_get_last_message_id dbg A m)))"
    "same_multi m (snd (snd (mt_unsubscribe dbg A m)))"
proof -
  show "same_multi m (snd (mt_ack msg m))" unfolding mt_ack_def tc_ack_def
    using assms same_handle_tell_engine by (rule same_multi_on_topic)
  show "same_multi m (snd (mt_cumulative_ack msg m))" unfolding mt_cumulative_ack_def tc_cumulative_ack_def
    using assms same_handle_tell_engine by (rule same_multi_on_topic)
  show "same_multi m (snd (mt_nack msg m))" unfolding mt_nack_def tc_nack_def
    using assms same_handle_tell_engine by (rule same_multi_on_topic)
  show "same_multi m (snd (snd (mt_get_stats dbg A m)))" unfolding mt_get_stats_def
    using same_handle_ops(1) by (rule same_multi_joined(1))
  show "same_multi m (snd (snd (mt_get_last_message_id dbg A m)))" unfolding mt_get_last_message_id_def
    using same_handle_ops(5) by (rule same_multi_joined(1))
  show "same_multi m (snd (snd (mt_unsubscribe dbg A m)))" unfolding mt_unsubscribe_def
    using same_handle_ops(4) by (rule same_multi_joined(2))
qed

lemma mt_poll_next_refreshed:
  "mt_poll_next Rs D now m =
     (case poll_consumers now (refreshed Rs D m) of
        (Some msg, m) \<Rightarrow> (Ready (Some (Inr msg)), m)
      | (None, m) \<Rightarrow> (Pending, m))"
  by (simp add: mt_poll_next_def refreshed_def)

lemma mt_step_poll:
  "mt_step (EvPoll Rs D now) m =
     (case poll_consumers now (refreshed Rs D m) of (r, m) \<Rightarrow> (case r of None \<Rightarrow> [] | Some x \<Rightarrow> [x], m))"
  by (simp add: mt_poll_next_refreshed split: prod.split option.split)

text \<open>A discovery that lists no topic twice, for the pattern of the consumer.\<close>

fun event_ok :: "(string \<Rightarrow> bool) option \<Rightarrow> mt_event \<Rightarrow> bool" where
  "event_ok regex (EvPoll Rs D now) \<longleftrightarrow> (\<forall>R\<in>set (Rs @ [D]). found_once R regex)"
| "event_ok regex _ \<longleftrightarrow> True"

fun is_seek :: "mt_event \<Rightarrow> bool" where
  "is_seek (EvSeek dbg S ids i ts) \<longleftrightarrow> True"
| "is_seek _ \<longleftrightarrow> False"

lemma seek_multi_cases:
  obtains "same_multi m (snd (seek_multi dbg S ids i ts m))"
  | cs m' where "same_multi m m'" "seek_multi dbg S ids i ts m = (Some (Inr ()), rebuilt cs m')"
proof -
  obtain r conns m1 where s: "mt_seek dbg ids i ts (se_answers S) m = (r, conns, m1)" by (metis prod_cases3)
  have same: "same_multi m m1"
    using same_multi_seek [of m dbg ids i ts "se_answers S"] by (simp add: s)
  have "snd (seek_multi dbg S ids i ts m) = m1 \<or>
      (\<exists>cs. seek_multi dbg S ids i ts m = (Some (Inr ()), rebuilt cs m1))"
    by (cases r) (auto simp: seek_multi_def s split: option.split sum.split)
  with that same show thesis by metis
qed

lemma mt_step_keeps:
  assumes "mt_inv m" and "mt_step e m = (out, m')"
  shows "mt_inv m'" "mt_topic_regex m' = mt_topic_regex m"
    "distinct (mt_topics m) \<Longrightarrow> event_ok (mt_topic_regex m) e \<Longrightarrow> distinct (mt_topics m')"
    "\<not> is_seek e \<Longrightarrow> mt_messages_received m' = mt_messages_received m + of_nat (length out)"
proof -
  have facts: "mt_inv m' \<and> mt_topic_regex m' = mt_topic_regex m \<and>
    (distinct (mt_topics m) \<longrightarrow> event_ok (mt_topic_regex m) e \<longrightarrow> distinct (mt_topics m')) \<and>
    (\<not> is_seek e \<longrightarrow> mt_messages_received m' = mt_messages_received m + of_nat (length out))"
  proof (cases "same_multi m m' \<and> out = []")
    case True
    then show ?thesis
      using same_multi_inv [OF _ assms(1)] same_multi_count same_multi_fields by auto
  next
    case False
    with assms same_multi_ops [OF assms(1)] same_multi_check same_multi_engines
    consider Rs D now where "e = EvPoll Rs D now" | dbg S ids i ts where "e = EvSeek dbg S ids i ts"
      by (cases e) auto
    then show ?thesis
    proof cases
      case 1
      obtain r m1 where p: "poll_consumers now (refreshed Rs D m) = (r, m1)" by fastforce
      with 1 assms(2) have "m' = m1" "out = (case r of None \<Rightarrow> [] | Some x \<Rightarrow> [x])"
        by (simp_all add: mt_step_poll del: mt_step.simps)
      with poll_consumers_keeps [OF refreshed_facts(1) [OF assms(1)] p] refreshed_facts [OF assms(1), of Rs D] 1
      show ?thesis by simp
    next
      case 2
      with False assms(2) obtain cs m1 where "same_multi m m1" "m' = rebuilt cs m1"
        by (metis mt_step.simps(9) prod.inject seek_multi_cases snd_conv)
      with multi_new_inv 2 show ?thesis
        by (auto simp: rebuilt_def multi_new_def Let_def same_multi_fields)
    qed
  qed
  then show "mt_inv m'" "mt_topic_regex m' = mt_topic_regex m"
    "distinct (mt_topics m) \<Longrightarrow> event_ok (mt_topic_regex m) e \<Longrightarrow> distinct (mt_topics m')"
    "\<not> is_seek e \<Longrightarrow> mt_messages_received m' = mt_messages_received m + of_nat (length out)"
    by blast+
qed

lemma mt_run_keeps:
  assumes "mt_inv m"
  shows "mt_inv (snd (mt_run es m)) \<and>
    (distinct (mt_topics m) \<longrightarrow> list_all (event_ok (mt_topic_regex m)) es \<longrightarrow>
       distinct (mt_topics (snd (mt_run es m)))) \<and>
    (list_all (\<lambda>e. \<not> is_seek e) es \<longrightarrow> mt_messages_received (snd (mt_run es m)) =
       mt_messages_received m + of_nat (length (fst (mt_run es m))))"
  using assms
proof (induction es arbitrary: m)
  case Nil
  then show ?case by simp
next
  case (Cons e es)
  obtain out m1 where s: "mt_step e m = (out, m1)" by fastforce
  obtain outs m2 where r: "mt_run es m1 = (outs, m2)" by fastforce
  note k = mt_step_keeps [OF Cons.prems s]
  from Cons.IH [OF k(1)] k(2-) show ?case by (auto simp: s r)
qed

section \<open>Fairness\<close>

text \<open>How many topics are polled before \<open>t\<close>.\<close>

definition position :: "string \<Rightarrow> string list \<Rightarrow> nat" where
  "position t ts = length (takeWhile (\<lambda>u. u \<noteq> t) ts)"

lemma position_simps:
  "position t (xs @ t # ys) = length (takeWhile (\<lambda>u. u \<noteq> t) xs)"
  "t \<notin> set xs \<Longrightarrow> position t (xs @ ys) = length xs + position t ys"
  "t \<in> set xs \<Longrightarrow> position t (xs @ ys) = position t xs"
  by (induction xs) (auto simp: position_def)

lemma position_filter: "P t \<Longrightarrow> position t (filter P xs) \<le> position t xs"
  by (induction xs) (auto simp: position_def)

lemma poll_discovery_old:
  assumes "mt_inv m" and "bt_lookup (mt_consumers m) t = Some c"
  shows "bt_lookup (mt_consumers (poll_discovery D m)) t = Some c \<and>
    position t (mt_topics (poll_discovery D m)) = position t (mt_topics m)"
proof (rule poll_discovery_cases [of D m])
  fix existing regex cs
  assume ex: "mt_new_consumers m = Some existing"
    and d: "discover_topics D regex existing (mt_config m) = Some (Inr cs)"
    and p: "poll_discovery D m = add_consumers cs (m\<lparr>mt_new_consumers := None\<rparr>)"
  have t: "t \<in> set (mt_topics m)" using assms mt_invD(3) [OF assms(1)] by blast
  have "t \<notin> tc_topic ` set cs"
    using discover_topics_new(1) [OF d] mt_invD(4) [OF assms(1) ex] assms(2) by blast
  then have "bt_lookup (fold (\<lambda>c. bt_insert (tc_topic c) c) cs (mt_consumers m)) t = Some c"
    using assms(2) by (simp add: bt.lookup_inserts_other mt_invD(1) [OF assms(1)])
  then show ?thesis using t by (simp add: p add_consumers_fields position_simps)
qed (use assms in simp_all)

lemma refreshed_old:
  assumes "mt_inv m" and "bt_lookup (mt_consumers m) t = Some c"
  shows "bt_lookup (mt_consumers (refreshed Rs D m)) t = Some c \<and>
    position t (mt_topics (refreshed Rs D m)) = position t (mt_topics m)"
proof -
  let ?f = "\<lambda>R m. update_topics (poll_discovery R m)"
  have "mt_inv (fold ?f Rs m) \<and> bt_lookup (mt_consumers (fold ?f Rs m)) t = Some c \<and>
      position t (mt_topics (fold ?f Rs m)) = position t (mt_topics m)"
    using assms
  proof (induction Rs arbitrary: m)
    case Nil
    then show ?case by simp
  next
    case (Cons R Rs)
    have "mt_consumers (update_topics m) = mt_consumers m" for m
      by (simp add: update_topics_def split: option.split)
    with Cons.IH [of "?f R m"] Cons.prems poll_discovery_old [OF Cons.prems, of R]
      poll_discovery_inv [OF Cons.prems(1), of R] update_topics_facts [of "poll_discovery R m"]
    show ?case by simp
  qed
  with poll_discovery_old [of "fold ?f Rs m" t c D] show ?thesis by (simp add: refreshed_def)
qed

text \<open>A topic with a message is served by a poll, or comes closer to the front.\<close>

lemma poll_serves_or_advances:
  assumes "mt_inv m" and "distinct (mt_topics m)"
    and c: "bt_lookup (mt_consumers m) t = Some c" "tc_messages c = Inr (i, p) # xs"
    and poll: "poll_consumers now m = (r, m')"
  shows "r = Some (create_message c i p) \<or>
    bt_lookup (mt_consumers m') t = Some c \<and> position t (mt_topics m') < position t (mt_topics m)"
proof -
  have msg: "has_message m t" using c by (auto simp: has_message_iff)
  have t: "t \<in> set (mt_topics m)" using c(1) mt_invD(3) [OF assms(1)] by blast
  obtain ys u zs where split: "mt_topics m = ys @ u # zs" "has_message m u" "\<forall>v\<in>set ys. \<not> has_message m v"
    using split_list_first_prop [of "mt_topics m" "has_message m"] t msg by blast
  have d: "distinct (ys @ u # zs)" using assms(2) split(1) by simp
  obtain cu j q cu' m1 where s: "poll_consumers now m = (Some (create_message cu j q), m1)"
      "bt_lookup (mt_consumers m) u = Some cu" "tc_messages cu = Inr (j, q) # tc_messages cu'"
      "mt_topics m1 = zs @ filter (\<lambda>t. \<not> has_failed m t) ys @ [u]"
      "\<And>v. bt_lookup (mt_consumers m1) v = (if v = u then Some cu'
        else if v \<in> set ys \<and> has_failed m v then None else bt_lookup (mt_consumers m) v)"
    by (rule poll_consumers_some [OF assms(1) split(1) d split(3,2), of now]) blast
  have m': "m' = m1" "r = Some (create_message cu j q)" using poll s(1) by simp_all
  show ?thesis
  proof (cases "t = u")
    case True
    then show ?thesis using s(2,3) c m' by simp
  next
    case False
    have "t \<notin> set ys" using split(3) msg by blast
    with False t split(1) have "t \<in> set zs" by auto
    have "position t (mt_topics m') = position t zs"
      using \<open>t \<in> set zs\<close> by (simp add: m' s(4) position_simps(3))
    moreover have "position t (mt_topics m) = Suc (length ys + position t zs)"
      using \<open>t \<notin> set ys\<close> False position_simps(2) [of t "ys @ [u]" zs] by (simp add: split(1))
    ultimately show ?thesis using \<open>t \<notin> set ys\<close> False c(1) m' s(5) by simp
  qed
qed

text \<open>One turn of the program: the engines put what has arrived into their channels, then the consumer is
  polled.\<close>

type_synonym poll_turn =
  "(string \<Rightarrow> channel_item list) \<times> (string \<Rightarrow> bool) \<times> discovery_env list \<times> discovery_env \<times> nat"

definition turn_events :: "poll_turn \<Rightarrow> mt_event list" where
  "turn_events T = (case T of (arrived, gone, Rs, D, now) \<Rightarrow> [EvEngines arrived gone, EvPoll Rs D now])"

definition turn_ok :: "(string \<Rightarrow> bool) option \<Rightarrow> poll_turn \<Rightarrow> bool" where
  "turn_ok regex T \<longleftrightarrow> list_all (event_ok regex) (turn_events T)"

lemma engines_forward_lookup:
  "bt_lookup (mt_consumers m) t = Some c \<Longrightarrow>
     bt_lookup (mt_consumers (engines_forward arrived gone m)) t =
       Some (c\<lparr>tc_messages := tc_messages c @ arrived t, tc_closed := (tc_closed c \<or> gone t)\<rparr>)"
proof -
  have "map_of cs t = Some c \<Longrightarrow> map_of (map (\<lambda>(t, c). (t, f t c)) cs) t = Some (f t c)" for cs f
    by (induction cs) auto
  then show "bt_lookup (mt_consumers m) t = Some c \<Longrightarrow> ?thesis"
    unfolding engines_forward_def bt_lookup_def by simp
qed

lemma served_in_turn:
  assumes "mt_inv m" and "distinct (mt_topics m)" and "bt_lookup (mt_consumers m) t = Some c"
    and "tc_messages c = Inr (i, p) # xs" and "list_all (turn_ok (mt_topic_regex m)) Ts"
    and "position t (mt_topics m) < length Ts"
  shows "create_message c i p \<in> set (fst (mt_run (concat (map turn_events Ts)) m))"
  using assms
proof (induction Ts arbitrary: m c xs)
  case Nil
  then show ?case by simp
next
  case (Cons T Ts)
  obtain arrived gone Rs D now where T: "T = (arrived, gone, Rs, D, now)" by (metis prod_cases5)
  let ?m = "engines_forward arrived gone m"
  let ?c = "c\<lparr>tc_messages := tc_messages c @ arrived t, tc_closed := (tc_closed c \<or> gone t)\<rparr>"
  let ?r = "refreshed Rs D ?m"
  have same: "same_multi m ?m" by (rule same_multi_engines)
  have inv: "mt_inv ?m" by (rule same_multi_inv [OF same Cons.prems(1)])
  have c: "bt_lookup (mt_consumers ?m) t = Some ?c" by (rule engines_forward_lookup [OF Cons.prems(3)])
  have msgs: "tc_messages ?c = Inr (i, p) # (xs @ arrived t)" using Cons.prems(4) by simp
  have same_msg: "create_message ?c i p = create_message c i p" by (simp add: create_message_def)
  have ok: "\<forall>R\<in>set (Rs @ [D]). found_once R (mt_topic_regex ?m)"
    using Cons.prems(5) same_multi_fields(3) [OF same] by (simp add: turn_ok_def turn_events_def T)
  have dist: "distinct (mt_topics ?r)"
    using refreshed_facts(4) [OF inv _ ok] Cons.prems(2) same_multi_fields(1) [OF same] by simp
  obtain r m1 where p: "poll_consumers now ?r = (r, m1)" by fastforce
  note old = refreshed_old [OF inv c, of Rs D]
  note k = poll_consumers_keeps [OF refreshed_facts(1) [OF inv] p]
  have run: "mt_run (concat (map turn_events (T # Ts))) m =
      (case mt_run (concat (map turn_events Ts)) m1 of
         (outs, m) \<Rightarrow> ((case r of None \<Rightarrow> [] | Some x \<Rightarrow> [x]) @ outs, m))"
    by (simp add: T turn_events_def mt_step_poll p del: mt_step.simps(1) split: prod.split)
  from poll_serves_or_advances [OF refreshed_facts(1) [OF inv] dist old [THEN conjunct1] msgs p]
  show ?case
  proof
    assume "r = Some (create_message ?c i p)"
    then show ?thesis unfolding run by (simp add: same_msg split: prod.split)
  next
    assume next_turn: "bt_lookup (mt_consumers m1) t = Some ?c \<and>
      position t (mt_topics m1) < position t (mt_topics ?r)"
    have "create_message ?c i p \<in> set (fst (mt_run (concat (map turn_events Ts)) m1))"
    proof (rule Cons.IH)
      show "position t (mt_topics m1) < length Ts"
        using next_turn old Cons.prems(6) same_multi_fields(1) [OF same] by simp
      show "list_all (turn_ok (mt_topic_regex m1)) Ts"
        using Cons.prems(5) k refreshed_facts(3) [OF inv] same_multi_fields(3) [OF same] by simp
    qed (use k dist next_turn msgs in auto)
    then show ?thesis unfolding run by (cases "mt_run (concat (map turn_events Ts)) m1") (simp add: same_msg)
  qed
qed

section \<open>Instances for concrete inputs\<close>

definition ex_handle :: "string \<Rightarrow> channel_item list \<Rightarrow> TopicConsumer" where
  "ex_handle t ms =
     \<lparr>tc_consumer_id = 1, tc_config = ex_config, tc_topic = t, tc_messages = ms, tc_closed = False,
      tc_engine_tx = [], tc_engine_open = True, tc_dead_letter_policy = None,
      tc_last_message_received = None, tc_messages_received = 0\<rparr>"

definition ex_item :: "u64 \<Rightarrow> channel_item" where
  "ex_item n = Inr (MessageIdData 1 n None None [] None None,
     \<lparr>metadata = default_message_metadata, data = [1]\<rparr>)"

definition ex_multi :: MultiTopicConsumer where
  "ex_multi = multi_new ''public/default'' (Some (\<lambda>t. True)) ex_config
     [ex_handle ''b'' [ex_item 3, ex_item 4], ex_handle ''a'' [Inl (ECustom ''e''), ex_item 1],
      ex_handle ''c'' []]"

definition ex_discovery :: discovery_env where
  "ex_discovery =
     \<lparr>de_topics = Some (Inr [''a'', ''d'']), de_lookup = (\<lambda>t. Some (Inr [(t, ex_address)])),
      de_create = (\<lambda>t. ex_consumer_env)\<rparr>"

lemma ex_found_once: "found_once ex_discovery regex"
  unfolding found_once_def discovered_def ex_discovery_def
  by (simp add: try_join_all_def)

lemma ex_multi_inv:
  "mt_inv ex_multi" "distinct (mt_topics ex_multi)" "mt_topic_regex ex_multi = Some (\<lambda>t. True)"
  unfolding ex_multi_def by (rule multi_new_inv)+ (simp add: multi_new_def Let_def)

lemma ex_multi_topics: "mt_topics ex_multi = [''a'', ''b'', ''c'']"
  by (simp add: ex_multi_def multi_new_def Let_def ex_handle_def bt_collect_def bt_keys_def)

lemma ex_multi_b: "bt_lookup (mt_consumers ex_multi) ''b'' = Some (ex_handle ''b'' [ex_item 3, ex_item 4])"
  by (simp add: ex_multi_def multi_new_def Let_def ex_handle_def bt_collect_def bt_lookup_def)

section \<open>Properties of the consumer of many topics\<close>

text \<open>C17: The queue and the map of a consumer of many topics. Whatever happens to a consumer since it was
  built (polls with any discoveries, acknowledgements, requests, seeks, failures of topics), the
  queue of topics holds exactly the topics that have a handle, each once, and every handle is
  filed under the topic it consumes: the branch for a missing consumer is never taken.\<close>

theorem multi_queue_matches_handles:
  assumes "list_all (event_ok regex) es"
  shows "let m = snd (mt_run es (multi_new ns regex config cs)) in
    set (mt_topics m) = dom (bt_lookup (mt_consumers m)) \<and> distinct (mt_topics m) \<and>
    (\<forall>t. map_option tc_topic (bt_lookup (mt_consumers m) t) \<in> {None, Some t})"
proof -
  let ?m = "snd (mt_run es (multi_new ns regex config cs))"
  have r: "mt_topic_regex (multi_new ns regex config cs) = regex" by (simp add: multi_new_def Let_def)
  have inv: "mt_inv ?m" and d: "distinct (mt_topics ?m)"
    using mt_run_keeps [OF multi_new_inv(1) [of ns regex config cs], of es] multi_new_inv(2) assms
    by (simp_all add: r)
  have "map_option tc_topic (bt_lookup (mt_consumers ?m) t) \<in> {None, Some t}" for t
    using mt_invD(2) [OF inv, of t] by (cases "bt_lookup (mt_consumers ?m) t") auto
  with mt_invD(3) [OF inv] d show ?thesis by (simp add: Let_def)
qed

theorem multi_queue_matches_handles_witness:
  "let m = snd (mt_run [EvPoll [ex_discovery] ex_discovery 5, EvPoll [] ex_discovery 6] ex_multi) in
    set (mt_topics m) = dom (bt_lookup (mt_consumers m)) \<and> distinct (mt_topics m) \<and>
    (\<forall>t. map_option tc_topic (bt_lookup (mt_consumers m) t) \<in> {None, Some t})"
  unfolding ex_multi_def by (rule multi_queue_matches_handles) (simp add: ex_found_once)

text \<open>C18: What a poll of many topics does. It returns the first message of the first topic of the queue that
  has one, moves that topic to the back, and takes nothing else; the topics it passed before are
  idle, or have failed and are gone from the queue. With no message anywhere it returns nothing,
  and exactly the topics that have failed are gone.\<close>

theorem multi_poll_first_ready:
  assumes "mt_inv m" and "distinct (mt_topics m)" and "poll_consumers now m = (r, m')"
  shows "case List.find (has_message m) (mt_topics m) of
      None \<Rightarrow> r = None \<and> mt_topics m' = filter (\<lambda>t. \<not> has_failed m t) (mt_topics m)
    | Some t \<Rightarrow> \<exists>xs ys c i p c'.
        mt_topics m = xs @ t # ys \<and> mt_topics m' = ys @ filter (\<lambda>t. \<not> has_failed m t) xs @ [t] \<and>
        bt_lookup (mt_consumers m) t = Some c \<and> bt_lookup (mt_consumers m') t = Some c' \<and>
        tc_messages c = Inr (i, p) # tc_messages c' \<and> r = Some (create_message c i p)"
proof (cases "List.find (has_message m) (mt_topics m)")
  case None
  then have none: "\<forall>t\<in>set (mt_topics m). \<not> has_message m t" by (auto simp: find_None_iff)
  show ?thesis
    by (rule poll_consumers_none [OF assms(1,2) none, of now]) (use assms(3) None in simp)
next
  case (Some t)
  then obtain i where i: "i < length (mt_topics m)" "mt_topics m ! i = t" "has_message m t"
      "\<forall>j<i. \<not> has_message m (mt_topics m ! j)"
    by (auto simp: find_Some_iff)
  let ?xs = "take i (mt_topics m)" and ?ys = "drop (Suc i) (mt_topics m)"
  have split: "mt_topics m = ?xs @ t # ?ys" using id_take_nth_drop [OF i(1)] i(2) by simp
  have first: "\<forall>u\<in>set ?xs. \<not> has_message m u" using i by (auto simp: in_set_conv_nth)
  have "distinct (?xs @ t # ?ys)" using assms(2) split by simp
  from poll_consumers_some [OF assms(1) split this first i(3), of now]
  obtain c j p c' where "poll_consumers now m = (Some (create_message c j p), m')"
      "bt_lookup (mt_consumers m) t = Some c" "tc_messages c = Inr (j, p) # tc_messages c'"
      "mt_topics m' = ?ys @ filter (\<lambda>t. \<not> has_failed m t) ?xs @ [t]"
      "bt_lookup (mt_consumers m') t = Some c'"
    using assms(3) by (metis (no_types, lifting) prod.inject)
  then show ?thesis using Some split assms(3) by (auto simp del: append_take_drop_id)
qed

theorem multi_poll_first_ready_witness:
  "\<exists>xs ys c i p c'.
     mt_topics ex_multi = xs @ ''b'' # ys \<and>
     mt_topics (snd (poll_consumers 5 ex_multi)) = ys @ filter (\<lambda>t. \<not> has_failed ex_multi t) xs @ [''b''] \<and>
     bt_lookup (mt_consumers ex_multi) ''b'' = Some c \<and>
     bt_lookup (mt_consumers (snd (poll_consumers 5 ex_multi))) ''b'' = Some c' \<and>
     tc_messages c = Inr (i, p) # tc_messages c' \<and>
     fst (poll_consumers 5 ex_multi) = Some (create_message c i p)"
proof -
  have "List.find (has_message ex_multi) (mt_topics ex_multi) = Some ''b''"
    unfolding ex_multi_topics
    by (simp add: has_message_def ex_multi_def multi_new_def Let_def ex_handle_def bt_collect_def bt_lookup_def ex_item_def)
  with multi_poll_first_ready [OF ex_multi_inv(1,2) prod.collapse [symmetric], of 5] show ?thesis by simp
qed

text \<open>C16: No topic starves. A message at the head of the channel of a topic is returned after at most as many
  further polls as there are topics before it in the queue, whatever the engines of the other
  topics forward meanwhile, whichever of them fail, and whatever new topics are discovered.\<close>

theorem multi_no_starvation:
  assumes "mt_inv m" and "distinct (mt_topics m)" and "bt_lookup (mt_consumers m) t = Some c"
    and "tc_messages c = Inr (i, p) # xs" and "list_all (turn_ok (mt_topic_regex m)) Ts"
    and "length (takeWhile (\<lambda>u. u \<noteq> t) (mt_topics m)) < length Ts"
  shows "create_message c i p \<in> set (fst (mt_run (concat (map turn_events Ts)) m))"
  using assms by (intro served_in_turn) (auto simp: position_def)

theorem multi_no_starvation_witness:
  "create_message (ex_handle ''b'' [ex_item 3, ex_item 4]) (MessageIdData 1 3 None None [] None None)
     \<lparr>metadata = default_message_metadata, data = [1]\<rparr>
   \<in> set (fst (mt_run (concat (map turn_events
       [((\<lambda>t. [ex_item 9]), (\<lambda>t. False), [ex_discovery], ex_discovery, 5),
        ((\<lambda>t. []), (\<lambda>t. True), [], ex_discovery, 6)])) ex_multi))"
  by (rule multi_no_starvation [OF ex_multi_inv(1,2) ex_multi_b])
    (simp_all add: ex_handle_def ex_item_def turn_ok_def turn_events_def ex_multi_inv ex_found_once
      ex_multi_topics)

text \<open>C28: The counter of a consumer of many topics. Until the next seek it counts exactly the messages the
  consumer has returned, also those of topics that were dropped since (modulo the width of the
  counter).\<close>

theorem multi_counts_messages:
  assumes "list_all (\<lambda>e. \<not> is_seek e) es" and "\<forall>c\<in>set cs. tc_messages_received c = 0"
  shows "mt_messages_received (snd (mt_run es (multi_new ns regex config cs))) =
    of_nat (length (fst (mt_run es (multi_new ns regex config cs))))"
proof -
  have "mt_messages_received (multi_new ns regex config cs) = 0"
    using bt.total_inserts_zero [of "[]" cs tc_messages_received tc_topic] assms(2)
    by (simp add: multi_new_def Let_def mt_messages_received_def bt_collect_def bt_lookup_def)
  with mt_run_keeps [OF multi_new_inv(1) [of ns regex config cs], of es] assms(1) show ?thesis by simp
qed

theorem multi_counts_messages_witness:
  "mt_messages_received (snd (mt_run [EvPoll [] ex_discovery 5, EvPoll [] ex_discovery 6] ex_multi)) =
     of_nat (length (fst (mt_run [EvPoll [] ex_discovery 5, EvPoll [] ex_discovery 6] ex_multi)))"
  unfolding ex_multi_def by (rule multi_counts_messages) (simp_all add: ex_handle_def)

text \<open>An error of one topic. A consumer without a pattern that meets an error of a topic drops the topic
  and never returns the error: what the topic's engine forwarded after it is lost.\<close>

lemma failed_topic_dropped:
  assumes "mt_inv m" and "distinct (mt_topics m)" and "\<forall>t\<in>set (mt_topics m). \<not> has_message m t"
    and "has_failed m t" and "mt_topic_regex m = None"
  shows "fst (mt_poll_next Rs D now m) = Pending \<and> t \<notin> set (mt_topics (snd (mt_poll_next Rs D now m)))"
proof -
  have none: "poll_discovery D m = m" for D
    using assms(5) by (simp add: poll_discovery_def split: option.split)
  have upd: "update_topics m = m" using assms(5) by (simp add: update_topics_def)
  have "fold (\<lambda>R m. update_topics (poll_discovery R m)) Rs m = m"
    by (induction Rs) (simp_all add: none upd)
  then have same: "refreshed Rs D m = m" by (simp add: refreshed_def none)
  show ?thesis
    by (rule poll_consumers_none [OF assms(1,2,3), of now])
      (use assms(4) same in \<open>simp add: mt_poll_next_refreshed\<close>)
qed

lemma seek_forgets_counts:
  assumes "seek_multi dbg S ids i ts m = (Some (Inr ()), m')"
  shows "disc_messages_received m' = 0"
  using assms
  by (auto simp: seek_multi_def rebuilt_def multi_new_def Let_def split: prod.splits sum.splits option.splits)

end
