(* ===== verification/Reader.thy ===== *)
theory Reader
  imports Consumer
begin

text \<open>
  \<open>Reader\<close> of \<open>src/reader.rs\<close>: a consumer of one topic that acknowledges every message before it
  returns it. The stream is a state machine: it polls the consumer, then the future that sends
  the acknowledgement to the engine. The state is taken out before it is matched, so that a poll
  that left it empty would panic; \<open>None\<close> is that panic. Each poll gets the time and whether the
  send has finished.
\<close>

section \<open>State\<close>

datatype reader_state = PollingConsumer | PollingAck ConsMessage

record Reader =
  rd_consumer :: TopicConsumer
  rd_state :: "reader_state option"

type_synonym reader_item = "(pulsar_error, ConsMessage) res"

section \<open>Polling\<close>

definition poll_ack :: "bool \<Rightarrow> ConsMessage \<Rightarrow> Reader \<Rightarrow> reader_item option poll \<times> Reader" where
  "poll_ack sent msg r =
     (if \<not> sent then (Pending, r\<lparr>rd_state := Some (PollingAck msg)\<rparr>)
      else
       (case tell_engine (EngineAck (cm_message_id msg) False) (rd_consumer r) of
          (res, c) \<Rightarrow>
            (Ready (Some (bind_res (map_err EConsumer res) (\<lambda>_. Inr msg))),
             r\<lparr>rd_consumer := c, rd_state := Some PollingConsumer\<rparr>)))"

definition reader_poll_next ::
  "nat \<Rightarrow> bool \<Rightarrow> Reader \<Rightarrow> (reader_item option poll \<times> Reader) option" where
  "reader_poll_next now sent r =
     (case rd_state r of
        None \<Rightarrow> None
      | Some PollingConsumer \<Rightarrow>
          (case tc_poll_next now (rd_consumer r) of
             (item, c) \<Rightarrow>
               (let r = r\<lparr>rd_consumer := c, rd_state := Some PollingConsumer\<rparr> in
                case item of
                  Pending \<Rightarrow> Some (Pending, r)
                | Ready None \<Rightarrow> Some (Ready None, r)
                | Ready (Some (Inr msg)) \<Rightarrow> Some (poll_ack sent msg r)
                | Ready (Some (Inl err)) \<Rightarrow> Some (Ready (Some (Inl err)), r)))
      | Some (PollingAck msg) \<Rightarrow> Some (poll_ack sent msg r))"

fun reader_polls :: "(nat \<times> bool) list \<Rightarrow> Reader \<Rightarrow> (reader_item list \<times> Reader) option" where
  "reader_polls [] r = Some ([], r)"
| "reader_polls ((now, sent) # ps) r =
     (case reader_poll_next now sent r of
        None \<Rightarrow> None
      | Some (item, r) \<Rightarrow>
          (case reader_polls ps r of
             None \<Rightarrow> None
           | Some (items, r) \<Rightarrow> Some (case item of Ready (Some x) \<Rightarrow> x # items | _ \<Rightarrow> items, r)))"

section \<open>Operations\<close>

definition reader_check_connection ::
  "unit awaited \<Rightarrow> nat \<Rightarrow> Connection option \<Rightarrow> Reader
     \<Rightarrow> (pulsar_error, unit) res \<times> Connection option \<times> Reader" where
  "reader_check_connection response ch answer r =
     (case tc_check_connection response ch answer (rd_consumer r) of
        (res, conn, c) \<Rightarrow> (res, conn, r\<lparr>rd_consumer := c\<rparr>))"

definition reader_connections ::
  "nat \<Rightarrow> Connection option \<Rightarrow> Reader \<Rightarrow> (pulsar_error, url) res \<times> Reader" where
  "reader_connections ch answer r =
     (case tc_connection ch answer (rd_consumer r) of
        (res, c) \<Rightarrow> (bind_res res (\<lambda>conn. Inr (conn_url conn)), r\<lparr>rd_consumer := c\<rparr>))"

definition reader_seek ::
  "(base_command \<Rightarrow> string) \<Rightarrow> message_id_data option \<Rightarrow> u64 option \<Rightarrow> pulsar_message awaited \<Rightarrow> nat
     \<Rightarrow> Connection option \<Rightarrow> Reader \<Rightarrow> (pulsar_error, unit) res \<times> Connection option \<times> Reader" where
  "reader_seek dbg message_id timestamp response ch answer r =
     (case tc_seek dbg message_id timestamp response ch answer (rd_consumer r) of
        (res, conn, c) \<Rightarrow> (res, conn, r\<lparr>rd_consumer := c\<rparr>))"

definition reader_get_last_message_id ::
  "(base_command \<Rightarrow> string) \<Rightarrow> pulsar_message awaited \<Rightarrow> nat \<Rightarrow> Connection option \<Rightarrow> Reader
     \<Rightarrow> (pulsar_error, message_id_data) res \<times> Connection option \<times> Reader" where
  "reader_get_last_message_id dbg response ch answer r =
     (case tc_get_last_message_id dbg response ch answer (rd_consumer r) of
        (res, conn, c) \<Rightarrow> (res, conn, r\<lparr>rd_consumer := c\<rparr>))"

definition reader_topic :: "Reader \<Rightarrow> string" where
  "reader_topic r = tc_topic (rd_consumer r)"

definition reader_options :: "Reader \<Rightarrow> ConsumerOptions" where
  "reader_options r = cc_options (tc_config (rd_consumer r))"

definition reader_dead_letter_policy :: "Reader \<Rightarrow> DeadLetterPolicy option" where
  "reader_dead_letter_policy r = tc_dead_letter_policy (rd_consumer r)"

definition reader_subscription :: "Reader \<Rightarrow> string" where
  "reader_subscription r = cc_subscription (tc_config (rd_consumer r))"

definition reader_sub_type :: "Reader \<Rightarrow> sub_type" where
  "reader_sub_type r = cc_sub_type (tc_config (rd_consumer r))"

definition reader_batch_size :: "Reader \<Rightarrow> u32 option" where
  "reader_batch_size r = cc_batch_size (tc_config (rd_consumer r))"

definition reader_name :: "Reader \<Rightarrow> string option" where
  "reader_name r = cc_consumer_name (tc_config (rd_consumer r))"

definition reader_id :: "Reader \<Rightarrow> u64" where
  "reader_id r = tc_consumer_id (rd_consumer r)"

definition reader_last_message_received :: "Reader \<Rightarrow> nat option" where
  "reader_last_message_received r = tc_last_message_received (rd_consumer r)"

definition reader_messages_received :: "Reader \<Rightarrow> u64" where
  "reader_messages_received r = tc_messages_received (rd_consumer r)"

section \<open>Lemmas\<close>

definition ack_of :: "ConsMessage \<Rightarrow> EngineMessage" where
  "ack_of msg = EngineAck (cm_message_id msg) False"

text \<open>The item a reader makes of what its engine forwarded: a message it cannot acknowledge, because the
  engine is gone, becomes an error.\<close>

definition acknowledged :: "TopicConsumer \<Rightarrow> reader_item \<Rightarrow> reader_item" where
  "acknowledged c x =
     (if tc_engine_open c then x else bind_res x (\<lambda>_. Inl (EConsumer (consumer_error_from_send False))))"

fun oks :: "('e, 'a) res list \<Rightarrow> 'a list" where
  "oks [] = []"
| "oks (Inr x # xs) = x # oks xs"
| "oks (Inl e # xs) = oks xs"

text \<open>The message that waits for its acknowledgement, if there is one.\<close>

definition waiting :: "Reader \<Rightarrow> reader_item list" where
  "waiting r = (case rd_state r of Some (PollingAck msg) \<Rightarrow> [Inr msg] | _ \<Rightarrow> [])"

definition pending_items :: "Reader \<Rightarrow> reader_item list" where
  "pending_items r =
     map (acknowledged (rd_consumer r)) (waiting r @ map (yielded (rd_consumer r)) (tc_messages (rd_consumer r)))"

text \<open>One poll: the items still to come lose exactly the item returned, and exactly the message
  returned has been acknowledged.\<close>

definition emitted :: "reader_item option poll \<Rightarrow> reader_item list" where
  "emitted p = (case p of Ready (Some x) \<Rightarrow> [x] | _ \<Rightarrow> [])"

lemma emitted_simps [simp]:
  "emitted Pending = []" "emitted (Ready None) = []" "emitted (Ready (Some x)) = [x]"
  by (simp_all add: emitted_def)

lemma poll_ack_facts:
  assumes "poll_ack sent msg r = (p, r')"
  shows "rd_state r' \<noteq> None \<and> tc_engine_open (rd_consumer r') = tc_engine_open (rd_consumer r) \<and>
    acknowledged (rd_consumer r) (Inr msg) # map (acknowledged (rd_consumer r) \<circ> yielded (rd_consumer r))
      (tc_messages (rd_consumer r)) = emitted p @ pending_items r' \<and>
    tc_engine_tx (rd_consumer r') = tc_engine_tx (rd_consumer r) @ map ack_of (oks (emitted p))"
  using assms
  by (auto simp: poll_ack_def tell_engine_def engine_send_def pending_items_def waiting_def acknowledged_def
      ack_of_def yielded_def create_message_def comp_def split: if_splits prod.split sum.split)

lemma reader_poll_facts:
  assumes "rd_state r \<noteq> None"
  obtains p r' where "reader_poll_next now sent r = Some (p, r')" "rd_state r' \<noteq> None"
    "pending_items r = emitted p @ pending_items r'"
    "tc_engine_tx (rd_consumer r') = tc_engine_tx (rd_consumer r) @ map ack_of (oks (emitted p))"
    "sent \<Longrightarrow> pending_items r \<noteq> [] \<Longrightarrow> emitted p \<noteq> []"
proof (cases "the (rd_state r)")
  case (PollingAck msg)
  then have st: "rd_state r = Some (PollingAck msg)" using assms by force
  obtain p r' where p: "poll_ack sent msg r = (p, r')" by fastforce
  have live: "emitted p \<noteq> []" if sent
    using p that by (auto simp: poll_ack_def split: prod.splits)
  from poll_ack_facts [OF p] live show thesis
    by (intro that [of p r']) (simp_all add: reader_poll_next_def st p pending_items_def waiting_def)
next
  case PollingConsumer
  then have st: "rd_state r = Some PollingConsumer" using assms by force
  let ?c = "rd_consumer r"
  show thesis
  proof (rule tc_poll_next_cases [of ?c now])
    assume "tc_messages ?c = []" "tc_poll_next now ?c = (Pending, ?c)"
    then show thesis
      by (intro that [of Pending r]) (simp_all add: reader_poll_next_def st pending_items_def waiting_def)
  next
    assume "tc_messages ?c = []" "tc_poll_next now ?c = (Ready None, ?c)"
    then show thesis
      by (intro that [of "Ready None" r]) (simp_all add: reader_poll_next_def st pending_items_def waiting_def)
  next
    fix x :: channel_item and xs
    let ?c' = "?c\<lparr>tc_messages := xs,
        tc_last_message_received := (if is_ok x then Some now else tc_last_message_received ?c),
        tc_messages_received := tc_messages_received ?c + (if is_ok x then 1 else 0)\<rparr>"
    let ?r = "r\<lparr>rd_consumer := ?c', rd_state := Some PollingConsumer\<rparr>"
    assume m: "tc_messages ?c = x # xs" and q: "tc_poll_next now ?c = (Ready (Some (yielded ?c x)), ?c')"
    have ack: "acknowledged ?c' = acknowledged ?c" by (simp add: acknowledged_def fun_eq_iff)
    show thesis
    proof (cases "yielded ?c x")
      case (Inl err)
      then show thesis
        by (intro that [of "Ready (Some (Inl err))" ?r])
          (simp_all add: reader_poll_next_def st q m pending_items_def waiting_def acknowledged_def)
    next
      case (Inr msg)
      obtain p r' where p: "poll_ack sent msg ?r = (p, r')" by fastforce
      have live: "emitted p \<noteq> []" if sent
        using p that by (auto simp: poll_ack_def split: prod.splits)
      from poll_ack_facts [OF p] live show thesis
        by (intro that [of p r'])
          (simp_all add: reader_poll_next_def st q m pending_items_def waiting_def Inr p ack comp_def)
    qed
  qed
qed

lemma reader_polls_facts:
  assumes "rd_state r \<noteq> None"
  shows "\<exists>items r'. reader_polls ps r = Some (items, r') \<and> rd_state r' \<noteq> None \<and>
    pending_items r = items @ pending_items r' \<and>
    tc_engine_tx (rd_consumer r') = tc_engine_tx (rd_consumer r) @ map ack_of (oks items) \<and>
    (list_all snd ps \<longrightarrow> length ps \<le> length (pending_items r) \<longrightarrow> length items = length ps)"
  using assms
proof (induction ps arbitrary: r)
  case Nil
  then show ?case by simp
next
  case (Cons q ps)
  obtain now sent where q: "q = (now, sent)" by fastforce
  obtain p r1 where p: "reader_poll_next now sent r = Some (p, r1)" "rd_state r1 \<noteq> None"
      "pending_items r = emitted p @ pending_items r1"
      "tc_engine_tx (rd_consumer r1) = tc_engine_tx (rd_consumer r) @ map ack_of (oks (emitted p))"
      "sent \<Longrightarrow> pending_items r \<noteq> [] \<Longrightarrow> emitted p \<noteq> []"
    by (rule reader_poll_facts [OF Cons.prems, of now sent]) blast
  from Cons.IH [OF p(2)] obtain items r2 where i: "reader_polls ps r1 = Some (items, r2)"
      "rd_state r2 \<noteq> None" "pending_items r1 = items @ pending_items r2"
      "tc_engine_tx (rd_consumer r2) = tc_engine_tx (rd_consumer r1) @ map ack_of (oks items)"
      "list_all snd ps \<longrightarrow> length ps \<le> length (pending_items r1) \<longrightarrow> length items = length ps" by blast
  have oks_app: "oks (xs @ ys) = oks xs @ oks ys" for xs ys :: "reader_item list"
    by (induction xs rule: oks.induct) simp_all
  have one: "length (emitted p) \<le> 1" by (simp add: emitted_def split: poll.split option.split)
  have len: "length (emitted p @ items) = length (q # ps)"
    if "list_all snd (q # ps)" "length (q # ps) \<le> length (pending_items r)"
  proof -
    have "emitted p \<noteq> []" using that p(5) q by force
    with one have "length (emitted p) = 1" by (cases "emitted p") auto
    with that p(3) i(5) show ?thesis by simp
  qed
  have run: "reader_polls (q # ps) r = Some (emitted p @ items, r2)"
    using p(1) i(1) by (simp add: q emitted_def split: poll.split option.split)
  show ?case
    by (intro exI [of _ "emitted p @ items"] exI [of _ r2])
      (use run p i len oks_app in simp)
qed

section \<open>Properties\<close>

definition ex_reader :: Reader where
  "ex_reader =
     \<lparr>rd_consumer =
        \<lparr>tc_consumer_id = 1, tc_config = ex_config, tc_topic = ''t'',
         tc_messages =
           [Inr (MessageIdData 1 7 None None [] None None,
              \<lparr>metadata = default_message_metadata, data = [1]\<rparr>), Inl (ECustom ''e'')],
         tc_closed = False, tc_engine_tx = [], tc_engine_open = True, tc_dead_letter_policy = None,
         tc_last_message_received = None, tc_messages_received = 0\<rparr>,
      rd_state = Some PollingConsumer\<rparr>"

text \<open>C23: A reader acknowledges exactly what it returns. Over any polls of a reader that has its state, whether
  or not the acknowledgements are sent at once, no poll panics; the items returned, followed by
  those still to come, are the ones its engine forwarded, in order, a message becoming an error
  where it cannot be acknowledged; and the engine was told to acknowledge exactly the messages
  returned, in order.\<close>

theorem reader_acks_what_it_returns:
  assumes "rd_state r \<noteq> None"
  shows "\<exists>items r'. reader_polls ps r = Some (items, r') \<and>
    pending_items r = items @ pending_items r' \<and>
    tc_engine_tx (rd_consumer r') = tc_engine_tx (rd_consumer r) @ map ack_of (oks items)"
  using reader_polls_facts [OF assms, of ps] by blast

theorem reader_acks_what_it_returns_witness:
  "\<exists>items r'. reader_polls [(3, False), (4, True), (5, True)] ex_reader = Some (items, r') \<and>
    pending_items ex_reader = items @ pending_items r' \<and>
    tc_engine_tx (rd_consumer r') = tc_engine_tx (rd_consumer ex_reader) @ map ack_of (oks items)"
  by (rule reader_acks_what_it_returns) (simp add: ex_reader_def)

text \<open>A reader makes progress. As long as items are to come and acknowledgements are sent at once, every
  poll returns the next one.\<close>

theorem reader_makes_progress:
  assumes "rd_state r \<noteq> None" and "list_all snd ps" and "length ps \<le> length (pending_items r)"
  shows "map_option fst (reader_polls ps r) = Some (take (length ps) (pending_items r))"
  using reader_polls_facts [OF assms(1), of ps] assms(2,3) by auto

theorem reader_makes_progress_witness:
  "map_option fst (reader_polls [(4, True), (5, True)] ex_reader) =
     Some (take (length [(4 :: nat, True), (5, True)]) (pending_items ex_reader))"
  by (rule reader_makes_progress) (simp_all add: ex_reader_def pending_items_def waiting_def)

end
