(* ===== verification/ConsumerBuilder.thy ===== *)
theory ConsumerBuilder
  imports MultiConsumer Reader
begin

text \<open>
  \<open>ConsumerBuilder\<close> of \<open>src/consumer.rs\<close>: the options of a consumer, their check, and the creation of
  a consumer or a reader from them. What the lookups and the creation of the consumers of the
  topics meet, and the random names, are arguments. \<open>Unfinished\<close> says that one of the futures has not
  ended; the lookup of a topic may also panic (the \<open>unwrap\<close> of a host in \<open>src/service_discovery.rs\<close>).
\<close>

section \<open>Options\<close>

record ConsumerBuilder =
  cb_topics :: "string list option"
  cb_topic_regex :: "(string \<Rightarrow> bool) option"
  cb_subscription :: "string option"
  cb_subscription_type :: "sub_type option"
  cb_consumer_id :: "u64 option"
  cb_consumer_name :: "string option"
  cb_batch_size :: "u32 option"
  cb_unacked_message_resend_delay :: "nat option"
  cb_dead_letter_policy :: "DeadLetterPolicy option"
  cb_consumer_options :: "ConsumerOptions option"
  cb_namespace :: "string option"
  cb_topic_refresh :: "nat option"

definition consumer_builder_new :: ConsumerBuilder where
  "consumer_builder_new =
     \<lparr>cb_topics = None, cb_topic_regex = None, cb_subscription = None, cb_subscription_type = None,
      cb_consumer_id = None, cb_consumer_name = None, cb_batch_size = None,
      cb_unacked_message_resend_delay = None, cb_dead_letter_policy = None,
      cb_consumer_options = None, cb_namespace = None, cb_topic_refresh = None\<rparr>"

definition with_topic :: "string \<Rightarrow> ConsumerBuilder \<Rightarrow> ConsumerBuilder" where
  "with_topic topic b =
     (case cb_topics b of
        Some topics \<Rightarrow> b\<lparr>cb_topics := Some (topics @ [topic])\<rparr>
      | None \<Rightarrow> b\<lparr>cb_topics := Some [topic]\<rparr>)"

definition with_topics :: "string list \<Rightarrow> ConsumerBuilder \<Rightarrow> ConsumerBuilder" where
  "with_topics new_topics b =
     (case cb_topics b of
        Some topics \<Rightarrow> b\<lparr>cb_topics := Some (topics @ new_topics)\<rparr>
      | None \<Rightarrow> b\<lparr>cb_topics := Some new_topics\<rparr>)"

definition with_topic_regex :: "(string \<Rightarrow> bool) \<Rightarrow> ConsumerBuilder \<Rightarrow> ConsumerBuilder" where
  "with_topic_regex regex b = b\<lparr>cb_topic_regex := Some regex\<rparr>"

definition with_subscription :: "string \<Rightarrow> ConsumerBuilder \<Rightarrow> ConsumerBuilder" where
  "with_subscription subscription b = b\<lparr>cb_subscription := Some subscription\<rparr>"

definition with_subscription_type :: "sub_type \<Rightarrow> ConsumerBuilder \<Rightarrow> ConsumerBuilder" where
  "with_subscription_type st b = b\<lparr>cb_subscription_type := Some st\<rparr>"

definition with_lookup_namespace :: "string \<Rightarrow> ConsumerBuilder \<Rightarrow> ConsumerBuilder" where
  "with_lookup_namespace namespace b = b\<lparr>cb_namespace := Some namespace\<rparr>"

definition with_topic_refresh :: "nat \<Rightarrow> ConsumerBuilder \<Rightarrow> ConsumerBuilder" where
  "with_topic_refresh interval b = b\<lparr>cb_topic_refresh := Some interval\<rparr>"

definition with_consumer_id :: "u64 \<Rightarrow> ConsumerBuilder \<Rightarrow> ConsumerBuilder" where
  "with_consumer_id i b = b\<lparr>cb_consumer_id := Some i\<rparr>"

definition with_consumer_name :: "string \<Rightarrow> ConsumerBuilder \<Rightarrow> ConsumerBuilder" where
  "with_consumer_name name b = b\<lparr>cb_consumer_name := Some name\<rparr>"

definition consumer_with_batch_size :: "u32 \<Rightarrow> ConsumerBuilder \<Rightarrow> ConsumerBuilder" where
  "consumer_with_batch_size n b = b\<lparr>cb_batch_size := Some n\<rparr>"

definition consumer_with_options :: "ConsumerOptions \<Rightarrow> ConsumerBuilder \<Rightarrow> ConsumerBuilder" where
  "consumer_with_options opts b = b\<lparr>cb_consumer_options := Some opts\<rparr>"

definition with_dead_letter_policy :: "DeadLetterPolicy \<Rightarrow> ConsumerBuilder \<Rightarrow> ConsumerBuilder" where
  "with_dead_letter_policy policy b = b\<lparr>cb_dead_letter_policy := Some policy\<rparr>"

definition with_unacked_message_resend_delay :: "nat option \<Rightarrow> ConsumerBuilder \<Rightarrow> ConsumerBuilder" where
  "with_unacked_message_resend_delay delay b = b\<lparr>cb_unacked_message_resend_delay := delay\<rparr>"

section \<open>The check of the options\<close>

text \<open>\<open>be_lookup_panics\<close> says of a topic that its lookup panics before the joined lookups have a result.\<close>

record builder_env =
  be_random_name :: string
  be_random_subscription :: string
  be_lookup :: "string \<Rightarrow> (pulsar_error, (string \<times> BrokerAddress) list) res option"
  be_lookup_panics :: "string \<Rightarrow> bool"
  be_create :: "string \<Rightarrow> consumer_env"
  be_discovery :: discovery_env

definition validated_config :: "builder_env \<Rightarrow> nat \<Rightarrow> ConsumerBuilder \<Rightarrow> ConsumerConfig" where
  "validated_config B n b =
     \<lparr>cc_subscription =
        (case cb_subscription b of None \<Rightarrow> ''sub_'' @ be_random_subscription B | Some s \<Rightarrow> s),
      cc_sub_type = (case cb_subscription_type b of None \<Rightarrow> Shared | Some st \<Rightarrow> st),
      cc_batch_size = cb_batch_size b,
      cc_consumer_name =
        (case cb_consumer_name b of None \<Rightarrow> Some (''consumer_'' @ be_random_name B) | Some name \<Rightarrow> Some name),
      cc_consumer_id = (if n = 1 then cb_consumer_id b else None),
      cc_redelivery_delay = cb_unacked_message_resend_delay b,
      cc_options = (case cb_consumer_options b of None \<Rightarrow> consumer_options_default | Some opts \<Rightarrow> opts),
      cc_dead_letter_policy = cb_dead_letter_policy b\<rparr>"

definition validate ::
  "builder_env \<Rightarrow> ConsumerBuilder
     \<Rightarrow> (pulsar_error, ConsumerConfig \<times> (string \<times> BrokerAddress) list) res outcome" where
  "validate B b =
     (if cb_topics b = None \<and> cb_topic_regex b = None then
        Value (Inl (ECustom ''Cannot create consumer with no topics and no topic regex''))
      else
       (let names = (case cb_topics b of None \<Rightarrow> [] | Some ts \<Rightarrow> ts) in
        if list_ex (be_lookup_panics B) names then Panics
        else
         (case try_join_all (map (be_lookup B) names) of
            None \<Rightarrow> Unfinished
          | Some (Inl err) \<Rightarrow> Value (Inl err)
          | Some (Inr parts) \<Rightarrow>
              (let topics = concat parts in
               if topics = [] \<and> cb_topic_regex b = None then
                 Value (Inl (ECustom ''Unable to create consumer - topic not found''))
               else Value (Inr (validated_config B (length topics) b, topics))))))"

section \<open>Creation\<close>

definition build_multi ::
  "builder_env \<Rightarrow> ConsumerBuilder \<Rightarrow> ConsumerConfig \<Rightarrow> TopicConsumer list
     \<Rightarrow> (pulsar_error, InnerConsumer) res outcome" where
  "build_multi B b config cs =
     (let m = multi_new (case cb_namespace b of None \<Rightarrow> ''public/default'' | Some ns \<Rightarrow> ns)
                (cb_topic_regex b) config cs in
      case cb_topic_regex b of
        None \<Rightarrow> Value (Inr (Multi m))
      | Some regex \<Rightarrow>
          (case discover_topics (be_discovery B) regex (bt_keys (mt_consumers m)) config of
             None \<Rightarrow> Unfinished
           | Some (Inl err) \<Rightarrow> Value (Inl err)
           | Some (Inr initial) \<Rightarrow> Value (Inr (Multi (add_consumers initial m)))))"

definition build :: "builder_env \<Rightarrow> ConsumerBuilder \<Rightarrow> (pulsar_error, InnerConsumer) res outcome" where
  "build B b =
     (case validate B b of
        Unfinished \<Rightarrow> Unfinished
      | Panics \<Rightarrow> Panics
      | Value (Inl err) \<Rightarrow> Value (Inl err)
      | Value (Inr (config, joined_topics)) \<Rightarrow>
          (case try_join_all
                  (map (\<lambda>(topic, addr). create_consumer (be_create B) config topic addr) joined_topics) of
             None \<Rightarrow> Unfinished
           | Some (Inl err) \<Rightarrow> Value (Inl err)
           | Some (Inr [c]) \<Rightarrow> Value (Inr (Single c))
           | Some (Inr cs) \<Rightarrow> build_multi B b config cs))"

definition into_reader :: "builder_env \<Rightarrow> ConsumerBuilder \<Rightarrow> (pulsar_error, Reader) res outcome" where
  "into_reader B b =
     (case validate B b of
        Unfinished \<Rightarrow> Unfinished
      | Panics \<Rightarrow> Panics
      | Value (Inl err) \<Rightarrow> Value (Inl err)
      | Value (Inr (config, joined_topics)) \<Rightarrow>
          (case cb_topics b of
             None \<Rightarrow> Panics
           | Some topics \<Rightarrow>
               (if length topics > 1 then
                  Value (Inl (ECustom ''Unable to create a reader - one topic max''))
                else if joined_topics = [] then Panics
                else
                  (case create_consumer (be_create B) (config\<lparr>cc_sub_type := Exclusive\<rparr>)
                          (fst (last joined_topics)) (snd (last joined_topics)) of
                     None \<Rightarrow> Unfinished
                   | Some (Inl err) \<Rightarrow> Value (Inl err)
                   | Some (Inr c) \<Rightarrow>
                       Value (Inr \<lparr>rd_consumer = c, rd_state = Some PollingConsumer\<rparr>)))))"

section \<open>Lemmas\<close>

lemma validate_Inr:
  assumes "validate B b = Value (Inr (config, ts))"
  obtains parts where
    "try_join_all (map (be_lookup B) (case cb_topics b of None \<Rightarrow> [] | Some us \<Rightarrow> us)) = Some (Inr parts)"
    "ts = concat parts" "config = validated_config B (length ts) b" "ts \<noteq> [] \<or> cb_topic_regex b \<noteq> None"
  using assms by (auto simp: validate_def Let_def split: if_splits option.splits sum.splits)

lemma build_Inr:
  assumes "build B b = Value (Inr i)"
  obtains config ts cs where "validate B b = Value (Inr (config, ts))" "map tc_topic cs = map fst ts"
    "\<forall>c\<in>set cs. tc_messages_received c = 0 \<and> tc_config c = config"
    "(\<exists>c. cs = [c] \<and> i = Single c) \<or> (length cs \<noteq> 1 \<and> build_multi B b config cs = Value (Inr i))"
proof -
  from assms obtain config ts where v: "validate B b = Value (Inr (config, ts))"
    by (auto simp: build_def split: outcome.splits sum.splits)
  from assms v obtain cs where
    j: "try_join_all (map (\<lambda>(topic, addr). create_consumer (be_create B) config topic addr) ts) = Some (Inr cs)"
    by (auto simp: build_def split: option.splits sum.splits)
  have "\<forall>c\<in>set cs. tc_config c = config"
    using try_join_all_Inr [OF j]
    by (induction ts arbitrary: cs) (auto simp: map_eq_Cons_conv dest: create_consumer_Inr)
  moreover have "(\<exists>c. cs = [c] \<and> i = Single c) \<or> (length cs \<noteq> 1 \<and> build_multi B b config cs = Value (Inr i))"
    using assms v j by (cases cs rule: list.exhaust; cases "tl cs") (auto simp: build_def)
  ultimately show thesis
    using created_consumers [OF j] that [OF v] by blast
qed

lemma build_multi_Inr:
  assumes "build_multi B b config cs = Value (Inr i)"
  obtains m where "i = Multi m" "mt_inv m" "tc_topic ` set cs \<subseteq> set (mt_topics m)" "mt_config m = config"
proof -
  let ?m = "multi_new (case cb_namespace b of None \<Rightarrow> ''public/default'' | Some ns \<Rightarrow> ns)
      (cb_topic_regex b) config cs"
  have base: "mt_inv ?m" by (rule multi_new_inv)
  have names: "tc_topic ` set cs \<subseteq> set (mt_topics ?m)"
    using bt_collect_props [of tc_topic cs] bt.set_keys [of "bt_collect tc_topic cs"]
    by (simp add: multi_new_def Let_def)
  have config: "mt_config ?m = config" "mt_new_consumers ?m = None" by (simp_all add: multi_new_def Let_def)
  from assms consider "i = Multi ?m" | initial where "i = Multi (add_consumers initial ?m)"
    by (auto simp: build_multi_def Let_def split: option.splits sum.splits)
  then show thesis
  proof cases
    case 1
    then show thesis using that base names config by blast
  next
    case 2
    then show thesis
      using that [of "add_consumers initial ?m"] add_consumers_inv [OF base config(2)] names config
      by (auto simp: add_consumers_fields)
  qed
qed

section \<open>Instances for concrete inputs\<close>

definition ex_builder_env :: builder_env where
  "ex_builder_env =
     \<lparr>be_random_name = ''n'', be_random_subscription = ''s'',
      be_lookup = (\<lambda>t. Some (Inr [(t @ ''-partition-0'', ex_address), (t @ ''-partition-1'', ex_address)])),
      be_lookup_panics = (\<lambda>t. False), be_create = (\<lambda>t. ex_consumer_env), be_discovery = ex_discovery\<rparr>"

definition ex_builder :: ConsumerBuilder where
  "ex_builder = with_topic ''t'' consumer_builder_new"

lemma ex_validate:
  "validate ex_builder_env ex_builder =
     Value (Inr (validated_config ex_builder_env 2 ex_builder,
       [(''t-partition-0'', ex_address), (''t-partition-1'', ex_address)]))"
  by (simp add: validate_def ex_builder_env_def ex_builder_def with_topic_def consumer_builder_new_def
      try_join_all_def numeral_2_eq_2)

lemma ex_creation_any:
  "cc_redelivery_delay config = None \<Longrightarrow>
     \<exists>c. create_consumer (be_create ex_builder_env) config t ex_address = Some (Inr c)"
  by (simp add: create_consumer_def topic_consumer_new_def Let_def ex_builder_env_def ex_consumer_env_def
      ex_subscribed_def subscribe_once_def sender_subscribe_def next_request_id_eq registrations_send_def
      send_message_def open_channel_def tx_send_def ex_conn_def connection_sender_new_def
      extract_message_def ex_success_def send_flow_def proto_simps)

lemma ex_build: "\<exists>m. build ex_builder_env ex_builder = Value (Inr (Multi m))"
proof -
  let ?config = "validated_config ex_builder_env 2 ex_builder"
  have "cc_redelivery_delay ?config = None" "cb_topic_regex ex_builder = None"
    by (simp_all add: validated_config_def ex_builder_def with_topic_def consumer_builder_new_def)
  moreover from this(1) obtain c d where
    "create_consumer (be_create ex_builder_env) ?config ''t-partition-0'' ex_address = Some (Inr c)"
    "create_consumer (be_create ex_builder_env) ?config ''t-partition-1'' ex_address = Some (Inr d)"
    using ex_creation_any by metis
  ultimately show ?thesis by (simp add: build_def ex_validate try_join_all_def build_multi_def Let_def)
qed

section \<open>Properties\<close>

text \<open>C29: What building a consumer gives. The lookups of all topics it was asked for succeeded, and found a topic
  unless there is a pattern. The subscription, its type, the batch size, the name, the redelivery delay, the
  options and the dead letter policy of the consumer are those of the builder, with the defaults where it has none
  (a random subscription and name, shared, default options), and a fixed number is used only for one topic. It is a
  consumer of one topic exactly if the lookups found one, and otherwise a well-formed consumer of many topics, all
  those found among them.\<close>

theorem consumer_build_sound:
  assumes "build B b = Value (Inr i)"
  shows "\<exists>parts ts config.
    map (be_lookup B) (case cb_topics b of None \<Rightarrow> [] | Some names \<Rightarrow> names) = map (\<lambda>p. Some (Inr p)) parts \<and>
    ts = concat parts \<and> config = consumer_config i \<and>
    (ts \<noteq> [] \<or> cb_topic_regex b \<noteq> None) \<and>
    cc_subscription config =
      (case cb_subscription b of None \<Rightarrow> ''sub_'' @ be_random_subscription B | Some s \<Rightarrow> s) \<and>
    cc_sub_type config = (case cb_subscription_type b of None \<Rightarrow> Shared | Some st \<Rightarrow> st) \<and>
    cc_batch_size config = cb_batch_size b \<and>
    cc_consumer_name config =
      Some (case cb_consumer_name b of None \<Rightarrow> ''consumer_'' @ be_random_name B | Some n \<Rightarrow> n) \<and>
    cc_consumer_id config = (if length ts = 1 then cb_consumer_id b else None) \<and>
    cc_redelivery_delay config = cb_unacked_message_resend_delay b \<and>
    cc_options config = (case cb_consumer_options b of None \<Rightarrow> consumer_options_default | Some opts \<Rightarrow> opts) \<and>
    cc_dead_letter_policy config = cb_dead_letter_policy b \<and>
    (case i of
       Single c \<Rightarrow> map fst ts = [tc_topic c]
     | Multi m \<Rightarrow> length ts \<noteq> 1 \<and> mt_inv m \<and> set (map fst ts) \<subseteq> set (mt_topics m))"
  using assms
proof (rule build_Inr)
  fix config ts cs
  assume v: "validate B b = Value (Inr (config, ts))" and names: "map tc_topic cs = map fst ts"
    and new: "\<forall>c\<in>set cs. tc_messages_received c = 0 \<and> tc_config c = config"
    and kind: "(\<exists>c. cs = [c] \<and> i = Single c) \<or> (length cs \<noteq> 1 \<and> build_multi B b config cs = Value (Inr i))"
  obtain parts where p: "map (be_lookup B) (case cb_topics b of None \<Rightarrow> [] | Some names \<Rightarrow> names) =
      map (\<lambda>p. Some (Inr p)) parts" "ts = concat parts" "ts \<noteq> [] \<or> cb_topic_regex b \<noteq> None"
      and c: "config = validated_config B (length ts) b"
    using v by (rule validate_Inr) (auto dest: try_join_all_Inr)
  have len: "length cs = length ts" using names by (rule map_eq_imp_length_eq)
  have set: "tc_topic ` set cs = set (map fst ts)" using names by (metis set_map)
  have kinds: "consumer_config i = config \<and> (case i of Single c \<Rightarrow> map fst ts = [tc_topic c]
     | Multi m \<Rightarrow> length ts \<noteq> 1 \<and> mt_inv m \<and> set (map fst ts) \<subseteq> set (mt_topics m))"
    using kind
  proof
    assume "\<exists>c. cs = [c] \<and> i = Single c"
    with new names show ?thesis by (auto simp: consumer_config_def)
  next
    assume multi: "length cs \<noteq> 1 \<and> build_multi B b config cs = Value (Inr i)"
    then have "build_multi B b config cs = Value (Inr i)" ..
    then show ?thesis
      by (rule build_multi_Inr) (use multi len set in \<open>simp add: consumer_config_def\<close>)
  qed
  show ?thesis
    by (rule exI [of _ parts], rule exI [of _ ts], rule exI [of _ config])
      (use p kinds in \<open>simp add: c validated_config_def split: option.split\<close>)
qed

theorem consumer_build_sound_witness:
  "\<exists>i parts ts config. build ex_builder_env ex_builder = Value (Inr i) \<and>
    map (be_lookup ex_builder_env) (case cb_topics ex_builder of None \<Rightarrow> [] | Some names \<Rightarrow> names) =
      map (\<lambda>p. Some (Inr p)) parts \<and>
    ts = concat parts \<and> config = consumer_config i \<and>
    (ts \<noteq> [] \<or> cb_topic_regex ex_builder \<noteq> None) \<and>
    cc_subscription config =
      (case cb_subscription ex_builder of None \<Rightarrow> ''sub_'' @ be_random_subscription ex_builder_env | Some s \<Rightarrow> s) \<and>
    cc_sub_type config = (case cb_subscription_type ex_builder of None \<Rightarrow> Shared | Some st \<Rightarrow> st) \<and>
    cc_batch_size config = cb_batch_size ex_builder \<and>
    cc_consumer_name config =
      Some (case cb_consumer_name ex_builder of None \<Rightarrow> ''consumer_'' @ be_random_name ex_builder_env | Some n \<Rightarrow> n) \<and>
    cc_consumer_id config = (if length ts = 1 then cb_consumer_id ex_builder else None) \<and>
    cc_redelivery_delay config = cb_unacked_message_resend_delay ex_builder \<and>
    cc_options config = (case cb_consumer_options ex_builder of None \<Rightarrow> consumer_options_default | Some opts \<Rightarrow> opts) \<and>
    cc_dead_letter_policy config = cb_dead_letter_policy ex_builder \<and>
    (case i of
       Single c \<Rightarrow> map fst ts = [tc_topic c]
     | Multi m \<Rightarrow> length ts \<noteq> 1 \<and> mt_inv m \<and> set (map fst ts) \<subseteq> set (mt_topics m))"
proof -
  obtain m where m: "build ex_builder_env ex_builder = Value (Inr (Multi m))" using ex_build by blast
  from consumer_build_sound [OF m] m show ?thesis by blast
qed

text \<open>A builder that has a pattern and no topic is a valid one for a consumer; building a reader from it
  panics.\<close>

lemma regex_reader_panics:
  "into_reader B (with_topic_regex p consumer_builder_new) = Panics"
  by (simp add: into_reader_def validate_def with_topic_regex_def consumer_builder_new_def try_join_all_def)

text \<open>A reader of a partitioned topic reads its last partition only.\<close>

lemma reader_of_last_partition:
  assumes "into_reader B b = Value (Inr r)" and "validate B b = Value (Inr (config, ts))"
  shows "reader_topic r = fst (last ts)" "reader_sub_type r = Exclusive"
  using assms
  by (auto simp: into_reader_def reader_topic_def reader_sub_type_def split: option.splits if_splits sum.splits
      dest: create_consumer_Inr)

text \<open>With one topic the pattern of the builder is ignored.\<close>

lemma regex_ignored_with_one_topic:
  assumes "build B b = Value (Inr i)" and "validate B b = Value (Inr (config, [t]))"
  shows "\<exists>c. i = Single c"
  using assms(1) by (rule build_Inr) (use assms(2) in \<open>auto dest: map_eq_imp_length_eq\<close>)

end
