(* ===== verification/Producer.thy ===== *)
theory Producer
  imports Codec Retry "HOL-Library.AList"
begin

text \<open>
  \<open>src/producer.rs\<close>: the producer of one topic (\<open>TopicProducer\<close>) with its batches, compression and
  reconnection, the producer that spreads messages over the partitions of a topic, the producer
  of many topics, and the builders.

  A send future is the number of its one-shot channel; the channels a producer has completed, and
  with which result, are in \<open>tp_resolved\<close>. The batch mutex is held for the whole of the push and
  drain, and every operation takes the producer exclusively (\<open>&mut self\<close>), so each operation is one state
  change of the producer. Its futures are in other hands: while a batch is on its way its futures are
  pending, which is not a state of its own here. The compression libraries, the clock and what the broker and the rest of the client
  answer are the record \<open>producer_env\<close>. A library that is not compiled in makes
  \<open>send_compress\<close> panic (\<open>unimplemented!\<close>). A panic is \<open>None\<close>, and so is an operation that does not end.
\<close>

section \<open>Messages\<close>

record ProdMessage =
  m_payload :: bytes
  m_properties :: "key_value list"
  m_partition_key :: "string option"
  m_ordering_key :: "bytes option"
  m_replicate_to :: "string list"
  m_event_time :: "u64 option"
  m_schema_version :: "bytes option"

definition default_producer_message :: ProducerMessage where
  "default_producer_message =
     \<lparr>pm_payload = [], pm_properties = [], pm_partition_key = None, pm_ordering_key = None,
      pm_replicate_to = [], pm_compression = None, pm_uncompressed_size = None,
      pm_num_messages_in_batch = None, pm_event_time = None, pm_encryption_keys = [],
      pm_encryption_algo = None, pm_encryption_param = None, pm_schema_version = None,
      pm_deliver_at_time = None\<rparr>"

definition producer_message_from :: "ProdMessage \<Rightarrow> ProducerMessage" where
  "producer_message_from m =
     default_producer_message
       \<lparr>pm_payload := m_payload m, pm_properties := m_properties m,
        pm_partition_key := m_partition_key m, pm_ordering_key := m_ordering_key m,
        pm_replicate_to := m_replicate_to m, pm_event_time := m_event_time m,
        pm_schema_version := m_schema_version m\<rparr>"

section \<open>Batches\<close>

record Batch =
  batch_length :: u32
  batch_storage :: "(nat \<times> BatchedMessage) list"

definition batch_new :: "u32 \<Rightarrow> Batch" where
  "batch_new n = \<lparr>batch_length = n, batch_storage = []\<rparr>"

definition is_full :: "Batch \<Rightarrow> bool" where
  "is_full b \<longleftrightarrow> unat (batch_length b) \<le> length (batch_storage b)"

definition batched :: "ProducerMessage \<Rightarrow> BatchedMessage" where
  "batched m =
     \<lparr>bm_metadata = default_single_message_metadata
        \<lparr>sm_properties := map (\<lambda>(k, v). (k, v)) (pm_properties m),
         sm_partition_key := pm_partition_key m,
         sm_ordering_key := pm_ordering_key m,
         sm_payload_size := of_nat (length (pm_payload m)),
         sm_event_time := pm_event_time m\<rparr>,
      bm_payload = pm_payload m\<rparr>"

definition push_back :: "nat \<times> ProducerMessage \<Rightarrow> Batch \<Rightarrow> Batch" where
  "push_back msg b =
     (case msg of (tx, m) \<Rightarrow> b\<lparr>batch_storage := batch_storage b @ [(tx, batched m)]\<rparr>)"

definition get_messages :: "Batch \<Rightarrow> (nat \<times> BatchedMessage) list \<times> Batch" where
  "get_messages b = (batch_storage b, b\<lparr>batch_storage := []\<rparr>)"

section \<open>The producer of a topic\<close>

record TopicProducer =
  tp_connection :: Connection
  tp_id :: u64
  tp_name :: string
  tp_topic :: string
  tp_message_id :: u64
  tp_batch :: "Batch option"
  tp_compression :: "compression_type option"
  tp_options :: ProducerOptions
  tp_next_future :: nat
  tp_resolved :: "(nat \<times> (pulsar_error, command_send_receipt) res) list"

record compressors =
  z_lz4 :: "(bytes \<Rightarrow> (io_error, bytes) res) option"
  z_zlib :: "(bytes \<Rightarrow> (io_error, bytes) res) option"
  z_zstd :: "(bytes \<Rightarrow> (io_error, bytes) res) option"
  z_snappy :: "(bytes \<Rightarrow> (io_error, bytes) res) option"

text \<open>One attempt to create the producer on the broker: the answers to the request and to the
  second wait for exclusive access, which may never end, and where the topic is when the attempt is
  repeated.\<close>

record create_attempt =
  ca_response :: "pulsar_message awaited"
  ca_exclusive :: "pulsar_message option option"
  ca_relocation :: relocation

record producer_env =
  pe_dbg :: "base_command \<Rightarrow> string"
  pe_wire :: wire
  pe_prost :: "single_message_metadata prost"
  pe_compressors :: compressors
  pe_retry :: OperationRetryOptions
  pe_now :: u64
  pe_response :: "pulsar_message awaited"
  pe_relocation :: relocation
  pe_attempts :: "create_attempt list"
  pe_second_response :: "pulsar_message awaited"

definition on_producer_sender ::
  "(ConnectionSender \<Rightarrow> 'r \<times> ConnectionSender) \<Rightarrow> TopicProducer \<Rightarrow> 'r \<times> TopicProducer" where
  "on_producer_sender f p =
     (case f (conn_sender (tp_connection p)) of
        (r, s) \<Rightarrow> (r, p\<lparr>tp_connection := (tp_connection p)\<lparr>conn_sender := s\<rparr>\<rparr>))"

definition next_sequence_id :: "TopicProducer \<Rightarrow> u64 \<times> TopicProducer" where
  "next_sequence_id p =
     (case serial_id_get (tp_message_id p) of (i, n) \<Rightarrow> (i, p\<lparr>tp_message_id := n\<rparr>))"

subsection \<open>Creation and reconnection\<close>

definition compression_available ::
  "compressors \<Rightarrow> compression_type option \<Rightarrow> (pulsar_error, unit) res" where
  "compression_available Z c =
     (case c of
        None \<Rightarrow> Inr ()
      | Some CNone \<Rightarrow> Inr ()
      | Some Lz4 \<Rightarrow>
          (if z_lz4 Z = None
           then Inl (ECustom ''cannot create a producer with LZ4 compression because the 'lz4' cargo feature is not active'')
           else Inr ())
      | Some Zlib \<Rightarrow>
          (if z_zlib Z = None
           then Inl (ECustom ''cannot create a producer with zlib compression because the 'flate2' cargo feature is not active'')
           else Inr ())
      | Some Zstd \<Rightarrow>
          (if z_zstd Z = None
           then Inl (ECustom ''cannot create a producer with zstd compression because the 'zstd' cargo feature is not active'')
           else Inr ())
      | Some Snappy \<Rightarrow>
          (if z_snappy Z = None
           then Inl (ECustom ''cannot create a producer with Snappy compression because the 'snap' cargo feature is not active'')
           else Inr ()))"

text \<open>The result of the wait for exclusive access is only logged, but there is none before it ends.\<close>

definition create_attempt_on ::
  "(base_command \<Rightarrow> string) \<Rightarrow> string \<Rightarrow> u64 \<Rightarrow> string option \<Rightarrow> ProducerOptions \<Rightarrow> create_attempt
     \<Rightarrow> Connection \<Rightarrow> (connection_error, command_producer_success) res option \<times> Connection" where
  "create_attempt_on dbg topic producer_id name options a c =
     (case sender_create_producer dbg topic producer_id name options (ca_response a) (conn_sender c) of
        (Inl err, s) \<Rightarrow> (Some (Inl err), c\<lparr>conn_sender := s\<rparr>)
      | (Inr ps, s) \<Rightarrow>
          (if psucc_producer_ready ps = Some False then
             (case wait_for_exclusive_access dbg (psucc_request_id ps) (ca_exclusive a) s of
                (None, s) \<Rightarrow> (None, c\<lparr>conn_sender := s\<rparr>)
              | (Some _, s) \<Rightarrow> (Some (Inr ps), c\<lparr>conn_sender := s\<rparr>))
           else (Some (Inr ps), c\<lparr>conn_sender := s\<rparr>)))"

definition create_relocate ::
  "create_attempt \<Rightarrow> Connection \<Rightarrow> (pulsar_error, unit) res option \<times> Connection" where
  "create_relocate a c =
     (case relocate (ca_relocation a) of
        None \<Rightarrow> (None, c)
      | Some (Inl err) \<Rightarrow> (Some (Inl err), c)
      | Some (Inr c) \<Rightarrow> (Some (Inr ()), c))"

definition from_connection ::
  "producer_env \<Rightarrow> Connection \<Rightarrow> string \<Rightarrow> string option \<Rightarrow> ProducerOptions \<Rightarrow> u64
     \<Rightarrow> (pulsar_error, TopicProducer) res option" where
  "from_connection E c topic name options producer_id =
     (case compression_available (pe_compressors E) (po_compression options) of
        Inl err \<Rightarrow> Some (Inl err)
      | Inr _ \<Rightarrow>
          (case retry_loop (op_max_retries (pe_retry E))
                  (create_attempt_on (pe_dbg E) topic producer_id name options)
                  create_relocate 0 (pe_attempts E) c of
             (None, c) \<Rightarrow> None
           | (Some (Inl err), c) \<Rightarrow> Some (Inl err)
           | (Some (Inr ps), c) \<Rightarrow>
               Some (Inr
                 \<lparr>tp_connection = c, tp_id = producer_id, tp_name = psucc_producer_name ps,
                  tp_topic = topic, tp_message_id = 0,
                  tp_batch = map_option batch_new (po_batch_size options),
                  tp_compression = po_compression options, tp_options = options,
                  tp_next_future = 0, tp_resolved = []\<rparr>)))"

text \<open>A producer that reconnects asks for its old name and does not wait for exclusive access.\<close>

definition recreate_attempt ::
  "(base_command \<Rightarrow> string) \<Rightarrow> create_attempt \<Rightarrow> TopicProducer
     \<Rightarrow> (connection_error, command_producer_success) res option \<times> TopicProducer" where
  "recreate_attempt dbg a p =
     (case on_producer_sender
             (sender_create_producer dbg (tp_topic p) (tp_id p) (Some (tp_name p)) (tp_options p)
                (ca_response a)) p of
        (r, p) \<Rightarrow> (Some r, p))"

definition recreate_relocate ::
  "create_attempt \<Rightarrow> TopicProducer \<Rightarrow> (pulsar_error, unit) res option \<times> TopicProducer" where
  "recreate_relocate a p =
     (case relocate (ca_relocation a) of
        None \<Rightarrow> (None, p)
      | Some (Inl err) \<Rightarrow> (Some (Inl err), p)
      | Some (Inr c) \<Rightarrow> (Some (Inr ()), p\<lparr>tp_connection := c\<rparr>))"

definition producer_reconnect ::
  "producer_env \<Rightarrow> TopicProducer \<Rightarrow> (pulsar_error, unit) res option \<times> TopicProducer" where
  "producer_reconnect E p =
     (case relocate (pe_relocation E) of
        None \<Rightarrow> (None, p)
      | Some (Inl err) \<Rightarrow> (Some (Inl err), p)
      | Some (Inr c) \<Rightarrow>
          (case retry_loop (op_max_retries (pe_retry E)) (recreate_attempt (pe_dbg E))
                  recreate_relocate 0 (pe_attempts E) (p\<lparr>tp_connection := c\<rparr>) of
             (None, p) \<Rightarrow> (None, p)
           | (Some (Inl err), p) \<Rightarrow> (Some (Inl err), p)
           | (Some (Inr _), p) \<Rightarrow>
               (Some (Inr ()),
                p\<lparr>tp_batch := map_option batch_new (po_batch_size (tp_options p))\<rparr>)))"

text \<open>The task that is spawned with every creation and reconnection: when the signal it holds is dropped,
  with the producer or because a reconnection replaced it, it closes the producer on the
  connection it was spawned for.\<close>

definition producer_close_task ::
  "(base_command \<Rightarrow> string) \<Rightarrow> u64 \<Rightarrow> pulsar_message awaited \<Rightarrow> Connection \<Rightarrow> Connection" where
  "producer_close_task dbg producer_id response c =
     c\<lparr>conn_sender := snd (sender_close_producer dbg producer_id response (conn_sender c))\<rparr>"

subsection \<open>Sending\<close>

text \<open>Whether \<open>send_inner\<close> tries again after an error of the first send.\<close>

definition retriable :: "connection_error \<Rightarrow> bool" where
  "retriable e =
     (case e of
        Disconnected \<Rightarrow> True
      | Io err \<Rightarrow> io_kind err = TimedOut
      | _ \<Rightarrow> False)"

definition send_once ::
  "producer_env \<Rightarrow> ProducerMessage \<Rightarrow> pulsar_message awaited \<Rightarrow> TopicProducer
     \<Rightarrow> (connection_error, command_send_receipt) res \<times> TopicProducer" where
  "send_once E m response p =
     (case next_sequence_id p of (i, p) \<Rightarrow>
        on_producer_sender
          (sender_send (pe_dbg E) (pe_now E) (tp_id p) (tp_name p) i m response) p)"

definition send_inner ::
  "producer_env \<Rightarrow> ProducerMessage \<Rightarrow> TopicProducer
     \<Rightarrow> (pulsar_error, command_send_receipt) res option \<times> TopicProducer" where
  "send_inner E m p =
     (case send_once E m (pe_response E) p of
        (Inr receipt, p) \<Rightarrow> (Some (Inr receipt), p)
      | (Inl err, p) \<Rightarrow>
          (if \<not> retriable err then (Some (Inl (EProducer (ProdConnection err))), p)
           else
             case producer_reconnect E p of
               (None, p) \<Rightarrow> (None, p)
             | (Some (Inl err), p) \<Rightarrow> (Some (Inl err), p)
             | (Some (Inr _), p) \<Rightarrow>
                 (case send_once E m (pe_second_response E) p of
                    (Inr receipt, p) \<Rightarrow> (Some (Inr receipt), p)
                  | (Inl err, p) \<Rightarrow> (Some (Inl (EProducer (ProdConnection err))), p))))"

definition compress ::
  "compressors \<Rightarrow> compression_type option \<Rightarrow> ProducerMessage
     \<Rightarrow> (pulsar_error, ProducerMessage) res option" where
  "compress Z c m =
     (let run = (\<lambda>z k. map_option (\<lambda>f.
            bind_res (map_err (\<lambda>err. EProducer (ProdIo err)) (f (pm_payload m))) (\<lambda>bs.
              Inr (m\<lparr>pm_uncompressed_size := Some (of_nat (length (pm_payload m))),
                     pm_payload := bs, pm_compression := Some k\<rparr>))) z)
      in
      case c of
        None \<Rightarrow> Some (Inr m)
      | Some CNone \<Rightarrow> Some (Inr m)
      | Some Lz4 \<Rightarrow> run (z_lz4 Z) 1
      | Some Zlib \<Rightarrow> run (z_zlib Z) 2
      | Some Zstd \<Rightarrow> run (z_zstd Z) 3
      | Some Snappy \<Rightarrow> run (z_snappy Z) 4)"

definition send_compress ::
  "producer_env \<Rightarrow> ProducerMessage \<Rightarrow> TopicProducer
     \<Rightarrow> (pulsar_error, command_send_receipt) res option \<times> TopicProducer" where
  "send_compress E m p =
     (case compress (pe_compressors E) (tp_compression p) m of
        None \<Rightarrow> (None, p)
      | Some (Inl err) \<Rightarrow> (Some (Inl err), p)
      | Some (Inr m) \<Rightarrow> send_inner E m p)"

definition resolve :: "nat \<Rightarrow> (pulsar_error, command_send_receipt) res \<Rightarrow> TopicProducer \<Rightarrow> TopicProducer"
where
  "resolve tx r p = p\<lparr>tp_resolved := tp_resolved p @ [(tx, r)]\<rparr>"

text \<open>The message that carries a batch, and the completion of its receipts.\<close>

definition batch_message ::
  "wire \<Rightarrow> single_message_metadata prost \<Rightarrow> BatchedMessage list \<Rightarrow> ProducerMessage" where
  "batch_message W S ms =
     default_producer_message
       \<lparr>pm_payload := fold (serialize W S) ms [],
        pm_num_messages_in_batch := Some (of_nat (length ms))\<rparr>"

definition send_messages ::
  "producer_env \<Rightarrow> (nat \<times> BatchedMessage) list \<Rightarrow> TopicProducer
     \<Rightarrow> unit option \<times> TopicProducer" where
  "send_messages E ms p =
     (case send_compress E (batch_message (pe_wire E) (pe_prost E) (map snd ms)) p of
        (None, p) \<Rightarrow> (None, p)
      | (Some r, p) \<Rightarrow>
          (Some (), fold (\<lambda>tx. resolve tx (map_err (\<lambda>e. EProducer (Batch e)) r)) (map fst ms) p))"

definition send_batch ::
  "producer_env \<Rightarrow> TopicProducer \<Rightarrow> (pulsar_error, unit) res option \<times> TopicProducer" where
  "send_batch E p =
     (case tp_batch p of
        None \<Rightarrow> (Some (Inl (EProducer (ProdCustom ''not a batching producer''))), p)
      | Some b \<Rightarrow>
          (case get_messages b of (ms, b) \<Rightarrow>
             let p = p\<lparr>tp_batch := Some b\<rparr> in
             if length ms = 0 then (Some (Inr ()), p)
             else
               case send_messages E ms p of
                 (None, p) \<Rightarrow> (None, p)
               | (Some _, p) \<Rightarrow> (Some (Inr ()), p)))"

definition send_raw ::
  "producer_env \<Rightarrow> ProducerMessage \<Rightarrow> TopicProducer
     \<Rightarrow> (pulsar_error, nat) res option \<times> TopicProducer" where
  "send_raw E m p =
     (let tx = tp_next_future p; p = p\<lparr>tp_next_future := Suc tx\<rparr> in
      case tp_batch p of
        None \<Rightarrow>
          (case send_compress E m p of
             (None, p) \<Rightarrow> (None, p)
           | (Some (Inl err), p) \<Rightarrow> (Some (Inl err), p)
           | (Some (Inr receipt), p) \<Rightarrow> (Some (Inr tx), resolve tx (Inr receipt) p))
      | Some b \<Rightarrow>
          (let b = push_back (tx, m) b in
           if is_full b then
             (case get_messages b of (ms, b) \<Rightarrow>
                let p = p\<lparr>tp_batch := Some b\<rparr> in
                if length ms > 0 then
                  (case send_messages E ms p of
                     (None, p) \<Rightarrow> (None, p)
                   | (Some _, p) \<Rightarrow> (Some (Inr tx), p))
                else (Some (Inr tx), p))
           else (Some (Inr tx), p\<lparr>tp_batch := Some b\<rparr>)))"

text \<open>\<open>send\<close> gets the result of \<open>serialize_message\<close>, which the application implements.\<close>

definition producer_send ::
  "producer_env \<Rightarrow> (pulsar_error, ProdMessage) res \<Rightarrow> TopicProducer
     \<Rightarrow> (pulsar_error, nat) res option \<times> TopicProducer" where
  "producer_send E serialized p =
     (case serialized of
        Inr m \<Rightarrow> send_raw E (producer_message_from m) p
      | Inl err \<Rightarrow> (Some (Inl err), p))"

definition producer_check_connection ::
  "unit awaited \<Rightarrow> TopicProducer \<Rightarrow> (pulsar_error, unit) res \<times> TopicProducer" where
  "producer_check_connection answer p =
     (case on_producer_sender (send_ping answer) p of (r, p) \<Rightarrow> (map_err EConnection r, p))"

section \<open>Partitions\<close>

record PartitionedProducer =
  pp_producers :: "TopicProducer list"
  pp_topic :: string
  pp_options :: ProducerOptions

text \<open>\<open>next\<close> rotates the queue to the left and takes its front; the queue is never empty.\<close>

definition partition_next :: "PartitionedProducer \<Rightarrow> PartitionedProducer" where
  "partition_next p = p\<lparr>pp_producers := rotate1 (pp_producers p)\<rparr>"

datatype ProducerInner = Single TopicProducer | Partitioned PartitionedProducer

text \<open>Runs an operation on the producer that is next in turn and puts its new state back.\<close>

definition on_next ::
  "(TopicProducer \<Rightarrow> 'r \<times> TopicProducer) \<Rightarrow> ProducerInner \<Rightarrow> 'r option \<times> ProducerInner" where
  "on_next f i =
     (case i of
        Single p \<Rightarrow> (case f p of (r, p) \<Rightarrow> (Some r, Single p))
      | Partitioned q \<Rightarrow>
          (let q = partition_next q in
           case pp_producers q of
             [] \<Rightarrow> (None, Partitioned q)
           | p # ps \<Rightarrow>
               (case f p of (r, p) \<Rightarrow> (Some r, Partitioned (q\<lparr>pp_producers := p # ps\<rparr>)))))"

definition producer_topic :: "ProducerInner \<Rightarrow> string" where
  "producer_topic i = (case i of Single p \<Rightarrow> tp_topic p | Partitioned q \<Rightarrow> pp_topic q)"

definition producer_partitions :: "ProducerInner \<Rightarrow> string list option" where
  "producer_partitions i =
     (case i of Single p \<Rightarrow> None | Partitioned q \<Rightarrow> Some (map tp_topic (pp_producers q)))"

definition inner_send ::
  "producer_env \<Rightarrow> (pulsar_error, ProdMessage) res \<Rightarrow> ProducerInner
     \<Rightarrow> (pulsar_error, nat) res option option \<times> ProducerInner" where
  "inner_send E serialized i = on_next (producer_send E serialized) i"

definition inner_send_raw ::
  "producer_env \<Rightarrow> ProducerMessage \<Rightarrow> ProducerInner
     \<Rightarrow> (pulsar_error, nat) res option option \<times> ProducerInner" where
  "inner_send_raw E m i = on_next (send_raw E m) i"

text \<open>Sending one message after the other on one producer; each message brings what the environment
  answers while it is sent.\<close>

fun send_each ::
  "(producer_env \<times> (pulsar_error, ProdMessage) res) list \<Rightarrow> TopicProducer
     \<Rightarrow> (pulsar_error, nat) res list option \<times> TopicProducer" where
  "send_each [] p = (Some [], p)"
| "send_each ((E, m) # ms) p =
     (case producer_send E m p of
        (None, p) \<Rightarrow> (None, p)
      | (Some r, p) \<Rightarrow>
          (case send_each ms p of
             (None, p) \<Rightarrow> (None, p)
           | (Some rs, p) \<Rightarrow> (Some (r # rs), p)))"

definition collect_sends :: "(pulsar_error, nat) res list \<Rightarrow> (pulsar_error, nat list) res" where
  "collect_sends sends =
     (if list_all is_ok sends then Inr (map projr sends)
      else Inl (EProducer (PartialSend sends)))"

definition send_all ::
  "(producer_env \<times> (pulsar_error, ProdMessage) res) list \<Rightarrow> ProducerInner
     \<Rightarrow> (pulsar_error, nat list) res option option \<times> ProducerInner" where
  "send_all ms i =
     on_next (\<lambda>p. case send_each ms p of (rs, p) \<Rightarrow> (map_option collect_sends rs, p)) i"

definition inner_send_batch ::
  "(TopicProducer \<Rightarrow> producer_env) \<Rightarrow> ProducerInner
     \<Rightarrow> (pulsar_error, unit) res option \<times> ProducerInner" where
  "inner_send_batch E i =
     (case i of
        Single p \<Rightarrow> (case send_batch (E p) p of (r, p) \<Rightarrow> (r, Single p))
      | Partitioned q \<Rightarrow>
          (let rs = map (\<lambda>p. send_batch (E p) p) (pp_producers q) in
           (map_option (\<lambda>r. bind_res r (\<lambda>_. Inr ())) (try_join_all (map fst rs)),
            Partitioned (q\<lparr>pp_producers := map snd rs\<rparr>))))"

section \<open>Builder\<close>

record ProducerBuilder =
  pb_topic :: "string option"
  pb_name :: "string option"
  pb_options :: "ProducerOptions option"

definition producer_builder_new :: ProducerBuilder where
  "producer_builder_new = \<lparr>pb_topic = None, pb_name = None, pb_options = None\<rparr>"

definition pb_with_topic :: "string \<Rightarrow> ProducerBuilder \<Rightarrow> ProducerBuilder" where
  "pb_with_topic t b = b\<lparr>pb_topic := Some t\<rparr>"

definition pb_with_name :: "string \<Rightarrow> ProducerBuilder \<Rightarrow> ProducerBuilder" where
  "pb_with_name n b = b\<lparr>pb_name := Some n\<rparr>"

definition pb_with_options :: "ProducerOptions \<Rightarrow> ProducerBuilder \<Rightarrow> ProducerBuilder" where
  "pb_with_options o' b = b\<lparr>pb_options := Some o'\<rparr>"

definition producer_options_default :: ProducerOptions where
  "producer_options_default =
     \<lparr>po_encrypted = None, po_metadata = [], po_schema = None, po_batch_size = None,
      po_compression = None, po_access_mode = None\<rparr>"

text \<open>
  What building meets: the partitions the lookup returns, and for each of them the connection and
  the environment of its creation, with the random number of the producer. The lookup may panic or
  not end, and so may the search for a connection (\<open>None\<close>).
\<close>

record build_env =
  be_partitions :: "string \<Rightarrow> (pulsar_error, (string \<times> BrokerAddress) list) res option"
  be_connection :: "BrokerAddress \<Rightarrow> (connection_error, Connection) res option"
  be_producer :: "string \<Rightarrow> producer_env"
  be_producer_id :: "string \<Rightarrow> u64"

definition build_partition ::
  "build_env \<Rightarrow> string option \<Rightarrow> ProducerOptions \<Rightarrow> string \<times> BrokerAddress
     \<Rightarrow> (pulsar_error, TopicProducer) res option" where
  "build_partition B name options part =
     (case part of (topic, address) \<Rightarrow>
        (case be_connection B address of
           None \<Rightarrow> None
         | Some (Inl err) \<Rightarrow> Some (Inl (EConnection err))
         | Some (Inr c) \<Rightarrow>
             from_connection (be_producer B topic) c topic name options (be_producer_id B topic)))"

definition rotate_right :: "'a list \<Rightarrow> 'a list" where
  "rotate_right xs = (if xs = [] then [] else last xs # butlast xs)"

definition producer_build ::
  "build_env \<Rightarrow> ProducerBuilder \<Rightarrow> (pulsar_error, ProducerInner) res option" where
  "producer_build B b =
     (case pb_topic b of
        None \<Rightarrow> Some (Inl (ECustom ''topic not set''))
      | Some topic \<Rightarrow>
          (let options = (case pb_options b of None \<Rightarrow> producer_options_default | Some o' \<Rightarrow> o') in
           case be_partitions B topic of
             None \<Rightarrow> None
           | Some (Inl err) \<Rightarrow> Some (Inl err)
           | Some (Inr parts) \<Rightarrow>
               (case try_join_all (map (build_partition B (pb_name b) options) parts) of
                  None \<Rightarrow> None
                | Some (Inl err) \<Rightarrow> Some (Inl err)
                | Some (Inr []) \<Rightarrow>
                    Some (Inl (ECustom
                      (''Unexpected error: Partition lookup returned no topics for '' @ topic)))
                | Some (Inr [p]) \<Rightarrow> Some (Inr (Single p))
                | Some (Inr producers) \<Rightarrow>
                    Some (Inr (Partitioned
                      \<lparr>pp_producers = rotate_right producers, pp_topic = topic,
                       pp_options = options\<rparr>)))))"

section \<open>Many topics\<close>

record MultiTopicProducer =
  mtp_producers :: "string \<rightharpoonup> ProducerInner"
  mtp_options :: ProducerOptions
  mtp_name :: "string option"

definition build_multi_topic :: "ProducerBuilder \<Rightarrow> MultiTopicProducer" where
  "build_multi_topic b =
     \<lparr>mtp_producers = Map.empty,
      mtp_options = (case pb_options b of None \<Rightarrow> producer_options_default | Some o' \<Rightarrow> o'),
      mtp_name = pb_name b\<rparr>"

definition mtp_close_producer ::
  "(pulsar_error, (string \<times> BrokerAddress) list) res \<Rightarrow> MultiTopicProducer
     \<Rightarrow> (pulsar_error, unit) res \<times> MultiTopicProducer" where
  "mtp_close_producer partitions p =
     (case partitions of
        Inl err \<Rightarrow> (Inl err, p)
      | Inr parts \<Rightarrow>
          (Inr (), p\<lparr>mtp_producers :=
             fold (\<lambda>(topic, _) m. m(topic := None)) parts (mtp_producers p)\<rparr>))"

definition mtp_send ::
  "build_env \<Rightarrow> producer_env \<Rightarrow> string \<Rightarrow> (pulsar_error, ProdMessage) res \<Rightarrow> MultiTopicProducer
     \<Rightarrow> (pulsar_error, nat) res option option \<times> MultiTopicProducer" where
  "mtp_send B E topic serialized p =
     (case serialized of
        Inl err \<Rightarrow> (Some (Some (Inl err)), p)
      | Inr m \<Rightarrow>
          (let built =
             (case mtp_producers p topic of
                Some i \<Rightarrow> Some (Inr i)
              | None \<Rightarrow>
                  (let b = pb_with_options (mtp_options p) (pb_with_topic topic producer_builder_new);
                       b = (case mtp_name p of None \<Rightarrow> b | Some n \<Rightarrow> pb_with_name n b)
                   in producer_build B b))
           in
           case built of
             None \<Rightarrow> (Some None, p)
           | Some (Inl err) \<Rightarrow> (Some (Some (Inl err)), p)
           | Some (Inr i) \<Rightarrow>
               (case inner_send E (Inr m) i of
                  (r, i) \<Rightarrow> (r, p\<lparr>mtp_producers := (mtp_producers p)(topic \<mapsto> i)\<rparr>))))"

fun mtp_send_each ::
  "string \<Rightarrow> (build_env \<times> producer_env \<times> (pulsar_error, ProdMessage) res) list \<Rightarrow> MultiTopicProducer
     \<Rightarrow> (pulsar_error, nat) res list option \<times> MultiTopicProducer" where
  "mtp_send_each topic [] p = (Some [], p)"
| "mtp_send_each topic ((B, E, m) # ms) p =
     (case mtp_send B E topic m p of
        (Some (Some r), p) \<Rightarrow>
          (case mtp_send_each topic ms p of
             (None, p) \<Rightarrow> (None, p)
           | (Some rs, p) \<Rightarrow> (Some (r # rs), p))
      | (_, p) \<Rightarrow> (None, p))"

definition mtp_send_all ::
  "string \<Rightarrow> (build_env \<times> producer_env \<times> (pulsar_error, ProdMessage) res) list \<Rightarrow> MultiTopicProducer
     \<Rightarrow> (pulsar_error, nat list) res option \<times> MultiTopicProducer" where
  "mtp_send_all topic ms p =
     (case mtp_send_each topic ms p of (rs, p) \<Rightarrow> (map_option collect_sends rs, p))"

section \<open>Message builder\<close>

record 'c MessageBuilder =
  mb_properties :: "key_value list"
  mb_partition_key :: "string option"
  mb_ordering_key :: "bytes option"
  mb_deliver_at_time :: "i64 option"
  mb_event_time :: "u64 option"
  mb_content :: 'c

definition message_builder_new :: "unit MessageBuilder" where
  "message_builder_new =
     \<lparr>mb_properties = [], mb_partition_key = None, mb_ordering_key = None,
      mb_deliver_at_time = None, mb_event_time = None, mb_content = ()\<rparr>"

definition mb_with_content :: "'d \<Rightarrow> 'c MessageBuilder \<Rightarrow> 'd MessageBuilder" where
  "mb_with_content c b =
     \<lparr>mb_properties = mb_properties b, mb_partition_key = mb_partition_key b,
      mb_ordering_key = mb_ordering_key b, mb_deliver_at_time = mb_deliver_at_time b,
      mb_event_time = mb_event_time b, mb_content = c\<rparr>"

definition mb_with_partition_key :: "string \<Rightarrow> 'c MessageBuilder \<Rightarrow> 'c MessageBuilder" where
  "mb_with_partition_key k b = b\<lparr>mb_partition_key := Some k\<rparr>"

definition mb_with_ordering_key :: "string \<Rightarrow> 'c MessageBuilder \<Rightarrow> 'c MessageBuilder" where
  "mb_with_ordering_key k b = b\<lparr>mb_partition_key := Some k\<rparr>"

definition mb_with_key :: "string \<Rightarrow> 'c MessageBuilder \<Rightarrow> 'c MessageBuilder" where
  "mb_with_key k b = b\<lparr>mb_partition_key := Some k\<rparr>"

definition mb_with_property :: "string \<Rightarrow> string \<Rightarrow> 'c MessageBuilder \<Rightarrow> 'c MessageBuilder" where
  "mb_with_property k v b = b\<lparr>mb_properties := AList.update k v (mb_properties b)\<rparr>"

text \<open>Dates are milliseconds since the epoch; one before it is an error.\<close>

definition mb_deliver_at :: "int \<Rightarrow> 'c MessageBuilder \<Rightarrow> (unit, 'c MessageBuilder) res" where
  "mb_deliver_at date b =
     (if date < 0 then Inl () else Inr (b\<lparr>mb_deliver_at_time := Some (of_int date)\<rparr>))"

definition mb_delay :: "int \<Rightarrow> nat \<Rightarrow> 'c MessageBuilder \<Rightarrow> (unit, 'c MessageBuilder) res" where
  "mb_delay now d b =
     (if now < 0 then Inl ()
      else if now + int d < 0 then Inl ()
      else Inr (b\<lparr>mb_deliver_at_time := Some (of_int (now + int d))\<rparr>))"

definition mb_event_time_at :: "u64 \<Rightarrow> 'c MessageBuilder \<Rightarrow> 'c MessageBuilder" where
  "mb_event_time_at t b = b\<lparr>mb_event_time := Some t\<rparr>"

definition mb_message :: "'c MessageBuilder \<Rightarrow> ProdMessage \<Rightarrow> ProducerMessage" where
  "mb_message b m =
     (producer_message_from
        (m\<lparr>m_properties := mb_properties b, m_partition_key := mb_partition_key b,
           m_ordering_key := mb_ordering_key b, m_event_time := mb_event_time b\<rparr>))
       \<lparr>pm_deliver_at_time := mb_deliver_at_time b\<rparr>"

definition mb_send ::
  "producer_env \<Rightarrow> ('c \<Rightarrow> (pulsar_error, ProdMessage) res) \<Rightarrow> 'c MessageBuilder \<Rightarrow> ProducerInner
     \<Rightarrow> (pulsar_error, nat) res option option \<times> ProducerInner" where
  "mb_send E serialize_message b i =
     (case serialize_message (mb_content b) of
        Inl err \<Rightarrow> (Some (Some (Inl err)), i)
      | Inr m \<Rightarrow> inner_send_raw E (mb_message b m) i)"

section \<open>What sending leaves alone\<close>

text \<open>The part of a producer that only \<open>send_raw\<close> and \<open>send_batch\<close> themselves change.\<close>

definition same_futures :: "TopicProducer \<Rightarrow> TopicProducer \<Rightarrow> bool" where
  "same_futures p p' \<longleftrightarrow>
     tp_resolved p' = tp_resolved p \<and> tp_next_future p' = tp_next_future p \<and>
     tp_options p' = tp_options p \<and> tp_compression p' = tp_compression p \<and>
     tp_id p' = tp_id p \<and> tp_name p' = tp_name p \<and> tp_topic p' = tp_topic p"

lemma same_futures_refl [simp]: "same_futures p p"
  by (simp add: same_futures_def)

lemma same_futures_trans: "same_futures a b \<Longrightarrow> same_futures b c \<Longrightarrow> same_futures a c"
  by (simp add: same_futures_def)

lemma same_futures_updates [simp]:
  "same_futures a (p\<lparr>tp_connection := c\<rparr>) = same_futures a p"
  "same_futures a (p\<lparr>tp_message_id := i\<rparr>) = same_futures a p"
  "same_futures a (p\<lparr>tp_batch := b\<rparr>) = same_futures a p"
  by (simp_all add: same_futures_def)

lemma on_producer_sender_futures:
  "on_producer_sender f p = (r, p') \<Longrightarrow> same_futures p p' \<and> tp_batch p' = tp_batch p \<and> tp_message_id p' = tp_message_id p"
  by (auto simp: on_producer_sender_def split: prod.splits)

lemma send_once_futures:
  "send_once E m w p = (r, p') \<Longrightarrow> same_futures p p' \<and> tp_batch p' = tp_batch p"
  by (auto simp: send_once_def next_sequence_id_def serial_id_get_def split: prod.splits
      dest!: on_producer_sender_futures intro: same_futures_trans simp: same_futures_def)

lemma recreate_attempt_futures:
  "recreate_attempt dbg a p = (r, p') \<Longrightarrow> same_futures p p' \<and> tp_batch p' = tp_batch p \<and> tp_message_id p' = tp_message_id p"
  by (auto simp: recreate_attempt_def dest: on_producer_sender_futures split: prod.splits)

lemma recreate_relocate_futures:
  "recreate_relocate a p = (r, p') \<Longrightarrow> same_futures p p' \<and> tp_batch p' = tp_batch p \<and> tp_message_id p' = tp_message_id p"
  by (auto simp: recreate_relocate_def split: option.splits sum.splits)

lemma producer_reconnect_futures:
  assumes "producer_reconnect E p = (r, p')"
  shows "same_futures p p' \<and> tp_message_id p' = tp_message_id p \<and>
    (tp_batch p' = tp_batch p \<or> tp_batch p' = map_option batch_new (po_batch_size (tp_options p)))"
proof (cases "\<exists>c. relocate (pe_relocation E) = Some (Inr c)")
  case False
  with assms show ?thesis by (auto simp: producer_reconnect_def split: option.splits sum.splits)
next
  case True
  then obtain c where Inr: "relocate (pe_relocation E) = Some (Inr c)" by blast
  let ?I = "\<lambda>q. same_futures p q \<and> tp_batch q = tp_batch p \<and> tp_message_id q = tp_message_id p"
  obtain r1 p1 where l: "retry_loop (op_max_retries (pe_retry E)) (recreate_attempt (pe_dbg E))
      recreate_relocate 0 (pe_attempts E) (p\<lparr>tp_connection := c\<rparr>) = (r1, p1)"
    by fastforce
  have "?I p1"
  proof (rule retry_loop_preserves [where I = ?I, OF _ _ _ l])
    show "?I (p\<lparr>tp_connection := c\<rparr>)" by simp
    show "?I s'" if "?I s" "recreate_attempt (pe_dbg E) a s = (r, s')" for a s r s'
      using that recreate_attempt_futures [OF that(2)] same_futures_trans by metis
    show "?I s'" if "?I s" "recreate_relocate a s = (r, s')" for a s r s'
      using that recreate_relocate_futures [OF that(2)] same_futures_trans by metis
  qed
  with assms Inr l show ?thesis
    by (auto simp: producer_reconnect_def same_futures_def split: option.splits sum.splits)
qed

lemma send_inner_futures:
  assumes "send_inner E m p = (r, p')"
  shows "same_futures p p' \<and>
    (tp_batch p' = tp_batch p \<or> tp_batch p' = map_option batch_new (po_batch_size (tp_options p)))"
proof -
  obtain r1 p1 where o1: "send_once E m (pe_response E) p = (r1, p1)" by fastforce
  obtain r2 p2 where rc: "producer_reconnect E p1 = (r2, p2)" by fastforce
  obtain r3 p3 where o2: "send_once E m (pe_second_response E) p2 = (r3, p3)" by fastforce
  note f1 = send_once_futures [OF o1] and f2 = producer_reconnect_futures [OF rc]
    and f3 = send_once_futures [OF o2]
  have same: "same_futures p p1" "same_futures p p2" "same_futures p p3"
    using f1 f2 f3 same_futures_trans by metis+
  have opts: "tp_options p1 = tp_options p" using same(1) by (simp add: same_futures_def)
  have "p' \<in> {p1, p2, p3}"
    using assms o1 rc o2 by (auto simp: send_inner_def split: sum.splits option.splits if_splits)
  then consider "p' = p1" | "p' = p2" | "p' = p3" by blast
  then show ?thesis by cases (use f1 f2 f3 same opts in simp_all)
qed

lemma send_compress_futures:
  assumes "send_compress E m p = (r, p')"
  shows "same_futures p p' \<and>
    (tp_batch p' = tp_batch p \<or> tp_batch p' = map_option batch_new (po_batch_size (tp_options p)))"
  using assms
  by (auto simp: send_compress_def split: option.splits sum.splits dest!: send_inner_futures)

section \<open>Futures of a batching producer\<close>

definition storage :: "TopicProducer \<Rightarrow> (nat \<times> BatchedMessage) list" where
  "storage p = (case tp_batch p of None \<Rightarrow> [] | Some b \<Rightarrow> batch_storage b)"

definition batching :: "TopicProducer \<Rightarrow> bool" where
  "batching p \<longleftrightarrow>
     (\<exists>n st. po_batch_size (tp_options p) = Some n \<and>
        tp_batch p = Some \<lparr>batch_length = n, batch_storage = st\<rparr>)"

text \<open>Every future handed out is either completed, once and in order, or waits in the batch.\<close>

definition futures_inv :: "TopicProducer \<Rightarrow> bool" where
  "futures_inv p \<longleftrightarrow>
     batching p \<and> map fst (tp_resolved p) @ map fst (storage p) = [0..<tp_next_future p]"

lemma fold_resolve [simp]:
  "tp_resolved (fold (\<lambda>tx. resolve tx r) txs p) = tp_resolved p @ map (\<lambda>tx. (tx, r)) txs"
  "tp_next_future (fold (\<lambda>tx. resolve tx r) txs p) = tp_next_future p"
  "tp_batch (fold (\<lambda>tx. resolve tx r) txs p) = tp_batch p"
  "tp_options (fold (\<lambda>tx. resolve tx r) txs p) = tp_options p"
  "tp_connection (fold (\<lambda>tx. resolve tx r) txs p) = tp_connection p"
  "tp_message_id (fold (\<lambda>tx. resolve tx r) txs p) = tp_message_id p"
  "tp_id (fold (\<lambda>tx. resolve tx r) txs p) = tp_id p"
  "tp_name (fold (\<lambda>tx. resolve tx r) txs p) = tp_name p"
  "tp_compression (fold (\<lambda>tx. resolve tx r) txs p) = tp_compression p"
  by (induction txs arbitrary: p) (simp_all add: resolve_def)

lemma send_messages_empties:
  assumes "send_messages E ms p = (Some u, p')" and "batching p" and "storage p = []"
  shows "batching p' \<and> storage p' = [] \<and> tp_next_future p' = tp_next_future p \<and>
    map fst (tp_resolved p') = map fst (tp_resolved p) @ map fst ms"
proof -
  obtain r p1 where s: "send_compress E (batch_message (pe_wire E) (pe_prost E) (map snd ms)) p =
      (Some r, p1)"
    using assms(1) by (auto simp: send_messages_def split: prod.splits option.splits)
  from assms(2) obtain n st where n: "po_batch_size (tp_options p) = Some n"
    "tp_batch p = Some \<lparr>batch_length = n, batch_storage = st\<rparr>"
    by (auto simp: batching_def)
  with assms(3) have "st = []" by (simp add: storage_def)
  with send_compress_futures [OF s] n have "tp_batch p1 = Some \<lparr>batch_length = n, batch_storage = []\<rparr>"
    "same_futures p p1"
    by (auto simp: batch_new_def)
  moreover have "p' = fold (\<lambda>tx. resolve tx (map_err (\<lambda>e. EProducer (Batch e)) r)) (map fst ms) p1"
    using assms(1) s by (simp add: send_messages_def)
  ultimately show ?thesis
    using n by (simp add: batching_def storage_def same_futures_def comp_def)
qed

lemma send_raw_futures:
  assumes "send_raw E m p = (Some r, p')" and "futures_inv p"
  shows "futures_inv p' \<and> r = Inr (tp_next_future p) \<and> tp_next_future p' = Suc (tp_next_future p)"
proof -
  from assms(2) obtain n st where n: "po_batch_size (tp_options p) = Some n"
    "tp_batch p = Some \<lparr>batch_length = n, batch_storage = st\<rparr>"
    and fut: "map fst (tp_resolved p) @ map fst st = [0..<tp_next_future p]"
    by (auto simp: futures_inv_def batching_def storage_def)
  let ?st = "st @ [(tp_next_future p, batched m)]"
  let ?q = "p\<lparr>tp_next_future := Suc (tp_next_future p), tp_batch := Some \<lparr>batch_length = n, batch_storage = []\<rparr>\<rparr>"
  show ?thesis
  proof (cases "unat n \<le> length ?st")
    case False
    with assms(1) n fut show ?thesis
      by (auto simp: send_raw_def Let_def push_back_def is_full_def futures_inv_def batching_def
          storage_def)
  next
    case True
    have "send_messages E ?st ?q = (Some (), p') \<and> r = Inr (tp_next_future p)"
      using assms(1) n True
      by (auto simp: send_raw_def Let_def push_back_def is_full_def get_messages_def
          split: prod.splits option.splits)
    moreover have "batching ?q" "storage ?q = []"
      using n by (simp_all add: batching_def storage_def)
    ultimately have "batching p'" "storage p' = []" "tp_next_future p' = Suc (tp_next_future p)"
      "map fst (tp_resolved p') = map fst (tp_resolved p) @ map fst ?st" "r = Inr (tp_next_future p)"
      using send_messages_empties [of E ?st ?q "()" p'] by simp_all
    with fut show ?thesis by (simp add: futures_inv_def)
  qed
qed

lemma send_batch_futures:
  assumes "send_batch E p = (Some r, p')" and "futures_inv p"
  shows "futures_inv p' \<and> storage p' = [] \<and> r = Inr () \<and> tp_next_future p' = tp_next_future p"
proof -
  from assms(2) obtain n st where n: "po_batch_size (tp_options p) = Some n"
    "tp_batch p = Some \<lparr>batch_length = n, batch_storage = st\<rparr>"
    and fut: "map fst (tp_resolved p) @ map fst st = [0..<tp_next_future p]"
    by (auto simp: futures_inv_def batching_def storage_def)
  let ?q = "p\<lparr>tp_batch := Some \<lparr>batch_length = n, batch_storage = []\<rparr>\<rparr>"
  have q: "batching ?q" "storage ?q = []" using n by (simp_all add: batching_def storage_def)
  show ?thesis
  proof (cases "st = []")
    case True
    with assms(1) n fut show ?thesis
      by (auto simp: send_batch_def get_messages_def Let_def futures_inv_def batching_def storage_def)
  next
    case False
    then have "send_messages E st ?q = (Some (), p') \<and> r = Inr ()"
      using assms(1) n
      by (auto simp: send_batch_def get_messages_def Let_def split: prod.splits option.splits)
    with send_messages_empties [of E st ?q "()" p'] q fut show ?thesis
      by (simp add: futures_inv_def)
  qed
qed

section \<open>Batches in order\<close>

definition producer_tx :: "TopicProducer \<Rightarrow> pulsar_message list" where
  "producer_tx p = cs_tx (conn_sender (tp_connection p))"

definition sent_data :: "pulsar_message \<Rightarrow> bytes" where
  "sent_data m = (case payload m of None \<Rightarrow> [] | Some pl \<Rightarrow> data pl)"

text \<open>The broker accepts the message and the connection is usable.\<close>

definition accepted :: "producer_env \<Rightarrow> bool" where
  "accepted E =
     (case pe_response E of
        Answered r \<Rightarrow> error (command r) = None \<and> send_receipt (command r) \<noteq> None
      | _ \<Rightarrow> False)"

definition usable :: "TopicProducer \<Rightarrow> bool" where
  "usable p \<longleftrightarrow> channels_open (conn_sender (tp_connection p)) \<and> tp_compression p = None"

definition send_raws :: "(producer_env \<times> ProducerMessage) list \<Rightarrow> TopicProducer \<Rightarrow> TopicProducer" where
  "send_raws ms p = fold (\<lambda>(E, m) p. snd (send_raw E m p)) ms p"

lemma send_once_accepted:
  assumes "usable p" and "pe_response E = Answered r" and "error (command r) = None"
    and "send_receipt (command r) = Some rc"
  obtains p1 where "send_once E m (pe_response E) p = (Inr rc, p1)"
    "producer_tx p1 = producer_tx p @
       [messages_send (pe_now E) (tp_id p) (tp_name p) (tp_message_id p) m]"
    "usable p1" "tp_message_id p1 = tp_message_id p + 1" "same_futures p p1" "tp_batch p1 = tp_batch p"
proof -
  obtain s1 where s: "sender_send (pe_dbg E) (pe_now E) (tp_id p) (tp_name p) (tp_message_id p) m
      (pe_response E) (conn_sender (tp_connection p)) = (Inr rc, s1)"
    "cs_tx s1 = producer_tx p @ [messages_send (pe_now E) (tp_id p) (tp_name p) (tp_message_id p) m]"
    "channels_open s1"
    using assms
    by (auto simp: sender_send_def send_message_def open_channel_def registrations_send_def
        tx_send_def extract_message_def usable_def channels_open_def producer_tx_def)
  let ?p1 = "p\<lparr>tp_message_id := tp_message_id p + 1,
    tp_connection := (tp_connection p)\<lparr>conn_sender := s1\<rparr>\<rparr>"
  have "send_once E m (pe_response E) p = (Inr rc, ?p1)"
    using s(1) by (simp add: send_once_def next_sequence_id_def serial_id_get_def on_producer_sender_def)
  with s assms(1) show thesis
    by (intro that [of ?p1]) (simp_all add: producer_tx_def usable_def)
qed

lemma send_messages_accepted:
  assumes "usable p" and "accepted E"
  obtains p1 where "send_messages E ms p = (Some (), p1)" "usable p1" "tp_batch p1 = tp_batch p"
    "tp_options p1 = tp_options p"
    "map sent_data (producer_tx p1) = map sent_data (producer_tx p) @
       [fold (serialize (pe_wire E) (pe_prost E)) (map snd ms) []]"
proof -
  let ?m = "batch_message (pe_wire E) (pe_prost E) (map snd ms)"
  from assms(2) obtain r rc where r: "pe_response E = Answered r" "error (command r) = None"
    "send_receipt (command r) = Some rc"
    by (auto simp: accepted_def split: awaited.splits)
  obtain p1 where p1: "send_once E ?m (pe_response E) p = (Inr rc, p1)"
    "producer_tx p1 = producer_tx p @
       [messages_send (pe_now E) (tp_id p) (tp_name p) (tp_message_id p) ?m]"
    "usable p1" "same_futures p p1" "tp_batch p1 = tp_batch p"
    using send_once_accepted [OF assms(1) r, of ?m] by metis
  let ?p2 = "fold (\<lambda>tx. resolve tx (Inr rc)) (map fst ms) p1"
  have "send_compress E ?m p = (Some (Inr rc), p1)"
    using assms(1) p1(1) by (simp add: send_compress_def compress_def usable_def send_inner_def)
  then have "send_messages E ms p = (Some (), ?p2)"
    by (simp add: send_messages_def)
  moreover have "usable ?p2" "producer_tx ?p2 = producer_tx p1"
    using p1(3) by (simp_all add: usable_def producer_tx_def)
  moreover have "sent_data (messages_send (pe_now E) (tp_id p) (tp_name p) (tp_message_id p) ?m) =
      fold (serialize (pe_wire E) (pe_prost E)) (map snd ms) []"
    by (simp add: sent_data_def messages_send_def batch_message_def)
  ultimately show thesis
    using p1(2,4,5) by (intro that [of ?p2]) (simp_all add: same_futures_def)
qed

text \<open>How the messages given to a batching producer are grouped.\<close>

definition grouped ::
  "wire \<Rightarrow> single_message_metadata prost \<Rightarrow> nat \<Rightarrow> BatchedMessage list \<Rightarrow> bytes list
     \<Rightarrow> BatchedMessage list \<Rightarrow> bool" where
  "grouped W S n ms payloads rest \<longleftrightarrow>
     (\<exists>groups. ms = concat groups @ rest \<and> (\<forall>g \<in> set groups. length g = max 1 n) \<and>
        length rest < max 1 n \<and> payloads = map (\<lambda>g. fold (serialize W S) g []) groups)"

lemma grouped_start: "grouped W S n [] [] []"
  by (simp add: grouped_def)

lemma grouped_keep:
  "grouped W S n ms ps rest \<Longrightarrow> length rest + 1 < n \<Longrightarrow> grouped W S n (ms @ [m]) ps (rest @ [m])"
  by (auto simp: grouped_def)

lemma grouped_flush:
  assumes "grouped W S n ms ps rest" and "n \<le> length rest + 1"
  shows "grouped W S n (ms @ [m]) (ps @ [fold (serialize W S) (rest @ [m]) []]) []"
proof -
  from assms(1) obtain groups where g: "ms = concat groups @ rest"
    "\<forall>g \<in> set groups. length g = max 1 n" "length rest < max 1 n"
    "ps = map (\<lambda>g. fold (serialize W S) g []) groups"
    by (auto simp: grouped_def)
  with assms(2) show ?thesis
    unfolding grouped_def by (intro exI [of _ "groups @ [rest @ [m]]"]) auto
qed

lemma send_raw_grouped:
  assumes "usable p" and "batching p" and "accepted E" and "pe_wire E = W" and "pe_prost E = S"
    and "po_batch_size (tp_options p) = Some n"
    and "map sent_data (producer_tx p) = old @ payloads"
    and "grouped W S (unat n) ms payloads (map snd (storage p))"
  shows "\<exists>payloads'. usable (snd (send_raw E m p)) \<and> batching (snd (send_raw E m p)) \<and>
    tp_options (snd (send_raw E m p)) = tp_options p \<and>
    map sent_data (producer_tx (snd (send_raw E m p))) = old @ payloads' \<and>
    grouped W S (unat n) (ms @ [batched m]) payloads' (map snd (storage (snd (send_raw E m p))))"
proof -
  from assms(2,6) obtain st where st: "tp_batch p = Some \<lparr>batch_length = n, batch_storage = st\<rparr>"
    by (auto simp: batching_def)
  let ?st = "st @ [(tp_next_future p, batched m)]"
  let ?q = "p\<lparr>tp_next_future := Suc (tp_next_future p), tp_batch := Some \<lparr>batch_length = n, batch_storage = []\<rparr>\<rparr>"
  show ?thesis
  proof (cases "unat n \<le> length ?st")
    case False
    then have "snd (send_raw E m p) = p\<lparr>tp_next_future := Suc (tp_next_future p),
        tp_batch := Some \<lparr>batch_length = n, batch_storage = ?st\<rparr>\<rparr>"
      using st by (simp add: send_raw_def Let_def push_back_def is_full_def)
    moreover have "grouped W S (unat n) (ms @ [batched m]) payloads (map snd st @ [batched m])"
      using assms(8) st False by (intro grouped_keep) (simp_all add: storage_def)
    ultimately show ?thesis
      using assms(1,6,7) by (auto simp: usable_def batching_def producer_tx_def storage_def)
  next
    case True
    have "usable ?q" using assms(1) by (simp add: usable_def)
    then obtain p1 where p1: "send_messages E ?st ?q = (Some (), p1)" "usable p1"
      "tp_batch p1 = Some \<lparr>batch_length = n, batch_storage = []\<rparr>" "tp_options p1 = tp_options p"
      "map sent_data (producer_tx p1) = map sent_data (producer_tx p) @
         [fold (serialize W S) (map snd ?st) []]"
      using send_messages_accepted [OF _ assms(3), of ?q ?st] assms(4,5)
      by (force simp: producer_tx_def)
    have "snd (send_raw E m p) = p1"
      using p1(1) st True
      by (simp add: send_raw_def Let_def push_back_def is_full_def get_messages_def)
    moreover have "grouped W S (unat n) (ms @ [batched m])
        (payloads @ [fold (serialize W S) (map snd st @ [batched m]) []]) []"
      using assms(8) st True by (intro grouped_flush) (simp_all add: storage_def)
    ultimately show ?thesis
      using p1(2-5) assms(6,7) by (auto simp: batching_def storage_def)
  qed
qed

lemma send_raws_grouped:
  assumes "usable p" and "batching p" and "po_batch_size (tp_options p) = Some n"
    and "storage p = []"
    and "\<forall>(E, m) \<in> set ms. accepted E \<and> pe_wire E = W \<and> pe_prost E = S"
  shows "\<exists>payloads. usable (send_raws ms p) \<and> batching (send_raws ms p) \<and>
    tp_options (send_raws ms p) = tp_options p \<and>
    map sent_data (producer_tx (send_raws ms p)) = map sent_data (producer_tx p) @ payloads \<and>
    grouped W S (unat n) (map (\<lambda>x. batched (snd x)) ms) payloads
      (map snd (storage (send_raws ms p)))"
  using assms(5)
proof (induction ms rule: rev_induct)
  case Nil
  show ?case using assms(1-4) grouped_start by (simp add: send_raws_def)
next
  case (snoc x ms)
  obtain E m where x: "x = (E, m)" by fastforce
  let ?p = "send_raws ms p"
  from snoc obtain payloads where IH: "usable ?p" "batching ?p" "tp_options ?p = tp_options p"
    "map sent_data (producer_tx ?p) = map sent_data (producer_tx p) @ payloads"
    "grouped W S (unat n) (map (\<lambda>x. batched (snd x)) ms) payloads (map snd (storage ?p))"
    by auto
  have E: "accepted E" "pe_wire E = W" "pe_prost E = S" using snoc.prems x by auto
  have "po_batch_size (tp_options ?p) = Some n" using assms(3) IH(3) by simp
  from send_raw_grouped [OF IH(1,2) E this IH(4,5), of m] IH(3) x show ?case
    by (simp add: send_raws_def)
qed

section \<open>Instances for concrete inputs\<close>

definition ex_receipt :: pulsar_message where
  "ex_receipt =
     bare (default_base_command
       \<lparr>command_type := command_type_code TSendReceipt,
        send_receipt := Some (CommandSendReceipt 3 0 None)\<rparr>)"

definition ex_producer_env :: producer_env where
  "ex_producer_env =
     \<lparr>pe_dbg = (\<lambda>c. ''''), pe_wire = be_wire, pe_prost = ex_single,
      pe_compressors = \<lparr>z_lz4 = None, z_zlib = None, z_zstd = None, z_snappy = None\<rparr>,
      pe_retry = operation_retry_options_default\<lparr>op_max_retries := Some 1\<rparr>, pe_now = 5,
      pe_response = Answered ex_receipt,
      pe_relocation = \<lparr>rl_lookup = Some (Inl SdNotFound), rl_connection = (\<lambda>a. Some (Inl Shutdown))\<rparr>,
      pe_attempts = [], pe_second_response = Elapsed\<rparr>"

definition ex_producer :: TopicProducer where
  "ex_producer =
     \<lparr>tp_connection = \<lparr>conn_id = 1, conn_url = ex_url,
                       conn_sender = connection_sender_new shared_error_new\<rparr>,
      tp_id = 3, tp_name = ''p'', tp_topic = ''t'', tp_message_id = 0,
      tp_batch = Some (batch_new 2), tp_compression = None,
      tp_options = producer_options_default\<lparr>po_batch_size := Some 2\<rparr>,
      tp_next_future = 0, tp_resolved = []\<rparr>"

lemma ex_producer_ready:
  "usable ex_producer" "batching ex_producer" "storage ex_producer = []"
  "po_batch_size (tp_options ex_producer) = Some 2" "futures_inv ex_producer"
  by (simp_all add: usable_def channels_open_def batching_def storage_def futures_inv_def
      ex_producer_def connection_sender_new_def batch_new_def producer_options_default_def)

lemma ex_producer_env_accepts: "accepted ex_producer_env"
  by (simp add: accepted_def ex_producer_env_def ex_receipt_def proto_simps)

section \<open>Properties of the producer\<close>

text \<open>C13: batching loses, repeats and reorders nothing. When a batching producer is given messages one
  after the other and the broker accepts its sends, the messages are cut in their order into
  groups of exactly the batch size; the payloads sent are the serializations of these groups, in
  order, and what is left over, fewer than a batch, waits in the batch.\<close>

theorem batching_in_order:
  assumes "usable p" and "batching p" and "po_batch_size (tp_options p) = Some n"
    and "storage p = []"
    and "\<forall>(E, m) \<in> set ms. accepted E \<and> pe_wire E = W \<and> pe_prost E = S"
  shows "\<exists>groups.
    map (\<lambda>x. batched (snd x)) ms = concat groups @ map snd (storage (send_raws ms p)) \<and>
    list_all (\<lambda>g. length g = max 1 (unat n)) groups \<and>
    length (storage (send_raws ms p)) < max 1 (unat n) \<and>
    map sent_data (producer_tx (send_raws ms p)) =
      map sent_data (producer_tx p) @ map (\<lambda>g. fold (serialize W S) g []) groups"
  using send_raws_grouped [OF assms] by (auto simp: grouped_def list_all_iff)

theorem batching_in_order_witness:
  "\<exists>groups.
    map (\<lambda>x. batched (snd x)) (replicate 3 (ex_producer_env, default_producer_message)) =
      concat groups @ map snd (storage
        (send_raws (replicate 3 (ex_producer_env, default_producer_message)) ex_producer)) \<and>
    list_all (\<lambda>g. length g = max 1 (unat (2 :: u32))) groups \<and>
    length (storage (send_raws (replicate 3 (ex_producer_env, default_producer_message)) ex_producer))
      < max 1 (unat (2 :: u32)) \<and>
    map sent_data (producer_tx
        (send_raws (replicate 3 (ex_producer_env, default_producer_message)) ex_producer)) =
      map sent_data (producer_tx ex_producer) @ map (\<lambda>g. fold (serialize be_wire ex_single) g []) groups"
proof (rule batching_in_order)
  show "\<forall>(E, m) \<in> set (replicate 3 (ex_producer_env, default_producer_message)).
      accepted E \<and> pe_wire E = be_wire \<and> pe_prost E = ex_single"
    by (simp add: ex_producer_env_accepts) (simp add: ex_producer_env_def)
qed (rule ex_producer_ready)+

text \<open>Every future of a batching producer is completed exactly once. Each call of \<open>send_raw\<close> that
  returns hands out the next future, and afterwards the futures handed out are, in order, those
  that were completed (with the receipt of their batch, or with its error) followed by those
  whose messages still wait in the batch.\<close>

theorem batch_futures_complete_once:
  assumes "send_raw E m p = (Some r, p')" and "futures_inv p"
  shows "futures_inv p' \<and> r = Inr (tp_next_future p) \<and> tp_next_future p' = Suc (tp_next_future p)"
  using assms by (rule send_raw_futures)

theorem batch_futures_complete_once_witness:
  "futures_inv (snd (send_raw ex_producer_env default_producer_message ex_producer)) \<and>
   (Inr 0 :: (pulsar_error, nat) res) = Inr (tp_next_future ex_producer) \<and>
   tp_next_future (snd (send_raw ex_producer_env default_producer_message ex_producer)) =
     Suc (tp_next_future ex_producer)"
proof (rule batch_futures_complete_once)
  show "send_raw ex_producer_env default_producer_message ex_producer =
      (Some (Inr 0), snd (send_raw ex_producer_env default_producer_message ex_producer))"
    by (simp add: send_raw_def ex_producer_def Let_def push_back_def is_full_def batch_new_def)
qed (rule ex_producer_ready(5))

text \<open>Flushing. \<open>send_batch\<close> of a batching producer that returns leaves nothing in the batch and
  completes every future that was waiting there, whether the send succeeded or not.\<close>

theorem send_batch_flushes:
  assumes "send_batch E p = (Some r, p')" and "futures_inv p"
  shows "storage p' = [] \<and> map fst (tp_resolved p') = [0..<tp_next_future p] \<and> r = Inr ()"
  using send_batch_futures [OF assms] by (auto simp: futures_inv_def)

theorem send_batch_flushes_witness:
  "storage (snd (send_batch ex_producer_env ex_producer)) = [] \<and>
   map fst (tp_resolved (snd (send_batch ex_producer_env ex_producer))) =
     [0..<tp_next_future ex_producer] \<and> (Inr () :: (pulsar_error, unit) res) = Inr ()"
proof (rule send_batch_flushes)
  show "send_batch ex_producer_env ex_producer =
      (Some (Inr ()), snd (send_batch ex_producer_env ex_producer))"
    by (simp add: send_batch_def ex_producer_def get_messages_def batch_new_def Let_def)
qed (rule ex_producer_ready(5))

lemma rotate1_rotate_right: "rotate1 (rotate_right xs) = xs"
  by (cases xs rule: rev_cases) (simp_all add: rotate_right_def)

lemma partition_next_iterate:
  "pp_producers ((partition_next ^^ k) q) = (rotate1 ^^ k) (pp_producers q)"
  by (induction k) (simp_all add: partition_next_def)

text \<open>Round robin. A producer built for several partitions uses them in turn, starting with the
  first one the lookup returned: its \<open>k\<close>-th send, counted from 0, goes to partition
  \<open>k mod n\<close>.\<close>

theorem partitions_round_robin:
  assumes "ps \<noteq> []"
  shows "hd (pp_producers ((partition_next ^^ Suc k)
      \<lparr>pp_producers = rotate_right ps, pp_topic = t, pp_options = po\<rparr>)) = ps ! (k mod length ps)"
proof -
  have "pp_producers ((partition_next ^^ Suc k)
      \<lparr>pp_producers = rotate_right ps, pp_topic = t, pp_options = po\<rparr>) =
    (rotate1 ^^ k) (rotate1 (rotate_right ps))"
    unfolding partition_next_iterate by (simp only: funpow_Suc_right comp_apply PartitionedProducer.select_convs)
  also have "\<dots> = rotate k ps" by (simp add: rotate1_rotate_right rotate_def)
  finally show ?thesis using assms by (simp add: hd_rotate_conv_nth)
qed

theorem partitions_round_robin_witness:
  "hd (pp_producers ((partition_next ^^ Suc 4)
      \<lparr>pp_producers = rotate_right [ex_producer, ex_producer\<lparr>tp_id := 4\<rparr>, ex_producer\<lparr>tp_id := 5\<rparr>],
       pp_topic = ''t'', pp_options = producer_options_default\<rparr>)) =
   [ex_producer, ex_producer\<lparr>tp_id := 4\<rparr>, ex_producer\<lparr>tp_id := 5\<rparr>] !
     (4 mod length [ex_producer, ex_producer\<lparr>tp_id := 4\<rparr>, ex_producer\<lparr>tp_id := 5\<rparr>])"
  by (rule partitions_round_robin) simp

text \<open>C35: How creation ends. With a limit on the retries, creating a producer has a result after at most
  one attempt more than the limit, whatever the broker answers, as long as the wait for exclusive
  access, which has no timeout, and the lookups and connections between the attempts end.\<close>

theorem producer_creation_terminates:
  assumes "op_max_retries (pe_retry E) = Some k" and "unat k < length (pe_attempts E)"
    and "list_all (\<lambda>a. ca_exclusive a \<noteq> None \<and> relocate (ca_relocation a) \<noteq> None) (pe_attempts E)"
  shows "from_connection E c topic name options i \<noteq> None"
proof -
  have "fst (create_attempt_on (pe_dbg E) topic i name options a s) \<noteq> None" if "ca_exclusive a \<noteq> None" for a s
    using that
    by (auto simp: create_attempt_on_def wait_for_exclusive_access_def wait_exclusive_access_def
        split: prod.splits sum.splits option.splits)
  moreover have "fst (create_relocate a s) \<noteq> None" if "relocate (ca_relocation a) \<noteq> None" for a s
    using that by (auto simp: create_relocate_def split: option.splits sum.splits)
  ultimately have steps: "list_all (\<lambda>a. \<forall>s. fst (create_attempt_on (pe_dbg E) topic i name options a s) \<noteq> None \<and>
      fst (create_relocate a s) \<noteq> None) (pe_attempts E)"
    using assms(3) by (auto simp: list_all_iff)
  obtain r c' where "retry_loop (op_max_retries (pe_retry E))
      (create_attempt_on (pe_dbg E) topic i name options) create_relocate 0 (pe_attempts E) c =
    (r, c')" by fastforce
  with retry_loop_bounded [OF assms(1), of 0 "pe_attempts E"
      "create_attempt_on (pe_dbg E) topic i name options" create_relocate c] assms(2) steps
  show ?thesis by (auto simp: from_connection_def split: sum.split)
qed

definition ex_attempt :: create_attempt where
  "ex_attempt =
     \<lparr>ca_response = Elapsed, ca_exclusive = Some None,
      ca_relocation = \<lparr>rl_lookup = Some (Inl SdNotFound), rl_connection = (\<lambda>a. Some (Inl Shutdown))\<rparr>\<rparr>"

theorem producer_creation_terminates_witness:
  "from_connection (ex_producer_env\<lparr>pe_attempts := [ex_attempt, ex_attempt]\<rparr>)
     (tp_connection ex_producer) ''t'' None producer_options_default 3 \<noteq> None"
  by (rule producer_creation_terminates [where k = 1])
    (simp_all add: ex_producer_env_def ex_attempt_def relocate_def)

text \<open>A broker that accepts the producer but does not make it ready keeps the application waiting, whatever
  the limit on the retries.\<close>

lemma exclusive_wait_blocks_creation:
  assumes "compression_available (pe_compressors E) (po_compression options) = Inr ()"
    and "pe_attempts E = a # as" and "ca_exclusive a = None" and "channels_open (conn_sender c)"
    and "ca_response a = Answered m" and "producer_success (command m) = Some ps" and "error (command m) = None"
    and "psucc_producer_ready ps = Some False"
  shows "from_connection E c topic name options i = None"
  using assms
  by (auto simp: from_connection_def create_attempt_on_def sender_create_producer_def next_request_id_eq
      send_message_def open_channel_def registrations_send_def tx_send_def channels_open_def extract_message_def
      wait_for_exclusive_access_def wait_exclusive_access_def)

text \<open>A created producer can always compress. The compression a producer is created with is
  compiled in, so that a send never reaches the \<open>unimplemented!\<close> of a missing library.\<close>

theorem created_producer_can_compress:
  assumes "from_connection E c topic name options i = Some (Inr p)"
  shows "compress (pe_compressors E) (tp_compression p) m \<noteq> None"
proof -
  have "compression_available (pe_compressors E) (tp_compression p) = Inr ()"
    using assms by (auto simp: from_connection_def split: sum.splits option.splits prod.splits)
  then show ?thesis
    by (auto simp: compression_available_def compress_def Let_def
        split: option.splits compression_type.splits if_splits)
qed

definition ex_created :: create_attempt where
  "ex_created = ex_attempt
     \<lparr>ca_response := Answered (bare (default_base_command
        \<lparr>command_type := command_type_code TProducerSuccess,
         producer_success := Some (CommandProducerSuccess 0 ''p'' None)\<rparr>))\<rparr>"

definition ex_created_producer :: TopicProducer where
  "ex_created_producer =
     projr (the (from_connection (ex_producer_env\<lparr>pe_attempts := [ex_created]\<rparr>)
       (tp_connection ex_producer) ''t'' None producer_options_default 3))"

lemma ex_creation:
  "from_connection (ex_producer_env\<lparr>pe_attempts := [ex_created]\<rparr>)
     (tp_connection ex_producer) ''t'' None producer_options_default 3 = Some (Inr ex_created_producer)"
  unfolding ex_created_producer_def
  by (simp add: from_connection_def ex_producer_env_def compression_available_def
      producer_options_default_def create_attempt_on_def ex_created_def ex_attempt_def
      sender_create_producer_def next_request_id_eq send_message_def open_channel_def
      registrations_send_def tx_send_def ex_producer_def connection_sender_new_def
      extract_message_def proto_simps)

theorem created_producer_can_compress_witness:
  "compress (pe_compressors (ex_producer_env\<lparr>pe_attempts := [ex_created]\<rparr>))
     (tp_compression ex_created_producer) default_producer_message \<noteq> None"
  by (rule created_producer_can_compress [OF ex_creation])

lemma send_once_sequence:
  assumes "send_once E m w p = (r, p1)"
  shows "tp_message_id p1 = tp_message_id p + 1"
  using assms by (auto simp: send_once_def next_sequence_id_def serial_id_get_def
      on_producer_sender_def split: prod.splits)

lemma send_once_tx:
  assumes "channels_open (conn_sender (tp_connection p))"
  shows "producer_tx (snd (send_once E m w p)) = producer_tx p @
    [messages_send (pe_now E) (tp_id p) (tp_name p) (tp_message_id p) m]"
proof -
  obtain r s1 where s: "sender_send (pe_dbg E) (pe_now E) (tp_id p) (tp_name p) (tp_message_id p) m w
      (conn_sender (tp_connection p)) = (r, s1)" by fastforce
  moreover have "cs_tx (snd (sender_send (pe_dbg E) (pe_now E) (tp_id p) (tp_name p)
      (tp_message_id p) m w (conn_sender (tp_connection p)))) = producer_tx p @
    [messages_send (pe_now E) (tp_id p) (tp_name p) (tp_message_id p) m]"
    using assms by (simp add: sender_send_def send_message_open producer_tx_def)
  ultimately show ?thesis
    by (simp add: send_once_def next_sequence_id_def serial_id_get_def on_producer_sender_def
        producer_tx_def)
qed

text \<open>A send that is repeated after a reconnection is sent under a new sequence number: the first
  attempt, which the broker may have stored, used one number, and the second uses the next, so
  the two cannot be recognised as the same message.\<close>

theorem retried_send_uses_new_sequence_id:
  assumes "send_once E m (pe_response E) p = (Inl err, p1)" and "retriable err"
    and "producer_reconnect E p1 = (Some (Inr u), p2)"
    and "channels_open (conn_sender (tp_connection p2))"
  shows "producer_tx (snd (send_inner E m p)) = producer_tx p2 @
    [messages_send (pe_now E) (tp_id p) (tp_name p) (tp_message_id p + 1) m]"
proof -
  have ids: "tp_id p2 = tp_id p" "tp_name p2 = tp_name p" "tp_message_id p2 = tp_message_id p + 1"
    using send_once_futures [OF assms(1)] producer_reconnect_futures [OF assms(3)]
      send_once_sequence [OF assms(1)] by (auto simp: same_futures_def)
  obtain r3 p3 where o2: "send_once E m (pe_second_response E) p2 = (r3, p3)" by fastforce
  have "producer_tx p3 = producer_tx p2 @
      [messages_send (pe_now E) (tp_id p2) (tp_name p2) (tp_message_id p2) m]"
    using send_once_tx [OF assms(4), of E m "pe_second_response E"] o2 by simp
  moreover have "snd (send_inner E m p) = p3"
    using assms(1-3) o2 by (simp add: send_inner_def split: sum.split)
  ultimately show ?thesis using ids by simp
qed

definition ex_retry_env :: producer_env where
  "ex_retry_env = ex_producer_env
     \<lparr>pe_response := Dropped,
      pe_relocation :=
        \<lparr>rl_lookup = Some (Inr \<lparr>broker_address_url = ex_url, broker_url = ''b'', broker_proxy = False\<rparr>),
         rl_connection = (\<lambda>a. Some (Inr (tp_connection ex_producer)))\<rparr>,
      pe_attempts := [ex_created], pe_second_response := Answered ex_receipt\<rparr>"

lemmas ex_producer_run = send_once_def next_sequence_id_def serial_id_get_def on_producer_sender_def
  sender_send_def send_message_def open_channel_def registrations_send_def tx_send_def
  ex_producer_def connection_sender_new_def ex_retry_env_def ex_producer_env_def relocate_def
  producer_reconnect_def recreate_attempt_def sender_create_producer_def next_request_id_eq
  extract_message_def ex_created_def ex_attempt_def

theorem retried_send_uses_new_sequence_id_witness:
  "producer_tx (snd (send_inner ex_retry_env default_producer_message ex_producer)) =
   producer_tx (snd (producer_reconnect ex_retry_env
     (snd (send_once ex_retry_env default_producer_message (pe_response ex_retry_env) ex_producer)))) @
   [messages_send (pe_now ex_retry_env) (tp_id ex_producer) (tp_name ex_producer)
      (tp_message_id ex_producer + 1) default_producer_message]"
proof (rule retried_send_uses_new_sequence_id)
  show "send_once ex_retry_env default_producer_message (pe_response ex_retry_env) ex_producer =
      (Inl Disconnected, snd (send_once ex_retry_env default_producer_message
        (pe_response ex_retry_env) ex_producer))"
    by (simp add: ex_producer_run)
  show "retriable Disconnected" by (simp add: retriable_def)
  show "producer_reconnect ex_retry_env (snd (send_once ex_retry_env default_producer_message
        (pe_response ex_retry_env) ex_producer)) =
      (Some (Inr ()), snd (producer_reconnect ex_retry_env (snd (send_once ex_retry_env
        default_producer_message (pe_response ex_retry_env) ex_producer))))"
    by (simp add: ex_producer_run proto_simps)
  show "channels_open (conn_sender (tp_connection (snd (producer_reconnect ex_retry_env
      (snd (send_once ex_retry_env default_producer_message
        (pe_response ex_retry_env) ex_producer))))))"
    by (simp add: ex_producer_run proto_simps channels_open_def)
qed

lemma fold_remove_other:
  "\<forall>x \<in> set parts. fst x \<noteq> t \<Longrightarrow> fold (\<lambda>(topic, _) m. m(topic := None)) parts f t = f t"
  by (induction parts arbitrary: f) auto

text \<open>Closing the producer of a partitioned topic does nothing. The producers of a multi-topic
  producer are stored under the topic they were asked for, but \<open>close_producer\<close> removes the
  names of the partitions: a topic that is not among its own partitions keeps its producer.\<close>

theorem close_producer_keeps_partitioned:
  assumes "\<forall>x \<in> set parts. fst x \<noteq> topic"
  shows "mtp_producers (snd (mtp_close_producer (Inr parts) p)) topic = mtp_producers p topic"
  using assms by (simp add: mtp_close_producer_def fold_remove_other)

theorem close_producer_keeps_partitioned_witness:
  "mtp_producers (snd (mtp_close_producer (Inr
      [(''t-partition-0'', \<lparr>broker_address_url = ex_url, broker_url = ''b'', broker_proxy = False\<rparr>),
       (''t-partition-1'', \<lparr>broker_address_url = ex_url, broker_url = ''b'', broker_proxy = False\<rparr>)])
      ((build_multi_topic producer_builder_new)\<lparr>mtp_producers := [''t'' \<mapsto> Single ex_producer]\<rparr>))) ''t'' =
   mtp_producers
     ((build_multi_topic producer_builder_new)\<lparr>mtp_producers := [''t'' \<mapsto> Single ex_producer]\<rparr>) ''t''"
  by (rule close_producer_keeps_partitioned) simp

text \<open>What batching drops. A batched message carries the payload, properties, partition key,
  ordering key and event time of the message, and nothing else: two messages that differ in the
  requested delivery time, the replication clusters or the schema version are batched alike, so
  a delayed delivery asked for on a batching producer has no effect.\<close>

theorem batching_drops_delivery_time:
  "batched (m\<lparr>pm_deliver_at_time := d, pm_replicate_to := cs, pm_schema_version := v\<rparr>) = batched m \<and>
   pm_deliver_at_time (batch_message W S ms) = None"
  by (simp add: batched_def batch_message_def default_producer_message_def)

text \<open>The ordering key never reaches the broker. \<open>with_ordering_key\<close> sets the partition key
  instead, and the command a producer sends for a message has no ordering key, whatever the
  message holds.\<close>

theorem ordering_key_not_sent:
  "pm_ordering_key (mb_message (mb_with_ordering_key k message_builder_new) m) = None \<and>
   pm_partition_key (mb_message (mb_with_ordering_key k message_builder_new) m) = Some k \<and>
   map_option (ordering_key \<circ> metadata) (payload (messages_send now i n s pm)) = Some None"
  by (simp add: mb_message_def mb_with_ordering_key_def message_builder_new_def
      producer_message_from_def default_producer_message_def messages_send_def
      default_message_metadata_def)

text \<open>A reconnection that gets the same connection closes itself. After a timeout the manager may hand out
  the connection the producer already had. The new producer is created there under the same
  number; the signal of the old task is then replaced, and the old task closes that number on
  that connection: the close command goes out after the creation.\<close>

lemma producer_reconnect_id:
  assumes "producer_reconnect E p = (r, p')"
  shows "tp_id p' = tp_id p"
proof (cases "\<exists>c. relocate (pe_relocation E) = Some (Inr c)")
  case False
  with assms show ?thesis by (auto simp: producer_reconnect_def split: option.splits sum.splits)
next
  case True
  then obtain c where Inr: "relocate (pe_relocation E) = Some (Inr c)" by blast
  obtain q p1 where l: "retry_loop (op_max_retries (pe_retry E)) (recreate_attempt (pe_dbg E))
      recreate_relocate 0 (pe_attempts E) (p\<lparr>tp_connection := c\<rparr>) = (q, p1)" by fastforce
  have "tp_id p1 = tp_id p"
    by (rule retry_loop_preserves [where I = "\<lambda>x. tp_id x = tp_id p", OF _ _ _ l])
      (auto simp: recreate_attempt_def recreate_relocate_def on_producer_sender_def
        split: prod.splits sum.splits option.splits)
  with assms Inr l show ?thesis
    by (auto simp: producer_reconnect_def split: option.splits sum.splits)
qed

lemma reconnection_closes_new_producer:
  assumes "producer_reconnect E p = (Some (Inr ()), p')" and "channels_open (conn_sender (tp_connection p'))"
  shows "\<exists>request_id. cs_tx (conn_sender (producer_close_task dbg (tp_id p) w (tp_connection p'))) =
    cs_tx (conn_sender (tp_connection p')) @ [messages_close_producer (tp_id p') request_id]"
  using assms(2) producer_reconnect_id [OF assms(1)]
  by (auto simp: producer_close_task_def sender_close_producer_def next_request_id_eq send_message_def
      open_channel_def registrations_send_def tx_send_def channels_open_def split: awaited.split)

end
