(* ===== verification/Auth.thy ===== *)
theory Auth
  imports Connection
begin

text \<open>
  The trait \<open>Authentication\<close> of \<open>src/authentication.rs\<close> and its three implementations: the fixed name
  and data of \<open>src/connection.rs\<close>, the token, and OAuth2 with a cached token. The trait is the
  locale \<open>authentication\<close>; each call gets the world it meets. For OAuth2 the world holds the
  clock, the files, the parsers and the answers of the identity provider; an error of these is its
  text. \<open>None\<close> is a panic.
\<close>

section \<open>The trait\<close>

fun auth_calls :: "('w \<Rightarrow> 's \<Rightarrow> 'r option \<times> 's) \<Rightarrow> 'w list \<Rightarrow> 's \<Rightarrow> 'r option list \<times> 's" where
  "auth_calls f [] s = ([], s)"
| "auth_calls f (w # ws) s =
     (case f w s of (r, s) \<Rightarrow> (case auth_calls f ws s of (rs, s) \<Rightarrow> (r # rs, s)))"

locale authentication =
  fixes method_name :: "'s \<Rightarrow> string"
    and init :: "'w \<Rightarrow> 's \<Rightarrow> (authentication_error, unit) res \<times> 's"
    and auth_data :: "'w \<Rightarrow> 's \<Rightarrow> (authentication_error, bytes) res option \<times> 's"
    and ready :: "'s \<Rightarrow> bool"
    and panics :: "'w \<Rightarrow> 's \<Rightarrow> bool"
  assumes init_ready: "init w s = (Inr (), s') \<Longrightarrow> ready s'"
    and init_name: "init w s = (q, s') \<Longrightarrow> method_name s' = method_name s"
    and auth_data_ready: "ready s \<Longrightarrow> auth_data w s = (r, s') \<Longrightarrow> ready s'"
    and auth_data_name: "auth_data w s = (r, s') \<Longrightarrow> method_name s' = method_name s"
    and auth_data_total: "ready s \<Longrightarrow> auth_data w s = (r, s') \<Longrightarrow> \<not> panics w s \<Longrightarrow> r \<noteq> None"
begin

lemma calls:
  assumes "ready s" and "\<And>w s. w \<in> set ws \<Longrightarrow> \<not> panics w s"
  shows "ready (snd (auth_calls auth_data ws s)) \<and> None \<notin> set (fst (auth_calls auth_data ws s)) \<and>
    method_name (snd (auth_calls auth_data ws s)) = method_name s"
  using assms
proof (induction ws arbitrary: s)
  case Nil
  then show ?case by simp
next
  case (Cons w ws)
  obtain r s' where s': "auth_data w s = (r, s')" by fastforce
  from Cons.IH [OF auth_data_ready [OF Cons.prems(1) s']] auth_data_total [OF Cons.prems(1) s']
    auth_data_name [OF s'] Cons.prems(2)
  show ?case by (auto simp: s' case_prod_beta)
qed

text \<open>A provider that was initialized serves any number of connections, in worlds in which it does not
  panic.\<close>

lemma initialized_serves:
  assumes "init w s = (Inr (), s')" and "\<And>w s. w \<in> set ws \<Longrightarrow> \<not> panics w s"
  shows "None \<notin> set (fst (auth_calls auth_data ws s')) \<and>
    method_name (snd (auth_calls auth_data ws s')) = method_name s"
  using calls [OF init_ready [OF assms(1)] assms(2), of ws] init_name [OF assms(1)] by simp

end

section \<open>Fixed data\<close>

definition fixed_method_name :: "Authentication \<Rightarrow> string" where
  "fixed_method_name a = auth_name a"

definition fixed_initialize :: "'w \<Rightarrow> Authentication \<Rightarrow> (authentication_error, unit) res \<times> Authentication" where
  "fixed_initialize w a = (Inr (), a)"

definition fixed_auth_data ::
  "'w \<Rightarrow> Authentication \<Rightarrow> (authentication_error, bytes) res option \<times> Authentication" where
  "fixed_auth_data w a = (Some (Inr (auth_bytes a)), a)"

interpretation fixed: authentication fixed_method_name fixed_initialize fixed_auth_data "\<lambda>a. True" "\<lambda>w a. False"
  by unfold_locales (auto simp: fixed_initialize_def fixed_auth_data_def)

section \<open>Tokens\<close>

record TokenAuthentication =
  token :: bytes

definition token_authentication_new :: "string \<Rightarrow> TokenAuthentication" where
  "token_authentication_new t = \<lparr>token = map of_char t\<rparr>"

definition token_method_name :: "TokenAuthentication \<Rightarrow> string" where
  "token_method_name a = ''token''"

definition token_initialize ::
  "'w \<Rightarrow> TokenAuthentication \<Rightarrow> (authentication_error, unit) res \<times> TokenAuthentication" where
  "token_initialize w a = (Inr (), a)"

definition token_auth_data ::
  "'w \<Rightarrow> TokenAuthentication \<Rightarrow> (authentication_error, bytes) res option \<times> TokenAuthentication" where
  "token_auth_data w a = (Some (Inr (token a)), a)"

interpretation tk: authentication token_method_name token_initialize token_auth_data "\<lambda>a. True" "\<lambda>w a. False"
  by unfold_locales (auto simp: token_initialize_def token_auth_data_def token_method_name_def)

section \<open>OAuth2\<close>

record OAuth2PrivateParams =
  client_id :: string
  client_secret :: string
  client_email :: "string option"
  private_issuer_url :: "string option"

record OAuth2Params =
  issuer_url :: string
  credentials_url :: string
  audience :: "string option"
  scope :: "string option"

record CachedToken =
  token_secret :: bytes
  expiring_at :: "nat option"
  expired_at :: "nat option"

record BasicTokenResponse =
  access_token :: string
  expires_in :: "nat option"

record token_request =
  tr_client_id :: string
  tr_client_secret :: string
  tr_auth_url :: url
  tr_token_url :: "string option"
  tr_audience :: "string option"
  tr_scope :: "string option"

record oauth_world =
  ow_parse_url :: "string \<Rightarrow> (string, url) res"
  ow_path :: "url \<Rightarrow> string"
  ow_read_file :: "string \<Rightarrow> (string, string) res"
  ow_json_text :: "string \<Rightarrow> (string, OAuth2PrivateParams) res"
  ow_data_url :: "string \<Rightarrow> (string, string) res"
  ow_data_decode :: "string \<Rightarrow> (string, bytes) res"
  ow_json_bytes :: "bytes \<Rightarrow> (string, OAuth2PrivateParams) res"
  ow_discover :: "url \<Rightarrow> (string, string option) res"
  ow_request :: "token_request \<Rightarrow> (string, BasicTokenResponse) res"
  ow_mul_f32 :: "nat \<Rightarrow> nat"
  ow_expired_clock :: nat
  ow_expiring_clock :: nat
  ow_received_clock :: nat
  ow_last_instant :: nat

record OAuth2Authentication =
  params :: OAuth2Params
  private_params :: "OAuth2PrivateParams option"
  token_url :: "string option"
  cached_token :: "CachedToken option"

definition client_credentials :: "OAuth2Params \<Rightarrow> OAuth2Authentication" where
  "client_credentials p = \<lparr>params = p, private_params = None, token_url = None, cached_token = None\<rparr>"

text \<open>\<open>ow_mul_f32\<close> is the duration times 0.9 in single precision. \<open>Instant + Duration\<close> panics beyond the last
  instant the clock can represent.\<close>

definition add_instant :: "oauth_world \<Rightarrow> nat \<Rightarrow> nat option" where
  "add_instant w d =
     (if ow_received_clock w + d \<le> ow_last_instant w then Some (ow_received_clock w + d) else None)"

definition cached_token_from :: "oauth_world \<Rightarrow> BasicTokenResponse \<Rightarrow> CachedToken option" where
  "cached_token_from w resp =
     (case expires_in resp of
        None \<Rightarrow> Some \<lparr>token_secret = map of_char (access_token resp), expiring_at = None, expired_at = None\<rparr>
      | Some d \<Rightarrow>
          (case (add_instant w (ow_mul_f32 w d), add_instant w d) of
             (Some expiring, Some expired) \<Rightarrow>
               Some \<lparr>token_secret = map of_char (access_token resp), expiring_at = Some expiring,
                     expired_at = Some expired\<rparr>
           | _ \<Rightarrow> None))"

definition is_expiring :: "nat \<Rightarrow> CachedToken \<Rightarrow> bool" where
  "is_expiring now t = (case expiring_at t of Some at' \<Rightarrow> at' \<le> now | None \<Rightarrow> False)"

definition is_expired :: "nat \<Rightarrow> CachedToken \<Rightarrow> bool" where
  "is_expired now t = (case expired_at t of Some at' \<Rightarrow> at' \<le> now | None \<Rightarrow> False)"

definition invalid_data_url :: "string \<Rightarrow> string \<Rightarrow> string" where
  "invalid_data_url u err = ''invalid data url ['' @ u @ '']: '' @ err"

definition read_private_params :: "oauth_world \<Rightarrow> OAuth2Params \<Rightarrow> (string, OAuth2PrivateParams) res" where
  "read_private_params w p =
     bind_res (ow_parse_url w (credentials_url p)) (\<lambda>u.
       if url_scheme u = ''file'' then
         bind_res (ow_read_file w (ow_path w u)) (ow_json_text w)
       else if url_scheme u = ''data'' then
         (case ow_data_url w (credentials_url p) of
            Inl err \<Rightarrow> Inl (invalid_data_url (credentials_url p) err)
          | Inr du \<Rightarrow>
              (case ow_data_decode w du of
                 Inl err \<Rightarrow> Inl (invalid_data_url (credentials_url p) err)
               | Inr body \<Rightarrow> ow_json_bytes w body))
       else Inl (''invalid credential url ['' @ credentials_url p @ '']''))"

definition oauth_token_url ::
  "oauth_world \<Rightarrow> OAuth2Authentication \<Rightarrow> (string, string option) res \<times> OAuth2Authentication" where
  "oauth_token_url w s =
     (case token_url s of
        Some u \<Rightarrow> (Inr (Some u), s)
      | None \<Rightarrow>
          (case bind_res (ow_parse_url w (issuer_url (params s))) (ow_discover w) of
             Inl err \<Rightarrow> (Inl err, s)
           | Inr None \<Rightarrow> (Inl ''token url not exists'', s)
           | Inr (Some endpoint) \<Rightarrow> (Inr (Some endpoint), s\<lparr>token_url := Some endpoint\<rparr>)))"

definition oauth_method_name :: "OAuth2Authentication \<Rightarrow> string" where
  "oauth_method_name s = ''token''"

definition oauth_initialize ::
  "oauth_world \<Rightarrow> OAuth2Authentication \<Rightarrow> (authentication_error, unit) res \<times> OAuth2Authentication" where
  "oauth_initialize w s =
     (case read_private_params w (params s) of
        Inl err \<Rightarrow> (Inl (AuthCustom err), s)
      | Inr p \<Rightarrow>
          (case oauth_token_url w (s\<lparr>private_params := Some p\<rparr>) of
             (Inl err, s) \<Rightarrow> (Inl (AuthCustom err), s)
           | (Inr _, s) \<Rightarrow> (Inr (), s)))"

text \<open>The request for a token; \<open>None\<close> is the panic of a provider without its parameters.\<close>

definition fetch_token ::
  "oauth_world \<Rightarrow> OAuth2Authentication
     \<Rightarrow> (string, BasicTokenResponse) res option \<times> OAuth2Authentication" where
  "fetch_token w s =
     (case private_params s of
        None \<Rightarrow> (None, s)
      | Some p \<Rightarrow>
          (let issuer = (case private_issuer_url p of Some u \<Rightarrow> u | None \<Rightarrow> issuer_url (params s)) in
           case ow_parse_url w issuer of
             Inl err \<Rightarrow> (Some (Inl err), s)
           | Inr auth_url \<Rightarrow>
               (case oauth_token_url w s of
                  (Inl err, s) \<Rightarrow> (Some (Inl err), s)
                | (Inr u, s) \<Rightarrow>
                    (Some (ow_request w
                       \<lparr>tr_client_id = client_id p, tr_client_secret = client_secret p,
                        tr_auth_url = auth_url, tr_token_url = u,
                        tr_audience = audience (params s), tr_scope = scope (params s)\<rparr>), s))))"

definition oauth_auth_data ::
  "oauth_world \<Rightarrow> OAuth2Authentication
     \<Rightarrow> (authentication_error, bytes) res option \<times> OAuth2Authentication" where
  "oauth_auth_data w s =
     (if private_params s = None then (Some (Inl (AuthCustom ''not initialized'')), s)
      else
       (let none_or_expired =
              (case cached_token s of Some t \<Rightarrow> is_expired (ow_expired_clock w) t | None \<Rightarrow> True);
            need_token =
              (case cached_token s of
                 Some t \<Rightarrow> none_or_expired \<or> is_expiring (ow_expiring_clock w) t
               | None \<Rightarrow> True);
            secret = (\<lambda>s. map_option (\<lambda>t. Inr (token_secret t)) (cached_token s))
        in
        if need_token then
          (case fetch_token w s of
             (None, s) \<Rightarrow> (None, s)
           | (Some (Inr resp), s) \<Rightarrow>
               (case cached_token_from w resp of
                  None \<Rightarrow> (None, s)
                | Some t \<Rightarrow> (let s = s\<lparr>cached_token := Some t\<rparr> in (secret s, s)))
           | (Some (Inl err), s) \<Rightarrow>
               (if none_or_expired
                then (Some (Inl (AuthCustom err)), s\<lparr>cached_token := None\<rparr>)
                else (secret s, s)))
        else (secret s, s)))"

lemma oauth_token_url_keeps:
  assumes "oauth_token_url w s = (r, s')"
  shows "params s' = params s" "private_params s' = private_params s" "cached_token s' = cached_token s"
  using assms by (auto simp: oauth_token_url_def split: option.splits sum.splits)

lemma fetch_token_keeps:
  assumes "fetch_token w s = (r, s')"
  shows "params s' = params s" "private_params s' = private_params s" "cached_token s' = cached_token s"
    "r = None \<longleftrightarrow> private_params s = None"
  using assms
  by (auto simp: fetch_token_def Let_def split: option.splits sum.splits prod.splits dest: oauth_token_url_keeps)

text \<open>What a call returns, by what is cached and what the provider answers.\<close>

lemma oauth_auth_data_cases [consumes 1, case_names Cached Fetched Kept Expired Overflow]:
  assumes "private_params s \<noteq> None"
  obtains
    (Cached) t where "cached_token s = Some t" "\<not> is_expired (ow_expired_clock w) t"
      "\<not> is_expiring (ow_expiring_clock w) t" "oauth_auth_data w s = (Some (Inr (token_secret t)), s)"
  | (Fetched) resp t s1 where "fetch_token w s = (Some (Inr resp), s1)" "cached_token_from w resp = Some t"
      "oauth_auth_data w s = (Some (Inr (token_secret t)), s1\<lparr>cached_token := Some t\<rparr>)"
  | (Kept) t err s1 where "cached_token s = Some t" "\<not> is_expired (ow_expired_clock w) t"
      "fetch_token w s = (Some (Inl err), s1)" "oauth_auth_data w s = (Some (Inr (token_secret t)), s1)"
  | (Expired) err s1 where "fetch_token w s = (Some (Inl err), s1)"
      "\<And>t. cached_token s = Some t \<Longrightarrow> is_expired (ow_expired_clock w) t"
      "oauth_auth_data w s = (Some (Inl (AuthCustom err)), s1\<lparr>cached_token := None\<rparr>)"
  | (Overflow) resp s1 where "fetch_token w s = (Some (Inr resp), s1)" "cached_token_from w resp = None"
      "oauth_auth_data w s = (None, s1)"
proof (cases "\<exists>t. cached_token s = Some t \<and> \<not> is_expired (ow_expired_clock w) t \<and>
    \<not> is_expiring (ow_expiring_clock w) t")
  case True
  then show thesis using Cached assms by (auto simp: oauth_auth_data_def)
next
  case False
  obtain r s1 where f: "fetch_token w s = (r, s1)" by fastforce
  from assms fetch_token_keeps(4) [OF f] obtain x where x: "r = Some x" by (cases r) auto
  note same = fetch_token_keeps(3) [OF f]
  show thesis
  proof (cases x)
    case (Inr resp)
    then show thesis
      using Fetched [of resp s1] Overflow [of resp s1] assms False f x
      by (cases "cached_token s"; cases "cached_token_from w resp") (auto simp: oauth_auth_data_def Let_def)
  next
    case (Inl err)
    then show thesis
      using Kept [of _ err s1] Expired [of err s1] assms False f x same
      by (cases "cached_token s"; cases "is_expired (ow_expired_clock w) (the (cached_token s))")
        (auto simp: oauth_auth_data_def Let_def)
  qed
qed

text \<open>A world in which the provider may panic: some answer lasts beyond the last instant.\<close>

definition lasts_too_long :: "oauth_world \<Rightarrow> bool" where
  "lasts_too_long w \<longleftrightarrow> (\<exists>q resp. ow_request w q = Inr resp \<and> cached_token_from w resp = None)"

lemma fetched_from_request: "fetch_token w s = (Some (Inr resp), s1) \<Longrightarrow> \<exists>q. ow_request w q = Inr resp"
  by (auto simp: fetch_token_def Let_def split: option.splits sum.splits prod.splits)

interpretation oauth: authentication oauth_method_name oauth_initialize oauth_auth_data
  "\<lambda>s. private_params s \<noteq> None" "\<lambda>w s. lasts_too_long w"
proof unfold_locales
  show "private_params s' \<noteq> None" if "oauth_initialize w s = (Inr (), s')" for w s s'
    using that
    by (auto simp: oauth_initialize_def split: sum.splits prod.splits dest!: oauth_token_url_keeps(2))
  show "private_params s' \<noteq> None" if "private_params s \<noteq> None" "oauth_auth_data w s = (r, s')" for w s r s'
    using that(1) by (cases rule: oauth_auth_data_cases [where w = w])
      (use that in \<open>auto dest!: fetch_token_keeps(2)\<close>)
  show "r \<noteq> None" if "private_params s \<noteq> None" "oauth_auth_data w s = (r, s')" "\<not> lasts_too_long w" for w s r s'
    using that(1)
    by (cases rule: oauth_auth_data_cases [where w = w])
      (use that fetched_from_request [of w s] in \<open>fastforce simp: lasts_too_long_def\<close>)+
qed (simp_all add: oauth_method_name_def)

section \<open>Instances for concrete inputs\<close>

definition ex_world :: oauth_world where
  "ex_world =
     \<lparr>ow_parse_url = (\<lambda>u. Inr \<lparr>url_scheme = ''file'', url_host = None, url_port = None, url_text = u\<rparr>),
      ow_path = url_text, ow_read_file = (\<lambda>p. Inr p),
      ow_json_text = (\<lambda>j. Inr \<lparr>client_id = ''i'', client_secret = ''s'', client_email = None,
        private_issuer_url = None\<rparr>),
      ow_data_url = (\<lambda>u. Inr u), ow_data_decode = (\<lambda>d. Inr []), ow_json_bytes = (\<lambda>b. Inl ''''),
      ow_discover = (\<lambda>u. Inr (Some ''endpoint'')),
      ow_request = (\<lambda>q. Inr \<lparr>access_token = ''x'', expires_in = Some 100\<rparr>),
      ow_mul_f32 = (\<lambda>d. d * 9 div 10), ow_expired_clock = 5, ow_expiring_clock = 5, ow_received_clock = 6,
      ow_last_instant = 1000\<rparr>"

definition ex_oauth :: OAuth2Authentication where
  "ex_oauth = client_credentials
     \<lparr>issuer_url = ''i'', credentials_url = ''c'', audience = None, scope = None\<rparr>"

lemma ex_oauth_init:
  "oauth_initialize ex_world ex_oauth = (Inr (), snd (oauth_initialize ex_world ex_oauth))"
  by (simp add: oauth_initialize_def read_private_params_def oauth_token_url_def ex_world_def ex_oauth_def
      client_credentials_def)

section \<open>Properties\<close>

text \<open>C24: No stale token. What an initialized OAuth2 provider hands out is the token it has just fetched, or
  the cached one, and the cached one only if it had not expired; if it has, or there is none, and
  the provider cannot fetch a new one, it fails and forgets the old one. It panics only if the new token lasts
  beyond the last instant the clock can represent, and then keeps what it had.\<close>

theorem oauth_never_stale:
  assumes "private_params s \<noteq> None" and "oauth_auth_data w s = (r, s')"
  shows "case r of
      None \<Rightarrow>
        cached_token s' = cached_token s \<and>
        (\<exists>resp. fst (fetch_token w s) = Some (Inr resp) \<and> cached_token_from w resp = None)
    | Some (Inr secret) \<Rightarrow>
        (\<exists>t. cached_token s' = Some t \<and> token_secret t = secret \<and>
           ((\<exists>resp. fst (fetch_token w s) = Some (Inr resp) \<and> cached_token_from w resp = Some t) \<or>
            (cached_token s = Some t \<and> \<not> is_expired (ow_expired_clock w) t)))
    | Some (Inl err) \<Rightarrow>
        cached_token s' = None \<and> (\<exists>e. fst (fetch_token w s) = Some (Inl e) \<and> err = AuthCustom e)"
  using assms(1)
  by (cases rule: oauth_auth_data_cases [where w = w])
    (use assms(2) in \<open>auto dest: fetch_token_keeps(3)\<close>)

theorem oauth_never_stale_witness:
  "\<exists>s r s'. oauth_initialize ex_world ex_oauth = (Inr (), s) \<and> oauth_auth_data ex_world s = (r, s') \<and>
    (case r of
      None \<Rightarrow>
        cached_token s' = cached_token s \<and>
        (\<exists>resp. fst (fetch_token ex_world s) = Some (Inr resp) \<and> cached_token_from ex_world resp = None)
    | Some (Inr secret) \<Rightarrow>
        (\<exists>t. cached_token s' = Some t \<and> token_secret t = secret \<and>
           ((\<exists>resp. fst (fetch_token ex_world s) = Some (Inr resp) \<and> cached_token_from ex_world resp = Some t) \<or>
            (cached_token s = Some t \<and> \<not> is_expired (ow_expired_clock ex_world) t)))
    | Some (Inl err) \<Rightarrow>
        cached_token s' = None \<and> (\<exists>e. fst (fetch_token ex_world s) = Some (Inl e) \<and> err = AuthCustom e))"
proof -
  obtain s where s: "oauth_initialize ex_world ex_oauth = (Inr (), s)" using ex_oauth_init by blast
  obtain r s' where d: "oauth_auth_data ex_world s = (r, s')" by fastforce
  have "private_params s \<noteq> None" using oauth.init_ready [OF s] .
  from s d oauth_never_stale [OF this d] show ?thesis by blast
qed

text \<open>An initialized provider serves every connection: no request for the authentication data panics, however
  many connections ask and whenever tokens expire, as long as no token lasts longer than the clock
  can represent; one that does makes the provider panic.\<close>

lemma oauth_serves_connections:
  assumes "oauth_initialize w s = (Inr (), s')" and "list_all (\<lambda>w. \<not> lasts_too_long w) ws"
  shows "None \<notin> set (fst (auth_calls oauth_auth_data ws s'))"
  using oauth.initialized_serves [OF assms(1), of ws] assms(2) by (auto simp: list_all_iff)

lemma long_lasting_token_panics:
  assumes "private_params s \<noteq> None" and "cached_token s = None"
    and "fst (fetch_token w s) = Some (Inr \<lparr>access_token = a, expires_in = Some d\<rparr>)"
    and "ow_last_instant w < ow_received_clock w + d"
  shows "fst (oauth_auth_data w s) = None"
  using assms
  by (cases "fetch_token w s") (auto simp: oauth_auth_data_def cached_token_from_def add_instant_def Let_def split: option.split)

text \<open>A token that neither expires soon nor has expired is not fetched again.\<close>

lemma fresh_token_reused:
  assumes "private_params s \<noteq> None" and "cached_token s = Some t"
    and "\<not> is_expired (ow_expired_clock w) t" and "\<not> is_expiring (ow_expiring_clock w) t"
  shows "oauth_auth_data w s = (Some (Inr (token_secret t)), s)"
  using assms by (simp add: oauth_auth_data_def)

end
