(* ===== verification/Client.thy ===== *)
theory Client
  imports ConsumerBuilder Producer Auth "HOL-Library.Multiset"
begin

text \<open>
  \<open>src/client.rs\<close>: the client, which holds the connection manager and the queue to a background
  task that sends single messages; its builder; the lookups it offers; and the formats in which
  messages are written and read. A Rust \<open>String\<close> is the list of its bytes as characters; which
  lists of bytes are one is decided by \<open>utf8_valid\<close>.
\<close>

section \<open>Message formats\<close>

definition is_continuation :: "u8 \<Rightarrow> bool" where
  "is_continuation b \<longleftrightarrow> 0x80 \<le> b \<and> b \<le> 0xBF"

text \<open>The byte sequences \<open>String::from_utf8\<close> accepts: no overlong forms, no surrogates, nothing above
  U+10FFFF.\<close>

definition second_of_three :: "u8 \<Rightarrow> u8 \<Rightarrow> bool" where
  "second_of_three b c \<longleftrightarrow>
     (if b = 0xE0 then 0xA0 \<le> c \<and> c \<le> 0xBF
      else if b = 0xED then 0x80 \<le> c \<and> c \<le> 0x9F
      else is_continuation c)"

definition second_of_four :: "u8 \<Rightarrow> u8 \<Rightarrow> bool" where
  "second_of_four b c \<longleftrightarrow>
     (if b = 0xF0 then 0x90 \<le> c \<and> c \<le> 0xBF
      else if b = 0xF4 then 0x80 \<le> c \<and> c \<le> 0x8F
      else is_continuation c)"

fun utf8_valid :: "bytes \<Rightarrow> bool" where
  "utf8_valid [] \<longleftrightarrow> True"
| "utf8_valid (b # bs) \<longleftrightarrow>
     (if b \<le> 0x7F then utf8_valid bs
      else if 0xC2 \<le> b \<and> b \<le> 0xDF then
        (case bs of c # r \<Rightarrow> is_continuation c \<and> utf8_valid r | _ \<Rightarrow> False)
      else if 0xE0 \<le> b \<and> b \<le> 0xEF then
        (case bs of c # d # r \<Rightarrow> second_of_three b c \<and> is_continuation d \<and> utf8_valid r | _ \<Rightarrow> False)
      else if 0xF0 \<le> b \<and> b \<le> 0xF4 then
        (case bs of
           c # d # e # r \<Rightarrow>
             second_of_four b c \<and> is_continuation d \<and> is_continuation e \<and> utf8_valid r
         | _ \<Rightarrow> False)
      else False)"

definition into_bytes :: "string \<Rightarrow> bytes" where
  "into_bytes s = map of_char s"

definition from_utf8 :: "bytes \<Rightarrow> (bytes, string) res" where
  "from_utf8 bs = (if utf8_valid bs then Inr (map (\<lambda>b. char_of (unat b)) bs) else Inl bs)"

definition deserialize_bytes :: "payload \<Rightarrow> bytes" where
  "deserialize_bytes p = data p"

definition deserialize_string :: "payload \<Rightarrow> (bytes, string) res" where
  "deserialize_string p = from_utf8 (data p)"

definition cm_deserialize :: "(payload \<Rightarrow> 'a) \<Rightarrow> ConsMessage \<Rightarrow> 'a" where
  "cm_deserialize deserialize_message m = deserialize_message (cm_payload m)"

definition default_message :: ProdMessage where
  "default_message =
     \<lparr>m_payload = [], m_properties = [], m_partition_key = None, m_ordering_key = None,
      m_replicate_to = [], m_event_time = None, m_schema_version = None\<rparr>"

definition serialize_message :: "ProdMessage \<Rightarrow> (pulsar_error, ProdMessage) res" where
  "serialize_message m = Inr m"

definition serialize_unit :: "unit \<Rightarrow> (pulsar_error, ProdMessage) res" where
  "serialize_unit u = Inr default_message"

definition serialize_slice :: "bytes \<Rightarrow> (pulsar_error, ProdMessage) res" where
  "serialize_slice bs = Inr (default_message\<lparr>m_payload := bs\<rparr>)"

definition serialize_bytes :: "bytes \<Rightarrow> (pulsar_error, ProdMessage) res" where
  "serialize_bytes bs = Inr (default_message\<lparr>m_payload := bs\<rparr>)"

definition serialize_string :: "string \<Rightarrow> (pulsar_error, ProdMessage) res" where
  "serialize_string s = Inr (default_message\<lparr>m_payload := into_bytes s\<rparr>)"

definition serialize_string_ref :: "string \<Rightarrow> (pulsar_error, ProdMessage) res" where
  "serialize_string_ref s = Inr (default_message\<lparr>m_payload := into_bytes s\<rparr>)"

definition serialize_str :: "string \<Rightarrow> (pulsar_error, ProdMessage) res" where
  "serialize_str s = Inr (default_message\<lparr>m_payload := into_bytes s\<rparr>)"

text \<open>What an application relies on in a pair of formats: what was written is read back from any
  message with the same payload.\<close>

locale message_format =
  fixes valid :: "'a \<Rightarrow> bool"
    and serialize :: "'a \<Rightarrow> (pulsar_error, ProdMessage) res"
    and deserialize :: "payload \<Rightarrow> ('e, 'a) res"
  assumes serialize_total: "valid x \<Longrightarrow> is_ok (serialize x)"
    and read_back: "valid x \<Longrightarrow> serialize x = Inr m \<Longrightarrow> data p = m_payload m \<Longrightarrow> deserialize p = Inr x"
begin

lemma payload_determines:
  assumes "valid x" and "valid y" and "serialize x = Inr m" and "serialize y = Inr n"
    and "m_payload m = m_payload n"
  shows "x = y"
proof -
  let ?p = "\<lparr>metadata = default_message_metadata, data = m_payload m\<rparr>"
  have "deserialize ?p = Inr x" by (rule read_back [OF assms(1,3)]) simp
  moreover have "deserialize ?p = Inr y" by (rule read_back [OF assms(2,4)]) (simp add: assms(5))
  ultimately show ?thesis by simp
qed

lemma all_read_back:
  assumes "list_all valid xs" and "map serialize xs = map Inr ms" and "map data ps = map m_payload ms"
  shows "map deserialize ps = map Inr xs"
  using assms
proof (induction xs arbitrary: ms ps)
  case Nil
  then show ?case by simp
next
  case (Cons x xs)
  from Cons.prems(2) obtain m ms' where ms: "ms = m # ms'" "serialize x = Inr m"
      "map serialize xs = map Inr ms'" by (cases ms) auto
  from Cons.prems(3) ms(1) obtain p ps' where ps: "ps = p # ps'" "data p = m_payload m"
      "map data ps' = map m_payload ms'" by (cases ps) auto
  from Cons.IH [OF _ ms(3) ps(3)] read_back [OF _ ms(2) ps(2)] Cons.prems(1) show ?case
    by (simp add: ps(1))
qed

end

lemma from_utf8_into_bytes:
  assumes "utf8_valid (into_bytes s)"
  shows "from_utf8 (into_bytes s) = Inr s"
proof -
  have "char_of (unat (of_char c :: u8)) = c" for c
  proof -
    have "(of_char c :: u8) = of_nat (of_char c)" by (simp only: of_nat_of_char)
    moreover have "unat (of_nat (of_char c) :: u8) = of_char c"
      using nat_of_char_less_256 [of c] by (simp add: unat_of_nat take_bit_nat_eq_self)
    ultimately have "unat (of_char c :: u8) = of_char c" by simp
    then show ?thesis by simp
  qed
  with assms show ?thesis by (simp add: from_utf8_def into_bytes_def comp_def)
qed

interpretation bytes_format: message_format "\<lambda>x. True" serialize_bytes "\<lambda>p. Inr (deserialize_bytes p)"
  by unfold_locales (auto simp: serialize_bytes_def deserialize_bytes_def)

interpretation string_format: message_format "\<lambda>s. utf8_valid (into_bytes s)" serialize_string deserialize_string
  by unfold_locales (auto simp: serialize_string_def deserialize_string_def from_utf8_into_bytes)

section \<open>The client\<close>

record SendMessage =
  snd_topic :: string
  snd_message :: ProdMessage
  snd_resolver :: nat

text \<open>The queue to the background task, and whether the task still reads it. One-shot channels are
  numbered in the order in which the client creates them.\<close>

record producer_channel =
  pc_queue :: "SendMessage list"
  pc_open :: bool
  pc_next :: nat

record Pulsar =
  pl_manager :: ConnectionManager
  pl_producer :: "producer_channel option"
  pl_operation_retry_options :: OperationRetryOptions

text \<open>\<open>created\<close> is the result of creating the manager; the executor takes the two tasks or not.\<close>

definition pulsar_new_with ::
  "(connection_error, ConnectionManager) res option \<Rightarrow> OperationRetryOptions \<Rightarrow> bool \<Rightarrow> bool
     \<Rightarrow> (pulsar_error, Pulsar) res option" where
  "pulsar_new_with created retry spawn_check spawn_producer =
     (case created of
        None \<Rightarrow> None
      | Some (Inl err) \<Rightarrow> Some (Inl (EConnection err))
      | Some (Inr M) \<Rightarrow>
          (if \<not> spawn_check then Some (Inl (EConnection Shutdown))
           else Some (Inr
             \<lparr>pl_manager = M,
              pl_producer = Some \<lparr>pc_queue = [], pc_open = spawn_producer, pc_next = 0\<rparr>,
              pl_operation_retry_options = retry\<rparr>)))"

definition pulsar_new ::
  "(base_command \<Rightarrow> string) \<Rightarrow> (string \<Rightarrow> url option) \<Rightarrow> (bytes \<Rightarrow> (string, bytes list) res)
     \<Rightarrow> (bytes \<Rightarrow> (string, bytes) res) \<Rightarrow> string \<Rightarrow> auth_provider option
     \<Rightarrow> (authentication_error, unit) res \<Rightarrow> ConnectionRetryOptions option \<Rightarrow> OperationRetryOptions option
     \<Rightarrow> TlsOptions option \<Rightarrow> executor_kind \<Rightarrow> (net \<times> nat) list \<Rightarrow> bool \<Rightarrow> bool \<Rightarrow> bool
     \<Rightarrow> (pulsar_error, Pulsar) res option" where
  "pulsar_new dbg parse_url parse_pem from_der u auth initialized retry operation_retry tls kind Ns
       spawned spawn_check spawn_producer =
     (let operation_retry =
        (case operation_retry of None \<Rightarrow> operation_retry_options_default | Some r \<Rightarrow> r) in
      pulsar_new_with
        (manager_new dbg parse_url parse_pem from_der u auth initialized retry operation_retry tls kind
           Ns spawned)
        operation_retry spawn_check spawn_producer)"

definition pulsar_consumer :: ConsumerBuilder where
  "pulsar_consumer = consumer_builder_new"

definition pulsar_producer :: ProducerBuilder where
  "pulsar_producer = producer_builder_new"

definition pulsar_reader :: ConsumerBuilder where
  "pulsar_reader =
     consumer_with_options (with_initial_position Latest (durable False consumer_options_default))
       consumer_builder_new"

section \<open>Lookups\<close>

definition pulsar_lookup_topic ::
  "(base_command \<Rightarrow> string) \<Rightarrow> (string \<Rightarrow> url option) \<Rightarrow> Pulsar \<Rightarrow> string
     \<Rightarrow> (connection_error, Connection) res \<Rightarrow> lookup_round list
     \<Rightarrow> (pulsar_error, BrokerAddress) res outcome" where
  "pulsar_lookup_topic dbg parse_url P topic base Rs =
     (case discovery_lookup_topic dbg parse_url (pl_manager P) topic base Rs of
        Value r \<Rightarrow> Value (map_err EServiceDiscovery r)
      | Panics \<Rightarrow> Panics
      | Unfinished \<Rightarrow> Unfinished)"

definition pulsar_lookup_partitioned_topic_number ::
  "(base_command \<Rightarrow> string) \<Rightarrow> Pulsar \<Rightarrow> string \<Rightarrow> (connection_error, Connection) res
     \<Rightarrow> partition_round list \<Rightarrow> (pulsar_error, u32) res option" where
  "pulsar_lookup_partitioned_topic_number dbg P topic base Rs =
     map_option (map_err EServiceDiscovery)
       (lookup_partitioned_topic_number dbg (pl_manager P) topic base Rs)"

definition pulsar_lookup_partitioned_topic ::
  "(service_discovery_error, u32) res option
     \<Rightarrow> (string \<Rightarrow> (service_discovery_error, BrokerAddress) res option) \<Rightarrow> string
     \<Rightarrow> (pulsar_error, (string \<times> BrokerAddress) list) res option" where
  "pulsar_lookup_partitioned_topic number lookup topic =
     map_option (map_err EServiceDiscovery) (discovery_lookup_partitioned_topic number lookup topic)"

definition pulsar_get_topics_of_namespace ::
  "(base_command \<Rightarrow> string) \<Rightarrow> (connection_error, Connection) res \<Rightarrow> string \<Rightarrow> topics_mode
     \<Rightarrow> pulsar_message awaited \<Rightarrow> (pulsar_error, string list) res \<times> Connection option" where
  "pulsar_get_topics_of_namespace dbg base namespace mode response =
     (case base of
        Inl err \<Rightarrow> (Inl (EConnection err), None)
      | Inr conn \<Rightarrow>
          (case sender_get_topics_of_namespace dbg namespace mode response (conn_sender conn) of
             (r, s) \<Rightarrow>
               (bind_res (map_err EConnection r) (\<lambda>x. Inr (gtr_topics x)),
                Some (conn\<lparr>conn_sender := s\<rparr>))))"

section \<open>Sending single messages\<close>

text \<open>The result is the number of the one-shot channel on which the receipt arrives; \<open>None\<close> is the panic
  of a client that has no queue, the one inside the background task.\<close>

definition pulsar_send_raw ::
  "ProdMessage \<Rightarrow> string \<Rightarrow> Pulsar \<Rightarrow> (pulsar_error, nat) res option \<times> Pulsar" where
  "pulsar_send_raw msg topic P =
     (case pl_producer P of
        None \<Rightarrow> (None, P)
      | Some ch \<Rightarrow>
          (let resolver = pc_next ch; ch = ch\<lparr>pc_next := resolver + 1\<rparr> in
           if pc_open ch then
             (Some (Inr resolver),
              P\<lparr>pl_producer := Some (ch\<lparr>pc_queue := pc_queue ch @
                [\<lparr>snd_topic = topic, snd_message = msg, snd_resolver = resolver\<rparr>]\<rparr>)\<rparr>)
           else (Some (Inl (ECustom ''producer unexpectedly disconnected'')), P\<lparr>pl_producer := Some ch\<rparr>)))"

definition pulsar_send ::
  "('a \<Rightarrow> (pulsar_error, ProdMessage) res) \<Rightarrow> string \<Rightarrow> 'a \<Rightarrow> Pulsar
     \<Rightarrow> (pulsar_error, nat) res option \<times> Pulsar" where
  "pulsar_send write topic x P =
     (case write x of
        Inl err \<Rightarrow> (Some (Inl err), P)
      | Inr msg \<Rightarrow> pulsar_send_raw msg topic P)"

text \<open>
  The client with its background task: the task holds the producer of many topics, and has spawned a
  task for every send that gave a future, which waits for the receipt and sends it on the one-shot
  channel of the message. \<open>cl_answers\<close> are the answers in the order in which they were given, \<open>cl_dropped\<close> the
  channels that were dropped without an answer, and \<open>cl_log\<close> records what every send gave.
\<close>

record client_system =
  cl_client :: Pulsar
  cl_running :: bool
  cl_producer :: MultiTopicProducer
  cl_tasks :: "(nat \<times> string \<times> nat) list"
  cl_answers :: "(nat \<times> (pulsar_error, command_send_receipt) res) list"
  cl_dropped :: "nat list"
  cl_log :: "(SendMessage \<times> (pulsar_error, nat) res) list"

definition client_system_new :: "Pulsar \<Rightarrow> client_system" where
  "client_system_new P =
     \<lparr>cl_client = P, cl_running = True, cl_producer = build_multi_topic pulsar_producer, cl_tasks = [],
      cl_answers = [], cl_dropped = [], cl_log = []\<rparr>"

text \<open>A background task that panics drops the queue with all channels in it.\<close>

definition background_panics :: "SendMessage \<Rightarrow> client_system \<Rightarrow> client_system" where
  "background_panics q s =
     (case pl_producer (cl_client s) of
        None \<Rightarrow> s\<lparr>cl_running := False, cl_dropped := cl_dropped s @ [snd_resolver q]\<rparr>
      | Some ch \<Rightarrow>
          s\<lparr>cl_running := False,
            cl_dropped := cl_dropped s @ map snd_resolver (q # pc_queue ch),
            cl_client := (cl_client s)\<lparr>pl_producer := Some (ch\<lparr>pc_queue := [], pc_open := False\<rparr>)\<rparr>\<rparr>)"

text \<open>One turn of the background task with the message it has taken from the queue. An error is answered at
  once; a receipt is left to a task of its own, if the executor takes it.\<close>

definition run_producer ::
  "build_env \<Rightarrow> producer_env \<Rightarrow> bool \<Rightarrow> SendMessage \<Rightarrow> client_system \<Rightarrow> client_system" where
  "run_producer B E spawned q s =
     (case mtp_send B E (snd_topic q) (serialize_message (snd_message q)) (cl_producer s) of
        (Some (Some (Inr future)), p) \<Rightarrow>
          (let s = s\<lparr>cl_producer := p, cl_log := cl_log s @ [(q, Inr future)]\<rparr> in
           if spawned then s\<lparr>cl_tasks := cl_tasks s @ [(snd_resolver q, snd_topic q, future)]\<rparr>
           else s\<lparr>cl_dropped := cl_dropped s @ [snd_resolver q]\<rparr>)
      | (Some (Some (Inl err)), p) \<Rightarrow>
          s\<lparr>cl_producer := p, cl_log := cl_log s @ [(q, Inl err)],
            cl_answers := cl_answers s @ [(snd_resolver q, Inl err)]\<rparr>
      | (_, p) \<Rightarrow> background_panics q (s\<lparr>cl_producer := p\<rparr>))"

text \<open>
  The steps of the system: the application calls \<open>send\<close>, the background task takes the next message, or a
  spawned task is given the result of its future, in any order. A send that does not end is a turn that
  is never taken.
\<close>

datatype client_event =
    Called string ProdMessage "(pulsar_error, nat) res option"
  | Turned bool
  | Completed string nat "(pulsar_error, command_send_receipt) res"

inductive client_step :: "client_system \<Rightarrow> client_event \<Rightarrow> client_system \<Rightarrow> bool" where
  application_sends: "pulsar_send_raw msg topic (cl_client s) = (r, P) \<Longrightarrow>
    client_step s (Called topic msg r) (s\<lparr>cl_client := P\<rparr>)"
| background_turn: "cl_running s \<Longrightarrow> pl_producer (cl_client s) = Some ch \<Longrightarrow> pc_queue ch = q # qs \<Longrightarrow>
    client_step s (Turned spawned) (run_producer B E spawned q
      (s\<lparr>cl_client := (cl_client s)\<lparr>pl_producer := Some (ch\<lparr>pc_queue := qs\<rparr>)\<rparr>\<rparr>))"
| receipt_task: "cl_tasks s = xs @ (i, topic, future) # ys \<Longrightarrow>
    client_step s (Completed topic future r)
      (s\<lparr>cl_tasks := xs @ ys, cl_answers := cl_answers s @ [(i, r)]\<rparr>)"

inductive_cases client_stepE: "client_step s l s'"

section \<open>The builder\<close>

record PulsarBuilder =
  plb_url :: string
  plb_auth_provider :: "auth_provider option"
  plb_connection_retry_options :: "ConnectionRetryOptions option"
  plb_operation_retry_options :: "OperationRetryOptions option"
  plb_tls_options :: "TlsOptions option"

definition pulsar_builder :: "string \<Rightarrow> PulsarBuilder" where
  "pulsar_builder u =
     \<lparr>plb_url = u, plb_auth_provider = None, plb_connection_retry_options = None,
      plb_operation_retry_options = None, plb_tls_options = None\<rparr>"

definition with_auth_provider :: "auth_provider \<Rightarrow> PulsarBuilder \<Rightarrow> PulsarBuilder" where
  "with_auth_provider auth b = b\<lparr>plb_auth_provider := Some auth\<rparr>"

definition with_auth :: "Authentication \<Rightarrow> PulsarBuilder \<Rightarrow> PulsarBuilder" where
  "with_auth auth b = with_auth_provider (fixed_method_name auth, Inr (auth_bytes auth)) b"

definition with_connection_retry_options :: "ConnectionRetryOptions \<Rightarrow> PulsarBuilder \<Rightarrow> PulsarBuilder"
where
  "with_connection_retry_options r b = b\<lparr>plb_connection_retry_options := Some r\<rparr>"

definition with_operation_retry_options :: "OperationRetryOptions \<Rightarrow> PulsarBuilder \<Rightarrow> PulsarBuilder" where
  "with_operation_retry_options r b = b\<lparr>plb_operation_retry_options := Some r\<rparr>"

definition with_certificate_chain :: "bytes \<Rightarrow> PulsarBuilder \<Rightarrow> PulsarBuilder" where
  "with_certificate_chain chain b =
     (case plb_tls_options b of
        Some tls \<Rightarrow> b\<lparr>plb_tls_options := Some (tls\<lparr>tls_certificate_chain := Some chain\<rparr>)\<rparr>
      | None \<Rightarrow> b\<lparr>plb_tls_options := Some (tls_options_default\<lparr>tls_certificate_chain := Some chain\<rparr>)\<rparr>)"

definition with_allow_insecure_connection :: "bool \<Rightarrow> PulsarBuilder \<Rightarrow> PulsarBuilder" where
  "with_allow_insecure_connection allow b =
     (case plb_tls_options b of
        Some tls \<Rightarrow> b\<lparr>plb_tls_options := Some (tls\<lparr>allow_insecure_connection := allow\<rparr>)\<rparr>
      | None \<Rightarrow> b\<lparr>plb_tls_options := Some (tls_options_default\<lparr>allow_insecure_connection := allow\<rparr>)\<rparr>)"

definition with_tls_hostname_verification_enabled :: "bool \<Rightarrow> PulsarBuilder \<Rightarrow> PulsarBuilder" where
  "with_tls_hostname_verification_enabled enabled b =
     (case plb_tls_options b of
        Some tls \<Rightarrow> b\<lparr>plb_tls_options := Some (tls\<lparr>tls_hostname_verification_enabled := enabled\<rparr>)\<rparr>
      | None \<Rightarrow>
          b\<lparr>plb_tls_options := Some (tls_options_default\<lparr>tls_hostname_verification_enabled := enabled\<rparr>)\<rparr>)"

text \<open>\<open>read\<close> is the content of the file.\<close>

definition with_certificate_chain_file ::
  "(io_error, bytes) res \<Rightarrow> PulsarBuilder \<Rightarrow> (io_error, PulsarBuilder) res" where
  "with_certificate_chain_file read b = bind_res read (\<lambda>chain. Inr (with_certificate_chain chain b))"

definition pulsar_build ::
  "(base_command \<Rightarrow> string) \<Rightarrow> (string \<Rightarrow> url option) \<Rightarrow> (bytes \<Rightarrow> (string, bytes list) res)
     \<Rightarrow> (bytes \<Rightarrow> (string, bytes) res) \<Rightarrow> (authentication_error, unit) res \<Rightarrow> executor_kind
     \<Rightarrow> (net \<times> nat) list \<Rightarrow> bool \<Rightarrow> bool \<Rightarrow> bool \<Rightarrow> PulsarBuilder \<Rightarrow> (pulsar_error, Pulsar) res option" where
  "pulsar_build dbg parse_url parse_pem from_der initialized kind Ns spawned spawn_check spawn_producer b =
     pulsar_new dbg parse_url parse_pem from_der (plb_url b) (plb_auth_provider b) initialized
       (plb_connection_retry_options b) (plb_operation_retry_options b) (plb_tls_options b) kind Ns
       spawned spawn_check spawn_producer"

section \<open>Lemmas\<close>

text \<open>The messages that were accepted, with their channels, and the results the futures gave.\<close>

definition accepted_sends :: "client_event list \<Rightarrow> (nat \<times> string \<times> ProdMessage) list" where
  "accepted_sends ls =
     concat (map (\<lambda>l. case l of Called topic msg (Some (Inr i)) \<Rightarrow> [(i, topic, msg)] | _ \<Rightarrow> []) ls)"

definition completions :: "client_event list \<Rightarrow> (string \<times> nat \<times> (pulsar_error, command_send_receipt) res) list" where
  "completions ls = concat (map (\<lambda>l. case l of Completed topic future r \<Rightarrow> [(topic, future, r)] | _ \<Rightarrow> []) ls)"

lemma accepted_simps [simp]: "accepted_sends [] = []" "accepted_sends (ls @ ls') = accepted_sends ls @ accepted_sends ls'"
  by (simp_all add: accepted_sends_def)

lemma completions_simps [simp]: "completions [] = []" "completions (ls @ ls') = completions ls @ completions ls'"
  by (simp_all add: completions_def)

definition queued_as :: "SendMessage \<Rightarrow> nat \<times> string \<times> ProdMessage" where
  "queued_as q = (snd_resolver q, snd_topic q, snd_message q)"

text \<open>The answer on the channel of a message is the error its own send gave, or the result of the future that
  its own send gave.\<close>

definition own_answer ::
  "(SendMessage \<times> (pulsar_error, nat) res) list \<Rightarrow> (string \<times> nat \<times> (pulsar_error, command_send_receipt) res) list
     \<Rightarrow> nat \<times> (pulsar_error, command_send_receipt) res \<Rightarrow> bool" where
  "own_answer log cs a \<longleftrightarrow>
     (\<exists>q out. (q, out) \<in> set log \<and> snd_resolver q = fst a \<and>
        (case out of Inl err \<Rightarrow> snd a = Inl err | Inr future \<Rightarrow> (snd_topic q, future, snd a) \<in> set cs))"

lemma own_answer_mono:
  assumes "own_answer log cs a" and "set log \<subseteq> set log'" and "set cs \<subseteq> set cs'"
  shows "own_answer log' cs' a"
proof -
  obtain q out where "(q, out) \<in> set log" "snd_resolver q = fst a"
      "case out of Inl err \<Rightarrow> snd a = Inl err | Inr future \<Rightarrow> (snd_topic q, future, snd a) \<in> set cs"
    using assms(1) by (auto simp: own_answer_def)
  moreover from this(3) assms(3)
  have "case out of Inl err \<Rightarrow> snd a = Inl err | Inr future \<Rightarrow> (snd_topic q, future, snd a) \<in> set cs'"
    by (auto split: sum.splits)
  ultimately show ?thesis using assms(2) unfolding own_answer_def by blast
qed

text \<open>The channels of the messages, by where they are.\<close>

definition channels_of :: "client_system \<Rightarrow> nat list" where
  "channels_of s =
     map fst (cl_answers s) @ map fst (cl_tasks s) @ cl_dropped s @
     (case pl_producer (cl_client s) of None \<Rightarrow> [] | Some ch \<Rightarrow> map snd_resolver (pc_queue ch))"

definition client_inv :: "client_event list \<Rightarrow> client_system \<Rightarrow> bool" where
  "client_inv ls s \<longleftrightarrow>
     (\<exists>ch. pl_producer (cl_client s) = Some ch \<and> pc_open ch = cl_running s \<and>
        (if cl_running s
         then pc_next ch = length (accepted_sends ls) \<and>
           accepted_sends ls = map (queued_as \<circ> fst) (cl_log s) @ map queued_as (pc_queue ch)
         else pc_queue ch = [] \<and> (\<exists>rest. accepted_sends ls = map (queued_as \<circ> fst) (cl_log s) @ rest))) \<and>
     map fst (accepted_sends ls) = [0..<length (accepted_sends ls)] \<and>
     mset (channels_of s) = mset [0..<length (accepted_sends ls)] \<and>
     list_all (\<lambda>(i, topic, future). \<exists>q. (q, Inr future) \<in> set (cl_log s) \<and> snd_resolver q = i \<and> snd_topic q = topic)
       (cl_tasks s) \<and>
     list_all (own_answer (cl_log s) (completions ls)) (cl_answers s) \<and>
     (cl_dropped s = [] \<or> cl_running s = False \<or> Turned False \<in> set ls)"

lemma client_inv_sends:
  assumes "client_inv ls s" and "pulsar_send_raw msg topic (cl_client s) = (r, P)"
  shows "client_inv (ls @ [Called topic msg r]) (s\<lparr>cl_client := P\<rparr>)"
proof -
  have "completions [Called topic msg r] = []" by (simp add: completions_def)
  moreover have "accepted_sends [Called topic msg (Some (Inr i))] = [(i, topic, msg)]"
    "accepted_sends [Called topic msg (Some (Inl err))] = []" for i err by (simp_all add: accepted_sends_def)
  ultimately show ?thesis
    using assms
    by (auto simp: client_inv_def pulsar_send_raw_def channels_of_def queued_as_def Let_def simp del: mset_upt
        split: option.splits if_splits)
qed

lemma client_inv_turn:
  assumes "client_inv ls s" and "cl_running s" and "pl_producer (cl_client s) = Some ch" and "pc_queue ch = q # qs"
  shows "client_inv (ls @ [Turned spawned]) (run_producer B E spawned q
    (s\<lparr>cl_client := (cl_client s)\<lparr>pl_producer := Some (ch\<lparr>pc_queue := qs\<rparr>)\<rparr>\<rparr>))"
proof -
  have l: "accepted_sends [Turned spawned] = []" "completions [Turned spawned] = []"
    by (simp_all add: accepted_sends_def completions_def)
  obtain out p where send: "mtp_send B E (snd_topic q) (serialize_message (snd_message q)) (cl_producer s) = (out, p)"
    by fastforce
  have mono: "list_all (own_answer (cl_log s @ [x]) (completions ls)) (cl_answers s)" for x
    using assms(1) by (auto simp: client_inv_def list_all_iff elim!: own_answer_mono)
  have tasks: "list_all (\<lambda>(i, topic, future). \<exists>q. (q, Inr future) \<in> set (cl_log s @ [x]) \<and> snd_resolver q = i \<and>
      snd_topic q = topic) (cl_tasks s)" for x
    using assms(1) by (fastforce simp: client_inv_def list_all_iff)
  have own_error: "own_answer (cl_log s @ [(q, Inl err)]) (completions ls) (snd_resolver q, Inl err)" for err
    unfolding own_answer_def by (intro exI [of _ q] exI [of _ "Inl err"]) simp
  consider future where "out = Some (Some (Inr future))" | err where "out = Some (Some (Inl err))"
    | "out = None \<or> out = Some None" by (metis option.exhaust sum.exhaust)
  then show ?thesis
  proof cases
    case 1
    then show ?thesis
      using assms mono [of "(q, Inr future)"] tasks [of "(q, Inr future)"] send l
      by (auto simp: client_inv_def run_producer_def channels_of_def Let_def simp del: mset_upt upt_Suc)
  next
    case 2
    then show ?thesis
      using assms mono [of "(q, Inl err)"] tasks [of "(q, Inl err)"] send l
      by (auto simp: client_inv_def run_producer_def channels_of_def Let_def intro: own_error simp del: mset_upt upt_Suc)
  next
    case 3
    then show ?thesis
      using assms send l
      by (auto simp: client_inv_def run_producer_def background_panics_def channels_of_def simp del: mset_upt upt_Suc)
  qed
qed

lemma client_inv_receipt:
  assumes "client_inv ls s" and "cl_tasks s = xs @ (i, topic, future) # ys"
  shows "client_inv (ls @ [Completed topic future r])
    (s\<lparr>cl_tasks := xs @ ys, cl_answers := cl_answers s @ [(i, r)]\<rparr>)"
proof -
  have l: "accepted_sends [Completed topic future r] = []" "completions [Completed topic future r] = [(topic, future, r)]"
    by (simp_all add: accepted_sends_def completions_def)
  have "own_answer (cl_log s) (completions ls @ [(topic, future, r)]) (i, r)"
  proof -
    obtain q where "(q, Inr future) \<in> set (cl_log s)" "snd_resolver q = i" "snd_topic q = topic"
      using assms by (auto simp: client_inv_def)
    then show ?thesis unfolding own_answer_def by (intro exI [of _ q] exI [of _ "Inr future"]) simp
  qed
  moreover have "list_all (own_answer (cl_log s) (completions ls @ [(topic, future, r)])) (cl_answers s)"
    using assms(1) by (auto simp: client_inv_def list_all_iff elim!: own_answer_mono)
  ultimately show ?thesis
    using assms l by (auto simp: client_inv_def channels_of_def)
qed

lemma client_step_inv: "client_step s l s' \<Longrightarrow> client_inv ls s \<Longrightarrow> client_inv (ls @ [l]) s'"
  by (erule client_stepE)
    (simp_all add: client_inv_sends client_inv_receipt client_inv_turn)

lemma client_run_inv: "runs client_step s ls s' \<Longrightarrow> client_inv [] s \<Longrightarrow> client_inv ls s'"
  by (induction rule: runs.induct) (simp_all add: client_step_inv)

lemma client_new_inv:
  assumes "pulsar_new_with (Some (Inr M)) retry True True = Some (Inr P)"
  shows "client_inv [] (client_system_new P)"
  using assms by (auto simp: pulsar_new_with_def client_inv_def client_system_new_def channels_of_def)

section \<open>Properties\<close>

text \<open>C19: Every message given to the client is answered at most once, with its own result. However the calls
  of the application, the turns of the background task and the tasks that wait for receipts
  are interleaved, the accepted messages get the channels \<open>0, 1, 2, ...\<close> and are sent in the order of the calls.
  Each of these channels is at any time in exactly one place: it has been answered, its receipt is awaited by a
  task, it was dropped, or its message is still queued; and an answer is the error that the send of this message
  gave, or the result of the future it gave. Channels are dropped only if the executor refuses a
  task or the background task has panicked. (Answers need not come in the order of the messages.)\<close>

theorem client_sends_answered_once:
  assumes "pulsar_new_with (Some (Inr M)) retry True True = Some (Inr P)"
    and "runs client_step (client_system_new P) ls s"
  shows "map fst (accepted_sends ls) = [0..<length (accepted_sends ls)] \<and>
    (\<exists>rest. accepted_sends ls = map (queued_as \<circ> fst) (cl_log s) @ rest) \<and>
    mset (channels_of s) = mset [0..<length (accepted_sends ls)] \<and>
    list_all (own_answer (cl_log s) (completions ls)) (cl_answers s) \<and>
    (cl_dropped s = [] \<or> cl_running s = False \<or> Turned False \<in> set ls)"
  using client_run_inv [OF assms(2) client_new_inv [OF assms(1)]]
  by (auto simp: client_inv_def split: if_splits)

subsection \<open>Instances for concrete inputs\<close>

text \<open>A client that is given two messages, for a topic that has a producer and for one whose lookup
  fails; the error of the second is answered before the receipt of the first.\<close>

definition ex_manager_client :: Pulsar where
  "ex_manager_client =
     \<lparr>pl_manager = ex_manager, pl_producer = Some \<lparr>pc_queue = [], pc_open = True, pc_next = 0\<rparr>,
      pl_operation_retry_options = operation_retry_options_default\<rparr>"

definition ex_build_env :: build_env where
  "ex_build_env =
     \<lparr>be_partitions = (\<lambda>t. if t = ''t''
        then Some (Inr [(t, \<lparr>broker_address_url = ex_url, broker_url = ''b'', broker_proxy = False\<rparr>)])
        else Some (Inl (EServiceDiscovery SdNotFound))),
      be_connection = (\<lambda>a. Some (Inr (tp_connection ex_producer))),
      be_producer = (\<lambda>t. ex_producer_env\<lparr>pe_attempts := [ex_created]\<rparr>), be_producer_id = (\<lambda>t. 3)\<rparr>"

definition ex_client_events :: "client_event list" where
  "ex_client_events =
     [Called ''t'' default_message (Some (Inr 0)), Called ''u'' default_message (Some (Inr 1)), Turned True, Turned True,
      Completed ''t'' 0 (Inr (CommandSendReceipt 3 0 None))]"

lemma ex_client_new:
  "pulsar_new_with (Some (Inr ex_manager)) operation_retry_options_default True True = Some (Inr ex_manager_client)"
  by (simp add: pulsar_new_with_def ex_manager_client_def)

lemma ex_client_first_send:
  "\<exists>i. mtp_send ex_build_env ex_producer_env ''t'' (serialize_message default_message) (build_multi_topic pulsar_producer) =
     (Some (Some (Inr 0)), (build_multi_topic pulsar_producer)\<lparr>mtp_producers := [''t'' \<mapsto> i]\<rparr>)"
proof -
  have p: "producer_build ex_build_env
      (pb_with_options producer_options_default (pb_with_topic ''t'' producer_builder_new)) =
    Some (Inr (Single ex_created_producer))"
    using ex_creation
    by (simp add: producer_build_def pb_with_options_def pb_with_topic_def producer_builder_new_def ex_build_env_def
        build_partition_def try_join_all_def)
  obtain f where f: "producer_send ex_producer_env (Inr default_message) ex_created_producer =
      (Some (Inr 0), f)"
    unfolding ex_created_producer_def
    by (simp add: from_connection_def ex_producer_env_def compression_available_def producer_options_default_def
      create_attempt_on_def ex_created_def ex_attempt_def sender_create_producer_def next_request_id_eq
      send_message_def open_channel_def registrations_send_def tx_send_def ex_producer_def connection_sender_new_def
      extract_message_def proto_simps producer_send_def send_raw_def send_compress_def compress_def send_inner_def
      send_once_def next_sequence_id_def serial_id_get_def on_producer_sender_def sender_send_def ex_receipt_def Let_def)
  from p f show ?thesis
    by (intro exI [of _ "ProducerInner.Single f"]) (simp add: mtp_send_def serialize_message_def build_multi_topic_def pulsar_producer_def producer_builder_new_def
        inner_send_def on_next_def Let_def)
qed

lemma ex_client_run:
  "\<exists>s. runs client_step (client_system_new ex_manager_client) ex_client_events s \<and>
     cl_answers s = [(1, Inl (EServiceDiscovery SdNotFound)), (0, Inr (CommandSendReceipt 3 0 None))]"
proof -
  let ?q = "\<lambda>t i. \<lparr>snd_topic = t, snd_message = default_message, snd_resolver = i\<rparr>"
  let ?with = "\<lambda>ch. ex_manager_client\<lparr>pl_producer := Some ch\<rparr>"
  define s0 where "s0 = client_system_new ex_manager_client"
  define s1 where "s1 = s0\<lparr>cl_client := ?with \<lparr>pc_queue = [?q ''t'' 0], pc_open = True, pc_next = 1\<rparr>\<rparr>"
  define s2 where "s2 = s0\<lparr>cl_client := ?with \<lparr>pc_queue = [?q ''t'' 0, ?q ''u'' 1], pc_open = True, pc_next = 2\<rparr>\<rparr>"
  obtain i where i: "mtp_send ex_build_env ex_producer_env ''t'' (serialize_message default_message)
      (build_multi_topic pulsar_producer) =
    (Some (Some (Inr 0)), (build_multi_topic pulsar_producer)\<lparr>mtp_producers := [''t'' \<mapsto> i]\<rparr>)"
    using ex_client_first_send by blast
  define s3 where "s3 = s0\<lparr>cl_client := ?with \<lparr>pc_queue = [?q ''u'' 1], pc_open = True, pc_next = 2\<rparr>,
      cl_producer := (build_multi_topic pulsar_producer)\<lparr>mtp_producers := [''t'' \<mapsto> i]\<rparr>,
      cl_tasks := [(0, ''t'', 0)], cl_log := [(?q ''t'' 0, Inr 0)]\<rparr>"
  define s4 where "s4 = s3\<lparr>cl_client := ?with \<lparr>pc_queue = [], pc_open = True, pc_next = 2\<rparr>,
      cl_answers := [(1, Inl (EServiceDiscovery SdNotFound))],
      cl_log := [(?q ''t'' 0, Inr 0), (?q ''u'' 1, Inl (EServiceDiscovery SdNotFound))]\<rparr>"
  have e1: "client_step s0 (Called ''t'' default_message (Some (Inr 0))) s1"
    using application_sends [of default_message "''t''" s0]
    by (simp add: s0_def s1_def client_system_new_def ex_manager_client_def pulsar_send_raw_def)
  have e2: "client_step s1 (Called ''u'' default_message (Some (Inr 1))) s2"
    using application_sends [of default_message "''u''" s1]
    by (simp add: s0_def s1_def s2_def client_system_new_def ex_manager_client_def pulsar_send_raw_def numeral_2_eq_2)
  have e3: "client_step s2 (Turned True) s3"
    using background_turn [of s2 _ "?q ''t'' 0" "[?q ''u'' 1]" True ex_build_env ex_producer_env] i
    by (simp add: s2_def s3_def s0_def client_system_new_def ex_manager_client_def run_producer_def)
  have e4: "client_step s3 (Turned True) s4"
    using background_turn [of s3 _ "?q ''u'' 1" "[]" True ex_build_env ex_producer_env]
    by (simp add: s4_def s3_def s0_def client_system_new_def ex_manager_client_def run_producer_def mtp_send_def
        serialize_message_def build_multi_topic_def pulsar_producer_def producer_builder_new_def producer_build_def
        pb_with_options_def pb_with_topic_def ex_build_env_def Let_def)
  have e5: "client_step s4 (Completed ''t'' 0 (Inr (CommandSendReceipt 3 0 None)))
      (s4\<lparr>cl_tasks := [], cl_answers := cl_answers s4 @ [(0, Inr (CommandSendReceipt 3 0 None))]\<rparr>)"
    using receipt_task [of s4 "[]" 0 "''t''" 0 "[]"] by (simp add: s4_def s3_def)
  have "runs client_step s0 [Called ''t'' default_message (Some (Inr 0))] s1" using e1 by (rule runs_one)
  from runs.runs_snoc [OF runs.runs_snoc [OF runs.runs_snoc [OF runs.runs_snoc [OF this e2] e3] e4] e5]
  show ?thesis unfolding s0_def [symmetric] by (auto simp: ex_client_events_def s4_def)
qed

theorem client_sends_answered_once_witness:
  "\<exists>s. cl_answers s = [(1, Inl (EServiceDiscovery SdNotFound)), (0, Inr (CommandSendReceipt 3 0 None))] \<and>
    map fst (accepted_sends ex_client_events) = [0..<length (accepted_sends ex_client_events)] \<and>
    (\<exists>rest. accepted_sends ex_client_events = map (queued_as \<circ> fst) (cl_log s) @ rest) \<and>
    mset (channels_of s) = mset [0..<length (accepted_sends ex_client_events)] \<and>
    list_all (own_answer (cl_log s) (completions ex_client_events)) (cl_answers s) \<and>
    (cl_dropped s = [] \<or> cl_running s = False \<or> Turned False \<in> set ex_client_events)"
proof -
  obtain s where s: "runs client_step (client_system_new ex_manager_client) ex_client_events s"
      "cl_answers s = [(1, Inl (EServiceDiscovery SdNotFound)), (0, Inr (CommandSendReceipt 3 0 None))]"
    using ex_client_run by blast
  from client_sends_answered_once [OF ex_client_new s(1)] s(2) show ?thesis by blast
qed

text \<open>Strings survive. Strings that a producer writes are read back by a consumer from any messages that
  carry the payloads.\<close>

theorem strings_read_back:
  assumes "list_all (\<lambda>s. utf8_valid (into_bytes s)) xs" and "map serialize_string xs = map Inr ms"
    and "map data ps = map m_payload ms"
  shows "map deserialize_string ps = map Inr xs"
  using assms by (rule string_format.all_read_back)

theorem strings_read_back_witness:
  "map deserialize_string [\<lparr>metadata = default_message_metadata, data = [104, 105]\<rparr>] = map Inr [''hi'']"
  by (rule strings_read_back [where ms = "[default_message\<lparr>m_payload := [104, 105]\<rparr>]"])
    (simp_all add: into_bytes_def serialize_string_def)

text \<open>A client whose background task was not spawned is created all the same, and cannot send.\<close>

lemma unspawned_producer_fails_sends:
  assumes "pulsar_new_with (Some (Inr M)) retry True False = Some (Inr P)"
  shows "fst (pulsar_send_raw msg topic P) = Some (Inl (ECustom ''producer unexpectedly disconnected''))"
  using assms by (auto simp: pulsar_new_with_def pulsar_send_raw_def Let_def)

text \<open>Each of the three TLS options of the builder is kept by the setters of the other two.\<close>

lemma tls_setters_independent:
  "map_option tls_certificate_chain (plb_tls_options (with_allow_insecure_connection a (with_certificate_chain c b)))
     = Some (Some c)"
  "map_option allow_insecure_connection
     (plb_tls_options (with_tls_hostname_verification_enabled v (with_allow_insecure_connection a b))) = Some a"
  "map_option tls_hostname_verification_enabled
     (plb_tls_options (with_certificate_chain c (with_tls_hostname_verification_enabled v b))) = Some v"
  by (simp_all add: with_allow_insecure_connection_def with_certificate_chain_def
      with_tls_hostname_verification_enabled_def split: option.split)

end
