(* ===== verification/Tasks.thy ===== *)
theory Tasks
  imports Client
begin

text \<open>
  The periodic tasks of the client, which run on the intervals of \<open>src/executor.rs\<close>: the heartbeat of
  a connection (\<open>ConnectionManager::connect\<close>), the check of the pooled connections (\<open>Pulsar::new\<close>) and
  the ticker that asks a consumer engine for redelivery (\<open>TopicConsumer::new\<close>). The executor is the
  one the client holds, a shared pointer to an implementation of the trait.

  Between two wake-ups of a task other tasks change what it looks at: every tick starts with a
  function that stands for what they did.
\<close>

section \<open>The heartbeat of a connection\<close>



section \<open>The check of the pool\<close>

record check_tick =
  ck_others :: "ConnectionManager \<Rightarrow> ConnectionManager"
  ck_alive :: bool
  ck_strong :: "Connection \<Rightarrow> nat"

definition check_body :: "('rt \<Rightarrow> check_tick) \<Rightarrow> 'rt \<Rightarrow> ConnectionManager \<Rightarrow> bool \<times> ConnectionManager" where
  "check_body look cx M =
     (let t = look cx; M = ck_others t M in
      if ck_alive t then (True, check_connections (ck_strong t) M) else (False, M))"

section \<open>The redelivery ticker\<close>

definition ticker_body ::
  "('rt \<Rightarrow> TopicConsumer \<Rightarrow> TopicConsumer) \<Rightarrow> 'rt \<Rightarrow> TopicConsumer \<Rightarrow> bool \<times> TopicConsumer" where
  "ticker_body others cx c = engine_send UnackedRedelivery (others cx c)"

section \<open>The tasks on their intervals\<close>

text \<open>An interval that cannot be created panics before the task exists.\<close>

definition on_interval ::
  "('rt, 'task, 'job, 'jh, 'i, 'd) Executor \<Rightarrow> ('rt \<Rightarrow> 'i \<Rightarrow> (unit option poll \<times> 'i) option) \<Rightarrow> nat
     \<Rightarrow> ('rt \<Rightarrow> 's \<Rightarrow> bool \<times> 's) \<Rightarrow> 'rt list \<Rightarrow> 's \<Rightarrow> task_end \<times> 's" where
  "on_interval E next_tick duration body cxs s =
     (case exe_interval E duration of
        None \<Rightarrow> (TaskPanicked, s)
      | Some i \<Rightarrow> interval_task next_tick body cxs i s)"


definition check_task ::
  "('rt, 'task, 'job, 'jh, 'i, 'd) Executor \<Rightarrow> ('rt \<Rightarrow> 'i \<Rightarrow> (unit option poll \<times> 'i) option)
     \<Rightarrow> ('rt \<Rightarrow> check_tick) \<Rightarrow> 'rt list \<Rightarrow> ConnectionManager \<Rightarrow> task_end \<times> ConnectionManager" where
  "check_task E next_tick look cxs M = on_interval E next_tick 60000 (check_body look) cxs M"

definition redelivery_ticker ::
  "('rt, 'task, 'job, 'jh, 'i, 'd) Executor \<Rightarrow> ('rt \<Rightarrow> 'i \<Rightarrow> (unit option poll \<times> 'i) option)
     \<Rightarrow> ('rt \<Rightarrow> TopicConsumer \<Rightarrow> TopicConsumer) \<Rightarrow> 'rt list \<Rightarrow> TopicConsumer
     \<Rightarrow> task_end \<times> TopicConsumer" where
  "redelivery_ticker E next_tick others cxs c =
     on_interval E next_tick 500 (ticker_body others) cxs c"

section \<open>Spawning\<close>

text \<open>The end of \<open>connect\<close> with the executor that is asked to run the heartbeat.\<close>

definition connect_finish_on ::
  "('rt, 'task, 'job, 'jh, 'i, 'd) Executor \<Rightarrow> 'task \<Rightarrow> 'rt \<Rightarrow> BrokerAddress
     \<Rightarrow> (connection_error, Connection) res \<Rightarrow> ConnectionManager
     \<Rightarrow> (connection_error, Connection) res \<times> ConnectionManager" where
  "connect_finish_on E task rt broker r M =
     connect_finish broker (is_ok (fst (exe_spawn E task rt))) r M"

section \<open>Lemmas\<close>

text \<open>On the executor of a client a task runs its body once per tick.\<close>

lemma on_interval_eq:
  assumes "exe_interval (client_executor k T A) duration = Some i" and "async_std_endless A"
    and "no_panic (interval_poll_next T A) cxs i"
  shows "on_interval (client_executor k T A) (interval_poll_next T A) duration body cxs s =
    (case each_tick body (ticks (interval_poll_next T A) cxs i) s of
       (True, s) \<Rightarrow> (StillRunning, s) | (False, s) \<Rightarrow> (Stopped, s))"
  using assms client_exe.periodic [OF assms] by (simp add: on_interval_def)












text \<open>With the executors of the crate the heartbeat is always spawned, so that a connection that was
  opened always reaches the pool and the tasks that wait for it.\<close>

lemma heartbeat_always_spawned:
  "connect_finish_on (client_executor k T A) task rt b (Inr c) M = (Inr c, connect_succeeded b c M)"
  using client_exe.spawn_never_fails [of k T A task rt] by (simp add: connect_finish_on_def connect_finish_def)

text \<open>Every tick of the redelivery ticker is one request to an engine that listens; the first tick that
  finds the engine gone ends the task.\<close>

lemma each_tick_ticker:
  "each_tick (ticker_body (\<lambda>_ c. c)) cxs c =
     (if tc_engine_open c
      then (True, c\<lparr>tc_engine_tx := tc_engine_tx c @ replicate (length cxs) UnackedRedelivery\<rparr>)
      else (cxs = [], c))"
proof (induction cxs arbitrary: c)
  case (Cons cx cxs)
  have "ticker_body (\<lambda>_ c. c) cx c =
      (if tc_engine_open c then (True, c\<lparr>tc_engine_tx := tc_engine_tx c @ [UnackedRedelivery]\<rparr>)
       else (False, c))"
    by (simp add: ticker_body_def engine_send_def)
  then show ?case by (simp add: Cons.IH)
qed simp

lemma redelivery_ticker_asks_every_tick:
  assumes "exe_interval (client_executor k T A) 500 = Some i" and "async_std_endless A"
    and "no_panic (interval_poll_next T A) cxs i" and "tc_engine_open c"
  shows "redelivery_ticker (client_executor k T A) (interval_poll_next T A) (\<lambda>_ c. c) cxs c =
    (StillRunning, c\<lparr>tc_engine_tx := tc_engine_tx c @
       replicate (length (ticks (interval_poll_next T A) cxs i)) UnackedRedelivery\<rparr>)"
  using assms(4) unfolding redelivery_ticker_def on_interval_eq [OF assms(1-3)]
  by (simp add: each_tick_ticker)

text \<open>After a tick of the check every connection of the pool is valid and has another owner.\<close>

lemma check_body_cleans:
  assumes "check_body look cx M = (True, M')" and "mgr_connections M' b = Some (Connected c)"
  shows "is_valid c \<and> 1 < ck_strong (look cx) c"
  using assms
  by (auto simp: check_body_def check_connections_def Let_def split: if_splits option.splits ConnectionStatus.splits)

section \<open>Properties\<close>









end
