(* ===== verification/Exchange.thy ===== *)
theory Exchange
  imports Producer
begin

text \<open>
  Sender and receiver of one connection together: any sequence of the operations a client performs on
  the sender, while the receiver is polled in any way with what the broker sends and with the
  registrations the sender makes. What a connection promises is the join of requests and responses
  on their keys.
\<close>

section \<open>What the receiver sees of the operations\<close>

lemma requests_of_reg_events:
  "requests_of (concat (map reg_events gs)) = request_registrations gs"
  by (induction gs) (simp_all add: request_registrations_def reg_events_def split: Register.split)

lemma responses_of_reg_events [simp]: "responses_of (concat (map reg_events gs)) = []"
  by (induction gs) (simp_all add: reg_events_def split: Register.split)

lemma requests_of_polls:
  "requests_of (concat (map corr_events is)) =
     request_registrations (concat (map (\<lambda>i. ready (in_registrations i)) is))"
proof (induction "is")
  case Nil
  show ?case by (simp add: request_registrations_def)
next
  case (Cons i "is")
  then show ?case by (simp add: corr_events_def requests_of_reg_events)
qed

lemma responses_of_messages:
  "(k, m) \<in> set (responses_of (concat (map msg_events ms))) \<longleftrightarrow>
     m \<in> set ms \<and> response_key m = Some k"
  by (induction ms) (auto simp: msg_events_def split: option.splits)

lemma responses_of_polls:
  "(k, m) \<in> set (responses_of (concat (map corr_events is))) \<longleftrightarrow>
     m \<in> set (concat (map inbound_messages is)) \<and> response_key m = Some k"
  by (induction "is") (auto simp: corr_events_def responses_of_messages)

text \<open>The responses the broker sends are distinguishable: no two have the same key.\<close>

definition answers_once :: "poll_input list \<Rightarrow> bool" where
  "answers_once is \<longleftrightarrow> distinct (map fst (responses_of (concat (map corr_events is))))"

section \<open>The operations of a client\<close>

text \<open>The operations on the sender, with the keys and one-shot channels they register: a request, a
  message of a producer, a ping, permits, acknowledgements and redelivery requests.\<close>

inductive client_op :: "ConnectionSender \<Rightarrow> (RequestKey \<times> nat) list \<Rightarrow> ConnectionSender \<Rightarrow> bool" where
  op_request: "request_step s s' \<Longrightarrow> client_op s [(RequestId (cs_request_id s), cs_next_channel s)] s'"
| op_send: "client_op s [(ProducerSend p q, cs_next_channel s)] (snd (sender_send dbg now p name q m w s))"
| op_ping: "client_op s [] (snd (send_ping w' s))"
| op_flow: "client_op s [] (snd (send_flow i k s))"
| op_ack: "client_op s [] (snd (send_ack i ids cum s))"
| op_redeliver: "client_op s [] (snd (send_redeliver_unacknowleged_messages i ids s))"

definition id_keys :: "(RequestKey \<times> nat) list \<Rightarrow> u64 list" where
  "id_keys ks = concat (map (\<lambda>(k, x). case k of RequestId i \<Rightarrow> [i] | _ \<Rightarrow> []) ks)"

definition send_keys :: "(RequestKey \<times> nat) list \<Rightarrow> (u64 \<times> u64) list" where
  "send_keys ks = concat (map (\<lambda>(k, x). case k of ProducerSend p q \<Rightarrow> [(p, q)] | _ \<Rightarrow> []) ks)"

lemma keys_simps [simp]:
  "id_keys [] = []" "id_keys (xs @ ys) = id_keys xs @ id_keys ys"
  "id_keys ((RequestId i, x) # ks) = i # id_keys ks"
  "id_keys ((ProducerSend p q, x) # ks) = id_keys ks"
  "send_keys [] = []" "send_keys (xs @ ys) = send_keys xs @ send_keys ys"
  "send_keys ((RequestId i, x) # ks) = send_keys ks"
  "send_keys ((ProducerSend p q, x) # ks) = (p, q) # send_keys ks"
  by (simp_all add: id_keys_def send_keys_def)

definition answerable :: "RequestKey \<Rightarrow> bool" where
  "answerable k = (case k of RequestId _ \<Rightarrow> True | ProducerSend _ _ \<Rightarrow> True | _ \<Rightarrow> False)"

lemma answerable_simps [simp]:
  "answerable (RequestId i)" "answerable (ProducerSend p q)" "\<not> answerable (Consumer c)"
  "\<not> answerable (CloseConsumer c i)"
  by (simp_all add: answerable_def)

text \<open>What every operation leaves behind.\<close>

definition op_effect :: "ConnectionSender \<Rightarrow> (RequestKey \<times> nat) list \<Rightarrow> ConnectionSender \<Rightarrow> bool" where
  "op_effect s ks s' \<longleftrightarrow>
     channels_open s' \<and>
     request_registrations (cs_registrations s') = request_registrations (cs_registrations s) @ ks \<and>
     cs_request_id s' = cs_request_id s + of_nat (length (id_keys ks)) \<and>
     id_keys ks = map (\<lambda>i. cs_request_id s + of_nat i) [0..<length (id_keys ks)] \<and>
     list_all (\<lambda>x. answerable (fst x)) ks \<and>
     sorted_wrt (<) (map snd ks) \<and> (\<forall>x \<in> snd ` set ks. cs_next_channel s \<le> x \<and> x < cs_next_channel s') \<and>
     cs_next_channel s \<le> cs_next_channel s'"

lemma tx_send_open:
  assumes "channels_open s"
  shows "tx_send m s = (True, s\<lparr>cs_tx := cs_tx s @ [m]\<rparr>)"
  using assms by (simp add: tx_send_def channels_open_def)

lemma client_op_effect:
  assumes "client_op s ks s'" and "channels_open s"
  shows "op_effect s ks s'"
  using assms(1)
proof cases
  case op_request
  from request_step_issued [OF op_request(2) assms(2)] op_request(1) show ?thesis
    by (simp add: op_effect_def issued_def)
next
  case (op_send p q dbg now name m w)
  then show ?thesis
    by (simp add: op_effect_def sender_send_def send_message_open [OF assms(2)])
next
  case (op_ping w')
  then show ?thesis
    using assms(2)
    by (simp add: op_effect_def send_ping_def open_channel_def registrations_send_def tx_send_def
        channels_open_def Let_def split: awaited.split)
next
  case (op_flow i k)
  then show ?thesis
    using assms(2) by (simp add: op_effect_def send_flow_def tx_send_open channels_open_def)
next
  case (op_ack i ids cum)
  then show ?thesis
    using assms(2) by (simp add: op_effect_def send_ack_def tx_send_open channels_open_def)
next
  case (op_redeliver i ids)
  then show ?thesis
    using assms(2)
    by (simp add: op_effect_def send_redeliver_unacknowleged_messages_def tx_send_open channels_open_def)
qed

lemma serial_ids_append:
  "map (\<lambda>i. b + of_nat i :: u64) [0..<n + m] =
     map (\<lambda>i. b + of_nat i) [0..<n] @ map (\<lambda>i. b + of_nat n + of_nat i) [0..<m]"
  by (induction m) (simp_all add: add.assoc)

lemma op_effect_trans:
  assumes "op_effect a ks b" and "op_effect b ks' c"
  shows "op_effect a (ks @ ks') c"
proof -
  let ?n = "length (id_keys ks)" and ?m = "length (id_keys ks')"
  have b: "cs_request_id b = cs_request_id a + of_nat ?n"
    and ks: "id_keys ks = map (\<lambda>i. cs_request_id a + of_nat i) [0..<?n]"
    and ks': "id_keys ks' = map (\<lambda>i. cs_request_id b + of_nat i) [0..<?m]"
    using assms unfolding op_effect_def by blast+
  have "id_keys (ks @ ks') = map (\<lambda>i. cs_request_id a + of_nat i) [0..<?n + ?m]"
    unfolding serial_ids_append keys_simps using ks ks' b by simp
  then have ids: "id_keys (ks @ ks') =
      map (\<lambda>i. cs_request_id a + of_nat i) [0..<length (id_keys (ks @ ks'))]" by simp
  have sorted: "sorted_wrt (<) (map snd (ks @ ks'))"
    using assms by (fastforce simp: op_effect_def sorted_wrt_append)
  have range: "\<forall>x \<in> snd ` set (ks @ ks'). cs_next_channel a \<le> x \<and> x < cs_next_channel c"
    using assms by (fastforce simp: op_effect_def)
  show ?thesis
    unfolding op_effect_def using assms ids sorted range by (simp add: op_effect_def)
qed

lemma client_ops_effect:
  assumes "runs client_op s kss s'" and "channels_open s"
  shows "op_effect s (concat kss) s'"
  using assms
proof (induction rule: runs.induct)
  case (runs_Nil s)
  then show ?case by (simp add: op_effect_def)
next
  case (runs_snoc s kss s' ks s'')
  then have e: "op_effect s (concat kss) s'" by simp
  then have "channels_open s'" by (simp add: op_effect_def)
  from op_effect_trans [OF e client_op_effect [OF runs_snoc.hyps(2) this]] show ?case by simp
qed

text \<open>As long as the counter has not gone around and no producer uses a sequence number twice, no two
  operations have the same key.\<close>

lemma keys_distinct:
  assumes "list_all (\<lambda>x. answerable (fst x)) ks"
    and "distinct (id_keys ks)" and "distinct (send_keys ks)"
  shows "distinct (map fst ks)"
  using assms
proof (induction ks)
  case (Cons y ks)
  obtain k x where y: "y = (k, x)" by fastforce
  have "\<And>i x. (RequestId i, x) \<in> set ks \<Longrightarrow> i \<in> set (id_keys ks)"
    "\<And>p q x. (ProducerSend p q, x) \<in> set ks \<Longrightarrow> (p, q) \<in> set (send_keys ks)"
    by (force simp: id_keys_def send_keys_def)+
  with Cons y show ?case by (cases k) auto
qed simp

section \<open>Requests and responses joined\<close>

text \<open>Whatever the operations and the polls, the resolutions are the join on the keys.\<close>

lemma operations_matched:
  assumes "runs client_op (connection_sender_new err) kss s"
    and "length (id_keys (concat kss)) \<le> 2 ^ 64" and "distinct (send_keys (concat kss))"
    and "concat (map (\<lambda>i. ready (in_registrations i)) is) = cs_registrations s"
    and "list_all live_input is" and "answers_once is"
    and "closes_are_foreign (concat (map corr_events is)) is"
  shows "set (resolutions (effects (snd (run_polls is (receiver_new err))))) =
      {(x, m). \<exists>k. (k, x) \<in> set (concat kss) \<and> m \<in> set (concat (map inbound_messages is)) \<and>
         response_key m = Some k}"
    and "distinct (map snd (concat kss))"
proof -
  let ?es = "concat (map corr_events is)"
  have "channels_open (connection_sender_new err)"
    by (simp add: channels_open_def connection_sender_new_def)
  with assms(1) have eff: "op_effect (connection_sender_new err) (concat kss) s"
    by (rule client_ops_effect)
  then have reqs: "requests_of ?es = concat kss"
    unfolding requests_of_polls assms(4) by (simp add: op_effect_def connection_sender_new_def)
  have ids: "id_keys (concat kss) =
      map (\<lambda>i. cs_request_id (connection_sender_new err) + of_nat i) [0..<length (id_keys (concat kss))]"
    and keys: "list_all (\<lambda>x. answerable (fst x)) (concat kss)"
    and sorted: "sorted_wrt (<) (map snd (concat kss))"
    using eff unfolding op_effect_def by blast+
  have "distinct (id_keys (concat kss))"
    by (subst ids) (rule serial_ids_distinct [OF assms(2)])
  with keys assms(3) have "distinct (map fst (concat kss))" by (intro keys_distinct)
  then have "unique_keys ?es" using assms(6) by (simp add: unique_keys_def reqs answers_once_def)
  moreover have "corr.reflects [] (receiver_new err)"
    by (rule corr.reflects_start) (simp_all add: receiver_new_def)
  ultimately have "corr.reflects ?es (snd (run_polls is (receiver_new err)))"
    using run_polls_events [of "[]" "receiver_new err" "is"] assms(5,7) by simp
  then have "set (resolutions (effects (snd (run_polls is (receiver_new err))))) = matched ?es"
    by (rule corr.reflects_resolved)
  then show "set (resolutions (effects (snd (run_polls is (receiver_new err))))) =
      {(x, m). \<exists>k. (k, x) \<in> set (concat kss) \<and> m \<in> set (concat (map inbound_messages is)) \<and>
         response_key m = Some k}"
    unfolding matched_def responses_of_polls reqs by auto
  show "distinct (map snd (concat kss))"
    using sorted strict_sorted_iff by blast
qed

section \<open>The messages of a producer\<close>

text \<open>A producer sends one message after the other, each under the next number of its own counter.\<close>

inductive send_step :: "TopicProducer \<Rightarrow> TopicProducer \<Rightarrow> bool" where
  "send_once E m w p = (r, p') \<Longrightarrow> send_step p p'"

definition producer_sender :: "TopicProducer \<Rightarrow> ConnectionSender" where
  "producer_sender p = conn_sender (tp_connection p)"

lemma send_step_op:
  assumes "send_step p p'" and "channels_open (producer_sender p)"
  shows "client_op (producer_sender p)
      [(ProducerSend (tp_id p) (tp_message_id p), cs_next_channel (producer_sender p))] (producer_sender p')"
    and "tp_id p' = tp_id p" and "tp_message_id p' = tp_message_id p + 1"
    and "channels_open (producer_sender p')"
    and "cs_next_channel (producer_sender p') = Suc (cs_next_channel (producer_sender p))"
proof -
  from assms(1) obtain E m w r where s: "send_once E m w p = (r, p')" by cases
  let ?s = "snd (sender_send (pe_dbg E) (pe_now E) (tp_id p) (tp_name p) (tp_message_id p) m w (producer_sender p))"
  have p': "p' = p\<lparr>tp_message_id := tp_message_id p + 1, tp_connection := (tp_connection p)\<lparr>conn_sender := ?s\<rparr>\<rparr>"
    using s by (auto simp: send_once_def next_sequence_id_def serial_id_get_def on_producer_sender_def
        producer_sender_def split: prod.splits)
  then have ps: "producer_sender p' = ?s" by (simp add: producer_sender_def)
  show "client_op (producer_sender p)
      [(ProducerSend (tp_id p) (tp_message_id p), cs_next_channel (producer_sender p))] (producer_sender p')"
    unfolding ps by (rule op_send)
  show "tp_id p' = tp_id p" "tp_message_id p' = tp_message_id p + 1" using p' by simp_all
  show "channels_open (producer_sender p')"
    "cs_next_channel (producer_sender p') = Suc (cs_next_channel (producer_sender p))"
    unfolding ps by (simp_all add: sender_send_def send_message_open [OF assms(2)])
qed

text \<open>A producer shares its connection: between its messages, the rest of the client performs any other operations
  there, with messages of other producers only.\<close>

definition own_send :: "u64 \<Rightarrow> RequestKey \<times> nat \<Rightarrow> bool" where
  "own_send i x = (case fst x of ProducerSend p q \<Rightarrow> p = i | _ \<Rightarrow> False)"

inductive shared_step :: "TopicProducer \<Rightarrow> (RequestKey \<times> nat) list \<Rightarrow> TopicProducer \<Rightarrow> bool" where
  sends_message: "send_step p p' \<Longrightarrow>
    shared_step p [(ProducerSend (tp_id p) (tp_message_id p), cs_next_channel (producer_sender p))] p'"
| others_work: "client_op (producer_sender p) ks s \<Longrightarrow> filter (own_send (tp_id p)) ks = [] \<Longrightarrow>
    shared_step p ks (p\<lparr>tp_connection := (tp_connection p)\<lparr>conn_sender := s\<rparr>\<rparr>)"

lemma shared_steps_run:
  assumes "runs shared_step p kss p'" and "channels_open (producer_sender p)"
  shows "runs client_op (producer_sender p) kss (producer_sender p') \<and> tp_id p' = tp_id p \<and>
    channels_open (producer_sender p') \<and>
    tp_message_id p' = tp_message_id p + of_nat (length (filter (own_send (tp_id p)) (concat kss))) \<and>
    map fst (filter (own_send (tp_id p)) (concat kss)) =
      map (\<lambda>j. ProducerSend (tp_id p) (tp_message_id p + of_nat j))
        [0..<length (filter (own_send (tp_id p)) (concat kss))]"
  using assms
proof (induction rule: runs.induct)
  case (runs_Nil p)
  then show ?case by (simp add: runs.runs_Nil)
next
  case (runs_snoc p kss p1 ks p')
  note IH = runs_snoc.IH [OF runs_snoc.prems]
  then have open1: "channels_open (producer_sender p1)" and id1: "tp_id p1 = tp_id p" by simp_all
  from runs_snoc.hyps(2) show ?case
  proof cases
    case sends_message
    note one = send_step_op [OF sends_message(2) open1]
    have "runs client_op (producer_sender p) (kss @ [ks]) (producer_sender p')"
      using runs.runs_snoc [OF conjunct1 [OF IH] one(1)] sends_message(1) by simp
    with IH one sends_message(1) show ?thesis by (simp add: own_send_def add.commute)
  next
    case (others_work s)
    have s: "producer_sender p' = s" "tp_id p' = tp_id p1" "tp_message_id p' = tp_message_id p1"
      using others_work(1) by (simp_all add: producer_sender_def)
    have "runs client_op (producer_sender p) (kss @ [ks]) (producer_sender p')"
      using runs.runs_snoc [OF conjunct1 [OF IH] others_work(2)] s(1) by simp
    moreover have "channels_open s" using client_op_effect [OF others_work(2) open1] by (simp add: op_effect_def)
    ultimately show ?thesis using IH s others_work(3) by simp
  qed
qed

lemma distinct_partition:
  "distinct (filter P xs) \<Longrightarrow> distinct (filter (\<lambda>x. \<not> P x) xs) \<Longrightarrow> distinct xs"
  by (induction xs) (auto split: if_splits)

lemma send_keys_own:
  "send_keys (filter (own_send i) ks) = filter (\<lambda>x. fst x = i) (send_keys ks)"
  "send_keys (filter (\<lambda>x. \<not> own_send i x) ks) = filter (\<lambda>x. fst x \<noteq> i) (send_keys ks)"
  by (induction ks) (auto simp: send_keys_def own_send_def split: RequestKey.splits)

lemma send_keys_of_keys:
  "map fst ks = map (\<lambda>j. ProducerSend i (f j)) js \<Longrightarrow> send_keys ks = map (\<lambda>j. (i, f j)) js"
  by (induction js arbitrary: ks) (auto simp: send_keys_def)

section \<open>Properties of a connection\<close>

text \<open>C3: Request and response, sender and receiver together. Over any sequence of operations on a new
  connection (requests, messages of producers, pings, permits, acknowledgements, redelivery), while
  the receiver of that connection is polled in any way, every operation waits on a channel of its
  own, and it is completed with a message exactly if that message arrived and carries the key the
  operation registered: the request number it drew, or its producer and sequence number.\<close>

theorem connection_operations_answered:
  assumes "runs client_op (connection_sender_new err) kss s"
    and "length (id_keys (concat kss)) \<le> 2 ^ 64" and "distinct (send_keys (concat kss))"
    and "concat (map (\<lambda>i. ready (in_registrations i)) is) = cs_registrations s"
    and "list_all live_input is" and "answers_once is"
    and "closes_are_foreign (concat (map corr_events is)) is"
  shows "set (resolutions (effects (snd (run_polls is (receiver_new err))))) =
      {(x, m). \<exists>k. (k, x) \<in> set (concat kss) \<and> m \<in> set (concat (map inbound_messages is)) \<and>
         response_key m = Some k} \<and>
    distinct (map snd (concat kss))"
  using operations_matched [OF assms] by blast

text \<open>C10: Receipts. Take a producer on a connection on which any operations were performed before, among them the request
  that created the producer, but none of its messages. It sends messages one after the other while the rest of the
  client goes on using the connection, and the receiver is polled in any way. Then its messages are registered
  under its own number and consecutive sequence numbers, and the \<open>j\<close>-th of them is completed with exactly the
  receipts and errors that arrived for its number and the \<open>j\<close>-th sequence number.\<close>

theorem producer_receipts_matched:
  assumes "runs client_op (connection_sender_new err) before (producer_sender p)"
    and "filter (own_send (tp_id p)) (concat before) = []" and "runs shared_step p kss p'"
    and "own = filter (own_send (tp_id p)) (concat kss)" and "length own \<le> 2 ^ 64"
    and "length (id_keys (concat (before @ kss))) \<le> 2 ^ 64"
    and "distinct (send_keys (filter (\<lambda>x. \<not> own_send (tp_id p) x) (concat (before @ kss))))"
    and "concat (map (\<lambda>i. ready (in_registrations i)) is) = cs_registrations (producer_sender p')"
    and "list_all live_input is" and "answers_once is" and "closes_are_foreign (concat (map corr_events is)) is"
  shows "map fst own = map (\<lambda>j. ProducerSend (tp_id p) (tp_message_id p + of_nat j)) [0..<length own] \<and>
    (\<forall>j < length own. {m. (snd (own ! j), m) \<in> set (resolutions (effects (snd (run_polls is (receiver_new err)))))} =
      {m \<in> set (concat (map inbound_messages is)).
         response_key m = Some (ProducerSend (tp_id p) (tp_message_id p + of_nat j))})"
proof -
  let ?ks = "concat (before @ kss)"
  have "channels_open (connection_sender_new err)" by (simp add: channels_open_def connection_sender_new_def)
  then have "channels_open (producer_sender p)" using client_ops_effect [OF assms(1)] by (simp add: op_effect_def)
  note run = shared_steps_run [OF assms(3) this, folded assms(4)]
  then have all: "runs client_op (connection_sender_new err) (before @ kss) (producer_sender p')"
    using runs_trans [OF _ assms(1)] by blast
  have own: "filter (own_send (tp_id p)) ?ks = own" using assms(2,4) by simp
  have keys: "map fst own = map (\<lambda>j. ProducerSend (tp_id p) (tp_message_id p + of_nat j)) [0..<length own]"
    using run by blast
  have "distinct (send_keys own)"
    unfolding send_keys_of_keys [OF keys] distinct_map
    using serial_ids_distinct [OF assms(5), of "tp_message_id p"] by (auto simp: distinct_map inj_on_def)
  with assms(7) have "distinct (send_keys ?ks)"
    unfolding own [symmetric] send_keys_own by (blast intro: distinct_partition)
  note matched = operations_matched [OF all assms(6) this assms(8-11)]
  have "{m. (snd (own ! j), m) \<in> set (resolutions (effects (snd (run_polls is (receiver_new err)))))} =
      {m \<in> set (concat (map inbound_messages is)).
         response_key m = Some (ProducerSend (tp_id p) (tp_message_id p + of_nat j))}" if "j < length own" for j
  proof -
    have k: "fst (own ! j) = ProducerSend (tp_id p) (tp_message_id p + of_nat j)"
      using keys that by (metis (no_types, lifting) add_0 diff_zero length_map length_upt nth_map nth_upt)
    have "own ! j \<in> set ?ks" using that own by (metis filter_is_subset nth_mem subsetD)
    then have "(k', snd (own ! j)) \<in> set ?ks \<longleftrightarrow> k' = fst (own ! j)" for k'
      using matched(2) by (metis distinct_map inj_onD prod.collapse fst_conv snd_conv)
    with k show ?thesis unfolding matched(1) by auto
  qed
  with keys show ?thesis by blast
qed

section \<open>Instances for concrete inputs\<close>

text \<open>A seek and a message, with the receipt arriving before either is registered.\<close>

definition ex_seek_sender :: ConnectionSender where
  "ex_seek_sender = snd (sender_seek (\<lambda>c. '''') 4 None None Elapsed (connection_sender_new shared_error_new))"

definition ex_two_operations :: ConnectionSender where
  "ex_two_operations = snd (sender_send (\<lambda>c. '''') 5 3 ''p'' 0 default_producer_message Elapsed ex_seek_sender)"

lemma ex_two_operations_run:
  "runs client_op (connection_sender_new shared_error_new) [[(RequestId 0, 0)], [(ProducerSend 3 0, 1)]]
     ex_two_operations"
proof -
  have "client_op (connection_sender_new shared_error_new) [(RequestId 0, 0)] ex_seek_sender"
    using op_request [OF request_step.intros(10), of "connection_sender_new shared_error_new" "\<lambda>c. ''''" 4 None None Elapsed]
    by (simp add: ex_seek_sender_def) (simp add: connection_sender_new_def)
  moreover have "cs_next_channel ex_seek_sender = 1"
    by (simp add: ex_seek_sender_def sender_seek_def next_request_id_eq send_message_def open_channel_def
        registrations_send_def tx_send_def connection_sender_new_def)
  then have "client_op ex_seek_sender [(ProducerSend 3 0, 1)] ex_two_operations"
    using op_send [of ex_seek_sender 3 0] by (simp add: ex_two_operations_def)
  ultimately have "runs client_op (connection_sender_new shared_error_new)
      ([[(RequestId 0, 0)]] @ [[(ProducerSend 3 0, 1)]]) ex_two_operations"
    by (intro runs.runs_snoc [OF runs_one])
  then show ?thesis by simp
qed

lemma ex_receipt_keys [simp]:
  "response_key ex_receipt = Some (ProducerSend 3 0)" "close_request ex_receipt = None"
  by (simp_all add: response_key_def close_request_def request_key_defs ex_receipt_def proto_simps)

theorem connection_operations_answered_witness:
  "set (resolutions (effects (snd (run_polls
      [ex_input [] [ex_receipt], ex_input [RegRequest (RequestId 0) 0, RegRequest (ProducerSend 3 0) 1] [ex_success 0]]
      (receiver_new shared_error_new))))) =
    {(x, m). \<exists>k. (k, x) \<in> set (concat [[(RequestId 0, 0)], [(ProducerSend 3 0, 1)]]) \<and>
       m \<in> set (concat (map inbound_messages
         [ex_input [] [ex_receipt],
          ex_input [RegRequest (RequestId 0) 0, RegRequest (ProducerSend 3 0) 1] [ex_success 0]])) \<and>
       response_key m = Some k} \<and>
   distinct (map snd (concat [[(RequestId 0, 0 :: nat)], [(ProducerSend 3 0, 1)]]))"
  by (rule connection_operations_answered [OF ex_two_operations_run])
    (simp_all add: ex_two_operations_def ex_seek_sender_def sender_send_def sender_seek_def next_request_id_eq
      send_message_def open_channel_def registrations_send_def tx_send_def connection_sender_new_def
      answers_once_def corr_events_def reg_events_def msg_events_def closes_are_foreign_def)

text \<open>The producer that is created in the example of \<open>Producer\<close> sends a message, whose receipt is there before the
  message is registered.\<close>

lemmas ex_creation_simps = from_connection_def ex_producer_env_def compression_available_def
  producer_options_default_def create_attempt_on_def ex_created_def ex_attempt_def sender_create_producer_def
  next_request_id_eq send_message_def open_channel_def registrations_send_def tx_send_def ex_producer_def
  connection_sender_new_def extract_message_def proto_simps

lemma ex_created_operations:
  "runs client_op (connection_sender_new shared_error_new) [[(RequestId 0, 0)]] (producer_sender ex_created_producer)"
  "tp_id ex_created_producer = 3" "tp_message_id ex_created_producer = 0"
  "cs_next_channel (producer_sender ex_created_producer) = 1"
  "cs_registrations (producer_sender ex_created_producer) = [RegRequest (RequestId 0) 0]"
proof -
  let ?s = "connection_sender_new shared_error_new"
  have s: "producer_sender ex_created_producer =
      snd (sender_create_producer (pe_dbg ex_producer_env) ''t'' 3 None producer_options_default (ca_response ex_created) ?s)"
    unfolding producer_sender_def ex_created_producer_def
    by (simp add: ex_creation_simps)
  have "client_op ?s [(RequestId (cs_request_id ?s), cs_next_channel ?s)] (producer_sender ex_created_producer)"
    unfolding s by (rule op_request [OF request_step.intros(5)])
  then show "runs client_op ?s [[(RequestId 0, 0)]] (producer_sender ex_created_producer)"
    by (intro runs_one) (simp add: connection_sender_new_def)
  show "tp_id ex_created_producer = 3" "tp_message_id ex_created_producer = 0"
    unfolding ex_created_producer_def
    by (simp_all add: ex_creation_simps)
  show "cs_next_channel (producer_sender ex_created_producer) = 1"
    "cs_registrations (producer_sender ex_created_producer) = [RegRequest (RequestId 0) 0]"
    unfolding s by (simp_all add: sender_create_producer_def next_request_id_eq send_message_def open_channel_def
      registrations_send_def tx_send_def connection_sender_new_def ex_created_def)
qed

theorem producer_receipts_matched_witness:
  "map fst [(ProducerSend 3 0, 1 :: nat)] =
     map (\<lambda>j. ProducerSend (tp_id ex_created_producer) (tp_message_id ex_created_producer + of_nat j)) [0..<1] \<and>
   {m. (1, m) \<in> set (resolutions (effects (snd (run_polls
        [ex_input [] [ex_receipt], ex_input [RegRequest (RequestId 0) 0, RegRequest (ProducerSend 3 0) 1] []]
        (receiver_new shared_error_new)))))} =
     {m \<in> set (concat (map inbound_messages
        [ex_input [] [ex_receipt], ex_input [RegRequest (RequestId 0) 0, RegRequest (ProducerSend 3 0) 1] []])).
      response_key m = Some (ProducerSend (tp_id ex_created_producer) (tp_message_id ex_created_producer + of_nat 0))}"
proof -
  let ?is = "[ex_input [] [ex_receipt], ex_input [RegRequest (RequestId 0) 0, RegRequest (ProducerSend 3 0) 1] []]"
  let ?p' = "snd (send_once ex_producer_env default_producer_message Elapsed ex_created_producer)"
  note p = ex_created_operations
  have "send_step ex_created_producer ?p'" by (rule send_step.intros [OF prod.collapse [symmetric]])
  from sends_message [OF this] have "shared_step ex_created_producer [(ProducerSend 3 0, 1)] ?p'" by (simp add: p)
  then have run: "runs shared_step ex_created_producer [[(ProducerSend 3 0, 1)]] ?p'" by (rule runs_one)
  have "channels_open (producer_sender ex_created_producer)"
    using client_ops_effect [OF p(1)] by (simp add: op_effect_def channels_open_def connection_sender_new_def)
  then have "cs_registrations (producer_sender ?p') = [RegRequest (RequestId 0) 0, RegRequest (ProducerSend 3 0) 1]"
    using p
    by (simp add: send_once_def next_sequence_id_def serial_id_get_def on_producer_sender_def sender_send_def
        send_message_def open_channel_def registrations_send_def tx_send_def producer_sender_def channels_open_def
        split: prod.split)
  then have regs: "concat (map (\<lambda>i. ready (in_registrations i)) ?is) = cs_registrations (producer_sender ?p')" by simp
  have "map fst [(ProducerSend 3 0, 1 :: nat)] =
      map (\<lambda>j. ProducerSend (tp_id ex_created_producer) (tp_message_id ex_created_producer + of_nat j))
        [0..<length [(ProducerSend 3 0, 1 :: nat)]] \<and>
    (\<forall>j < length [(ProducerSend 3 0, 1 :: nat)].
      {m. (snd ([(ProducerSend 3 0, 1)] ! j), m) \<in> set (resolutions (effects (snd (run_polls ?is (receiver_new shared_error_new)))))} =
      {m \<in> set (concat (map inbound_messages ?is)).
         response_key m = Some (ProducerSend (tp_id ex_created_producer) (tp_message_id ex_created_producer + of_nat j))})"
    by (rule producer_receipts_matched [OF p(1) _ run _ _ _ _ regs])
      (simp_all add: p own_send_def answers_once_def corr_events_def reg_events_def msg_events_def closes_are_foreign_def)
  from conjunct1 [OF this] spec [OF conjunct2 [OF this], of 0] show ?thesis by simp
qed

end
