(* ===== verification/ReceiverTables.thy ===== *)
theory ReceiverTables
  imports Receiver TreeMap "HOL-Library.Product_Lexorder"
begin

text \<open>
  The receiver on the tables it really has: \<open>src/connection.rs\<close> keeps requests, consumers and early
  responses in \<open>BTreeMap\<close>s, ordered by the derived order of \<open>RequestKey\<close>. The order is an instance of
  the library's class of linear orders; the operations are written with \<open>insert\<close>, \<open>remove\<close> and \<open>get\<close> of the
  trees, and they refine those of \<open>Receiver\<close>, which works on maps: the same effects, the same
  outcome, tables that stand for the same maps and stay ordered.
\<close>

section \<open>The order of request keys\<close>

text \<open>\<open>#[derive(Ord)]\<close> on an enumeration: first the variants in the order of their declaration, then the
  fields from left to right.\<close>

fun key_rank :: "RequestKey \<Rightarrow> nat \<times> u64 \<times> u64" where
  "key_rank (RequestId i) = (0, i, 0)"
| "key_rank (ProducerSend p s) = (1, p, s)"
| "key_rank (Consumer c) = (2, c, 0)"
| "key_rank (CloseConsumer c i) = (3, c, i)"

lemma key_rank_inject: "key_rank a = key_rank b \<Longrightarrow> a = b"
  by (cases a; cases b) simp_all

instantiation RequestKey :: linorder
begin

definition less_eq_RequestKey :: "RequestKey \<Rightarrow> RequestKey \<Rightarrow> bool" where
  "a \<le> b \<longleftrightarrow> key_rank a \<le> key_rank b"

definition less_RequestKey :: "RequestKey \<Rightarrow> RequestKey \<Rightarrow> bool" where
  "a < b \<longleftrightarrow> key_rank a < key_rank b"

instance
proof
  fix a b c :: RequestKey
  show "a < b \<longleftrightarrow> a \<le> b \<and> \<not> b \<le> a"
    by (simp add: less_eq_RequestKey_def less_RequestKey_def less_le_not_le)
  show "a \<le> a" by (simp add: less_eq_RequestKey_def)
  show "a \<le> b \<Longrightarrow> b \<le> c \<Longrightarrow> a \<le> c" by (auto simp: less_eq_RequestKey_def intro: order_trans)
  show "a \<le> b \<Longrightarrow> b \<le> a \<Longrightarrow> a = b" by (auto simp: less_eq_RequestKey_def intro: key_rank_inject antisym)
  show "a \<le> b \<or> b \<le> a" by (auto simp: less_eq_RequestKey_def)
qed

end

section \<open>The receiver with trees\<close>

record TreeReceiver =
  tr_error :: shared_error
  tr_pending_requests :: "(RequestKey, nat) btree"
  tr_consumers :: "(u64, nat) btree"
  tr_received_messages :: "(RequestKey, pulsar_message) btree"
  tr_ping :: "nat option"
  tr_effects :: "effect list"

definition tr_new :: "shared_error \<Rightarrow> TreeReceiver" where
  "tr_new e =
     \<lparr>tr_error = e, tr_pending_requests = [], tr_consumers = [], tr_received_messages = [], tr_ping = None,
      tr_effects = []\<rparr>"

definition tr_emit :: "effect list \<Rightarrow> TreeReceiver \<Rightarrow> TreeReceiver" where
  "tr_emit es r = r\<lparr>tr_effects := tr_effects r @ es\<rparr>"

text \<open>\<open>remove\<close> returns the value it removes, \<open>insert\<close> the value it replaces.\<close>

definition tree_remove :: "'k :: linorder \<Rightarrow> ('k, 'v) btree \<Rightarrow> 'v option \<times> ('k, 'v) btree" where
  "tree_remove k m = (bt_lookup m k, bt_remove k m)"

definition tree_insert :: "'k :: linorder \<Rightarrow> 'v \<Rightarrow> ('k, 'v) btree \<Rightarrow> 'v option \<times> ('k, 'v) btree" where
  "tree_insert k v m = (bt_lookup m k, bt_insert k v m)"

fun tr_registration :: "Register \<Rightarrow> TreeReceiver \<Rightarrow> TreeReceiver" where
  "tr_registration (RegRequest key resolver) r =
     (case tree_remove key (tr_received_messages r) of
        (Some msg, m) \<Rightarrow> tr_emit [Resolve resolver msg] (r\<lparr>tr_received_messages := m\<rparr>)
      | (None, m) \<Rightarrow>
          (case tree_insert key resolver (tr_pending_requests r) of
             (old, t) \<Rightarrow>
               tr_emit (dropped old) (r\<lparr>tr_received_messages := m, tr_pending_requests := t\<rparr>)))"
| "tr_registration (RegConsumer consumer_id resolver) r =
     (case tree_insert consumer_id resolver (tr_consumers r) of
        (old, t) \<Rightarrow> tr_emit (dropped old) (r\<lparr>tr_consumers := t\<rparr>))"
| "tr_registration (RegPing resolver) r =
     tr_emit (dropped (tr_ping r)) (r\<lparr>tr_ping := Some resolver\<rparr>)"

definition tr_response :: "RequestKey \<Rightarrow> pulsar_message \<Rightarrow> TreeReceiver \<Rightarrow> TreeReceiver" where
  "tr_response key msg r =
     (case tree_remove key (tr_pending_requests r) of
        (Some resolver, t) \<Rightarrow> tr_emit [Resolve resolver msg] (r\<lparr>tr_pending_requests := t\<rparr>)
      | (None, t) \<Rightarrow>
          r\<lparr>tr_pending_requests := t,
            tr_received_messages := snd (tree_insert key msg (tr_received_messages r))\<rparr>)"

definition tr_route :: "u64 \<Rightarrow> pulsar_message \<Rightarrow> TreeReceiver \<Rightarrow> TreeReceiver" where
  "tr_route consumer_id msg r =
     (case bt_lookup (tr_consumers r) consumer_id of
        Some channel \<Rightarrow> tr_emit [Deliver channel msg] r
      | None \<Rightarrow> r)"

definition tr_message :: "pulsar_message \<Rightarrow> TreeReceiver \<Rightarrow> TreeReceiver" where
  "tr_message msg r =
     (if ping (command msg) \<noteq> None then tr_emit [Outbound messages_pong] r
      else if pong (command msg) \<noteq> None then
        (case tr_ping r of
           Some sender \<Rightarrow> tr_emit [ResolvePing sender] (r\<lparr>tr_ping := None\<rparr>)
         | None \<Rightarrow> r)
      else
        (case request_key msg of
           Some (RequestId i) \<Rightarrow> tr_response (RequestId i) msg r
         | Some (ProducerSend p s) \<Rightarrow> tr_response (ProducerSend p s) msg r
         | Some (Consumer consumer_id) \<Rightarrow> tr_route consumer_id msg r
         | Some (CloseConsumer consumer_id request_id) \<Rightarrow>
             (case tree_remove (RequestId request_id) (tr_pending_requests r) of
                (Some resolver, t) \<Rightarrow> tr_emit [Resolve resolver msg] (r\<lparr>tr_pending_requests := t\<rparr>)
              | (None, t) \<Rightarrow> tr_route consumer_id msg (r\<lparr>tr_pending_requests := t\<rparr>))
         | None \<Rightarrow> r))"

definition tr_set_error :: "connection_error \<Rightarrow> TreeReceiver \<Rightarrow> TreeReceiver" where
  "tr_set_error e r = r\<lparr>tr_error := shared_error_set e (tr_error r)\<rparr>"

fun tr_registration_loop :: "Register list \<Rightarrow> bool \<Rightarrow> TreeReceiver \<Rightarrow> unit poll \<times> TreeReceiver" where
  "tr_registration_loop [] False r = (Pending, r)"
| "tr_registration_loop [] True r = (Ready (), tr_set_error Disconnected r)"
| "tr_registration_loop (g # gs) fin r = tr_registration_loop gs fin (tr_registration g r)"

fun tr_inbound_loop ::
  "(connection_error, pulsar_message) res list \<Rightarrow> bool \<Rightarrow> TreeReceiver \<Rightarrow> unit poll \<times> TreeReceiver" where
  "tr_inbound_loop [] False r = (Pending, r)"
| "tr_inbound_loop [] True r = (Ready (), tr_set_error Disconnected r)"
| "tr_inbound_loop (Inr msg # ms) fin r = tr_inbound_loop ms fin (tr_message msg r)"
| "tr_inbound_loop (Inl e # ms) fin r = (Ready (), tr_set_error e r)"

definition tr_poll :: "poll_input \<Rightarrow> TreeReceiver \<Rightarrow> unit poll \<times> TreeReceiver" where
  "tr_poll i r =
     (if shutdown_fired i then (Ready (), r)
      else
        (case tr_registration_loop (ready (in_registrations i)) (finished (in_registrations i)) r of
           (Ready u, r) \<Rightarrow> (Ready u, r)
         | (Pending, r) \<Rightarrow> tr_inbound_loop (ready (in_inbound i)) (finished (in_inbound i)) r))"

fun tr_run_polls :: "poll_input list \<Rightarrow> TreeReceiver \<Rightarrow> unit poll \<times> TreeReceiver" where
  "tr_run_polls [] r = (Pending, r)"
| "tr_run_polls (i # is) r =
     (case tr_poll i r of
        (Ready u, r) \<Rightarrow> (Ready u, r)
      | (Pending, r) \<Rightarrow> tr_run_polls is r)"

section \<open>The refinement\<close>

definition tr_wf :: "TreeReceiver \<Rightarrow> bool" where
  "tr_wf r \<longleftrightarrow> bt_wf (tr_pending_requests r) \<and> bt_wf (tr_consumers r) \<and> bt_wf (tr_received_messages r)"

definition tr_abs :: "TreeReceiver \<Rightarrow> Receiver" where
  "tr_abs r =
     \<lparr>rcv_error = tr_error r, pending_requests = bt_lookup (tr_pending_requests r),
      consumers = bt_lookup (tr_consumers r), received_messages = bt_lookup (tr_received_messages r),
      rcv_ping = tr_ping r, effects = tr_effects r\<rparr>"

text \<open>An operation on trees implements one on maps.\<close>

definition implements :: "(TreeReceiver \<Rightarrow> TreeReceiver) \<Rightarrow> (Receiver \<Rightarrow> Receiver) \<Rightarrow> bool" where
  "implements f g \<longleftrightarrow> (\<forall>r. tr_wf r \<longrightarrow> tr_wf (f r) \<and> tr_abs (f r) = g (tr_abs r))"

lemma implementsD: "implements f g \<Longrightarrow> tr_wf r \<Longrightarrow> tr_wf (f r) \<and> tr_abs (f r) = g (tr_abs r)"
  by (simp add: implements_def)

lemmas tree_defs = tr_wf_def tr_abs_def tr_emit_def emit_def tree_remove_def tree_insert_def
  bt.wf_insert bt.wf_remove bt.lookup_insert bt.lookup_remove

lemma map_upd_None [simp]: "m k = None \<Longrightarrow> m(k := None) = m"
  by auto

lemma registration_implements: "implements (tr_registration g) (handle_registration g)"
  unfolding implements_def
  by (cases g) (auto simp: tree_defs register_request_def split: option.split)

lemma response_implements: "implements (tr_response k m) (receive_response k m)"
  unfolding implements_def
  by (auto simp: tree_defs tr_response_def receive_response_def split: option.split)

lemma route_implements: "implements (tr_route c m) (route_to_consumer c m)"
  unfolding implements_def
  by (auto simp: tree_defs tr_route_def route_to_consumer_def split: option.split)

lemma message_implements: "implements (tr_message m) (handle_message m)"
  unfolding implements_def
proof (intro allI impI)
  fix r
  assume wf: "tr_wf r"
  note facts = implementsD [OF response_implements wf] implementsD [OF route_implements wf]
  show "tr_wf (tr_message m r) \<and> tr_abs (tr_message m r) = handle_message m (tr_abs r)"
  proof (cases "request_key m")
    case None
    with wf show ?thesis by (auto simp: tr_message_def handle_message_def tree_defs split: option.split)
  next
    case (Some k)
    then show ?thesis
      using wf facts
      by (cases k) (auto simp: tr_message_def handle_message_def tree_defs tr_route_def route_to_consumer_def
          split: option.split)
  qed
qed

lemma set_error_implements: "implements (tr_set_error e) (set_rcv_error e)"
  by (simp add: implements_def tr_set_error_def set_rcv_error_def tr_wf_def tr_abs_def)

lemma implemented:
  assumes "tr_wf r"
  shows "tr_wf (tr_registration g r)" and "tr_abs (tr_registration g r) = handle_registration g (tr_abs r)"
    and "tr_wf (tr_message m r)" and "tr_abs (tr_message m r) = handle_message m (tr_abs r)"
    and "tr_wf (tr_set_error e r)" and "tr_abs (tr_set_error e r) = set_rcv_error e (tr_abs r)"
  using assms registration_implements message_implements set_error_implements
  by (simp_all add: implements_def)

lemma registration_loop_implements:
  "tr_wf r \<Longrightarrow> tr_registration_loop gs fin r = (p, r') \<Longrightarrow>
     tr_wf r' \<and> registration_loop gs fin (tr_abs r) = (p, tr_abs r')"
  by (induction gs fin r rule: tr_registration_loop.induct) (auto simp: implemented)

lemma inbound_loop_implements:
  "tr_wf r \<Longrightarrow> tr_inbound_loop ms fin r = (p, r') \<Longrightarrow>
     tr_wf r' \<and> inbound_loop ms fin (tr_abs r) = (p, tr_abs r')"
  by (induction ms fin r rule: tr_inbound_loop.induct) (auto simp: implemented)

lemma poll_implements:
  assumes "tr_wf r" and "tr_poll i r = (p, r')"
  shows "tr_wf r' \<and> poll i (tr_abs r) = (p, tr_abs r')"
proof (cases "shutdown_fired i")
  case True
  with assms show ?thesis by (auto simp: tr_poll_def poll_def)
next
  case False
  obtain q r1 where g: "tr_registration_loop (ready (in_registrations i)) (finished (in_registrations i)) r = (q, r1)"
    by fastforce
  from registration_loop_implements [OF assms(1) g] False g assms(2) show ?thesis
    by (cases q) (auto simp: tr_poll_def poll_def dest: inbound_loop_implements)
qed

lemma run_polls_implements:
  "tr_wf r \<Longrightarrow> tr_run_polls is r = (p, r') \<Longrightarrow> tr_wf r' \<and> run_polls is (tr_abs r) = (p, tr_abs r')"
proof (induction "is" arbitrary: r)
  case (Cons i "is")
  obtain q r1 where q: "tr_poll i r = (q, r1)" by fastforce
  from poll_implements [OF Cons.prems(1) q] Cons q show ?case by (cases q) auto
qed simp

section \<open>Property\<close>

text \<open>The ordered tables of the receiver implement its maps. Over any sequence of polls a receiver
  with trees ends as the one with maps does, with the same effects in the same order, its tables
  stand for the same maps and list every key once, in the order of the keys.\<close>

theorem tree_receiver_refines:
  "\<exists>p r. tr_run_polls is (tr_new e) = (p, r) \<and> run_polls is (receiver_new e) = (p, tr_abs r) \<and>
    effects (snd (run_polls is (receiver_new e))) = tr_effects r \<and>
    sorted (bt_keys (tr_pending_requests r)) \<and> distinct (bt_keys (tr_pending_requests r)) \<and>
    sorted (bt_keys (tr_consumers r)) \<and> distinct (bt_keys (tr_consumers r)) \<and>
    sorted (bt_keys (tr_received_messages r)) \<and> distinct (bt_keys (tr_received_messages r))"
proof -
  obtain p r where r: "tr_run_polls is (tr_new e) = (p, r)" by fastforce
  have "tr_wf (tr_new e)" "tr_abs (tr_new e) = receiver_new e"
    by (simp_all add: tr_wf_def tr_new_def tr_abs_def receiver_new_def bt_lookup_def [abs_def])
  with run_polls_implements [OF _ r] r show ?thesis
    by (auto simp: tr_wf_def bt_wf_def bt_keys_def tr_abs_def)
qed

end
