(* ===== verification/SendFutures.thy ===== *)
theory SendFutures
  imports Producer
begin

text \<open>
  What the application holds of a send: \<open>SendFuture\<close> of \<open>src/producer.rs\<close>, the receiving end of a one-shot
  channel. The theory follows the futures of a batching producer over all its operations: each one is
  completed once, with the receipt or the error of its batch, waits while its message is in the batch,
  and is told when the producer is gone. It also holds the operations of the public \<open>Producer\<close> that
  neither send nor build.
\<close>

section \<open>The future\<close>

text \<open>The receiving end of a one-shot channel: nothing sent yet, a value, or the sender dropped.\<close>

datatype 'a oneshot = Waiting | Sent 'a | Canceled

definition disconnected_producer :: pulsar_error where
  "disconnected_producer = EProducer (ProdCustom ''producer unexpectedly disconnected'')"

fun send_future_poll ::
  "(pulsar_error, command_send_receipt) res oneshot \<Rightarrow> (pulsar_error, command_send_receipt) res poll" where
  "send_future_poll (Sent r) = Ready r"
| "send_future_poll Canceled = Ready (Inl disconnected_producer)"
| "send_future_poll Waiting = Pending"

text \<open>The channel of the \<open>k\<close>-th future of a producer. Its sender is kept with the message in the batch, as
  long as the producer is alive.\<close>

definition send_future :: "bool \<Rightarrow> TopicProducer \<Rightarrow> nat \<Rightarrow> (pulsar_error, command_send_receipt) res oneshot" where
  "send_future alive p k =
     (case map_of (tp_resolved p) k of
        Some r \<Rightarrow> Sent r
      | None \<Rightarrow> if alive \<and> k \<in> fst ` set (storage p) then Waiting else Canceled)"

section \<open>The other operations of a producer\<close>

text \<open>A ping of one partition while those of all partitions are awaited together. Without an answer the
  ping was sent and is still awaited when another partition has failed.\<close>

definition check_partition ::
  "unit awaited option \<Rightarrow> TopicProducer \<Rightarrow> (pulsar_error, unit) res option \<times> TopicProducer" where
  "check_partition answer p =
     (case answer of
        Some a \<Rightarrow> (case producer_check_connection a p of (r, p) \<Rightarrow> (Some r, p))
      | None \<Rightarrow>
          (case producer_check_connection (Answered ()) p of
             (Inl err, p) \<Rightarrow> (Some (Inl err), p)
           | (Inr _, p) \<Rightarrow> (None, p)))"

definition inner_check_connection ::
  "(TopicProducer \<Rightarrow> unit awaited option) \<Rightarrow> ProducerInner
     \<Rightarrow> (pulsar_error, unit) res option \<times> ProducerInner" where
  "inner_check_connection A i =
     (case i of
        Single p \<Rightarrow> (case check_partition (A p) p of (r, p) \<Rightarrow> (r, Single p))
      | Partitioned q \<Rightarrow>
          (let rs = map (\<lambda>p. check_partition (A p) p) (pp_producers q) in
           (map_option (\<lambda>r. bind_res r (\<lambda>_. Inr ())) (try_join_all (map fst rs)),
            Partitioned (q\<lparr>pp_producers := map snd rs\<rparr>))))"

definition producer_options :: "ProducerInner \<Rightarrow> ProducerOptions" where
  "producer_options i = (case i of Single p \<Rightarrow> tp_options p | Partitioned q \<Rightarrow> pp_options q)"

definition producer_create_message :: "ProducerInner \<Rightarrow> unit MessageBuilder" where
  "producer_create_message i = message_builder_new"

section \<open>What every operation does to the futures\<close>

text \<open>One operation of a topic producer that returns.\<close>

inductive producer_op :: "TopicProducer \<Rightarrow> TopicProducer \<Rightarrow> bool" where
  op_send: "send_raw E m p = (Some r, p') \<Longrightarrow> producer_op p p'"
| op_flush: "send_batch E p = (Some r, p') \<Longrightarrow> producer_op p p'"
| op_check: "producer_op p (snd (producer_check_connection a p))"

inductive_cases producer_opE: "producer_op p p'"

text \<open>What a future of a batch may be completed with.\<close>

definition batch_answer :: "(pulsar_error, command_send_receipt) res \<Rightarrow> bool" where
  "batch_answer r = (case r of Inr _ \<Rightarrow> True | Inl (EProducer (Batch _)) \<Rightarrow> True | _ \<Rightarrow> False)"

lemma batch_answer_map_err [simp]: "batch_answer (map_err (\<lambda>e. EProducer (Batch e)) r)"
  by (cases r) (simp_all add: batch_answer_def map_err_def)

text \<open>Completed futures are only added to, with what a batch answers.\<close>

definition adds_answers :: "TopicProducer \<Rightarrow> TopicProducer \<Rightarrow> bool" where
  "adds_answers p p' \<longleftrightarrow>
     (\<exists>rs. tp_resolved p' = tp_resolved p @ rs \<and> (\<forall>x \<in> set rs. batch_answer (snd x)))"

lemma adds_answers_same: "tp_resolved p' = tp_resolved p \<Longrightarrow> adds_answers p p'"
  by (simp add: adds_answers_def)

lemma adds_answers_trans: "adds_answers p q \<Longrightarrow> adds_answers q r \<Longrightarrow> adds_answers p r"
  unfolding adds_answers_def by (metis append.assoc set_append Un_iff)

lemma send_messages_answers:
  assumes "send_messages E ms p = (Some u, p')"
  shows "adds_answers p p'"
proof -
  obtain r p1 where s: "send_compress E (batch_message (pe_wire E) (pe_prost E) (map snd ms)) p = (Some r, p1)"
    using assms by (auto simp: send_messages_def split: prod.splits option.splits)
  then have "p' = fold (\<lambda>tx. resolve tx (map_err (\<lambda>e. EProducer (Batch e)) r)) (map fst ms) p1"
    using assms by (simp add: send_messages_def)
  with send_compress_futures [OF s] show ?thesis by (auto simp: adds_answers_def same_futures_def)
qed

lemma send_raw_answers:
  assumes "send_raw E m p = (Some r, p')" and "batching p"
  shows "adds_answers p p'"
  using assms
  by (auto simp: send_raw_def batching_def Let_def get_messages_def split: if_splits prod.splits option.splits
      dest!: send_messages_answers intro: adds_answers_same) (auto simp: adds_answers_def)

lemma send_batch_answers:
  assumes "send_batch E p = (Some r, p')" and "batching p"
  shows "adds_answers p p'"
  using assms
  by (auto simp: send_batch_def batching_def Let_def get_messages_def split: if_splits prod.splits option.splits
      dest!: send_messages_answers intro: adds_answers_same) (auto simp: adds_answers_def)

lemma check_connection_futures:
  "same_futures p (snd (producer_check_connection a p))"
  "tp_batch (snd (producer_check_connection a p)) = tp_batch p"
  by (simp_all add: producer_check_connection_def on_producer_sender_def same_futures_def split: prod.split)

lemma producer_op_futures:
  assumes "producer_op p p'" and "futures_inv p"
  shows "futures_inv p' \<and> adds_answers p p'"
  using assms(1)
proof cases
  case (op_send E m r)
  with assms(2) send_raw_futures [OF op_send assms(2)] show ?thesis
    by (auto simp: futures_inv_def intro: send_raw_answers)
next
  case (op_flush E r)
  with assms(2) send_batch_futures [OF op_flush assms(2)] show ?thesis
    by (auto simp: futures_inv_def intro: send_batch_answers)
next
  case (op_check a)
  with assms(2) check_connection_futures [where p = p and a = a] show ?thesis
    by (auto simp: futures_inv_def same_futures_def batching_def storage_def intro: adds_answers_same)
qed

lemma producer_ops_futures:
  assumes "producer_op\<^sup>*\<^sup>* p p'" and "futures_inv p"
  shows "futures_inv p' \<and> adds_answers p p'"
  using assms
  by (induction rule: rtranclp_induct)
    (auto intro: adds_answers_same adds_answers_trans dest: producer_op_futures)

section \<open>Reading a future\<close>

lemma futures_partition:
  assumes "futures_inv p"
  shows "k < tp_next_future p \<longleftrightarrow> k \<in> fst ` set (tp_resolved p) \<or> k \<in> fst ` set (storage p)"
    and "k \<in> fst ` set (storage p) \<Longrightarrow> map_of (tp_resolved p) k = None"
proof -
  have l: "map fst (tp_resolved p) @ map fst (storage p) = [0..<tp_next_future p]"
    using assms by (simp add: futures_inv_def)
  then have "set (map fst (tp_resolved p) @ map fst (storage p)) = set [0..<tp_next_future p]" by (rule arg_cong)
  then show "k < tp_next_future p \<longleftrightarrow> k \<in> fst ` set (tp_resolved p) \<or> k \<in> fst ` set (storage p)"
    by (simp add: set_eq_iff)
  have "distinct (map fst (tp_resolved p) @ map fst (storage p))" unfolding l by simp
  then show "k \<in> fst ` set (storage p) \<Longrightarrow> map_of (tp_resolved p) k = None"
    by (auto simp: map_of_eq_None_iff)
qed

lemma send_future_cases:
  assumes "futures_inv p" and "k < tp_next_future p"
  obtains (waits) "k \<in> fst ` set (storage p)" "send_future True p k = Waiting" "send_future False p k = Canceled"
  | (settled) r where "k \<notin> fst ` set (storage p)" "map_of (tp_resolved p) k = Some r"
      "\<And>alive. send_future alive p k = Sent r"
proof (cases "k \<in> fst ` set (storage p)")
  case True
  with futures_partition(2) [OF assms(1)] waits show ?thesis by (simp add: send_future_def)
next
  case False
  with futures_partition(1) [OF assms(1), of k] assms(2) obtain r where "map_of (tp_resolved p) k = Some r"
    by (metis map_of_eq_None_iff not_None_eq)
  with False settled show ?thesis by (simp add: send_future_def)
qed

lemma send_future_keeps:
  assumes "adds_answers p p'" and "send_future True p k = Sent r"
  shows "send_future alive p' k = Sent r"
  using assms by (auto simp: adds_answers_def send_future_def split: option.splits if_splits)

lemma all_answers: "adds_answers p p' \<Longrightarrow> tp_resolved p = [] \<Longrightarrow> x \<in> set (tp_resolved p') \<Longrightarrow> batch_answer (snd x)"
  by (auto simp: adds_answers_def)

section \<open>Properties\<close>

text \<open>C21: Every future of a batching producer settles. Take any operations of a new producer and any
  future it handed out. The future waits exactly while its message is in the batch; otherwise it
  gives the receipt of its batch or the error of its batch and nothing else, and keeps giving it
  whatever the producer does later, also when the producer is dropped. A flush that returns leaves no future
  waiting, and when the producer is dropped those that wait learn that it is gone.\<close>

theorem send_futures_settle:
  assumes "producer_op\<^sup>*\<^sup>* p p'" and "futures_inv p" and "tp_resolved p = []" and "k < tp_next_future p'"
  shows "(send_future_poll (send_future True p' k) = Pending \<longleftrightarrow> k \<in> fst ` set (storage p')) \<and>
    send_future_poll (send_future False p' k) =
      (case send_future_poll (send_future True p' k) of
         Pending \<Rightarrow> Ready (Inl disconnected_producer) | Ready r \<Rightarrow> Ready r) \<and>
    (\<forall>r. send_future_poll (send_future True p' k) = Ready r \<longrightarrow>
       batch_answer r \<and>
       (\<forall>p''. producer_op\<^sup>*\<^sup>* p' p'' \<longrightarrow> send_future_poll (send_future True p'' k) = Ready r)) \<and>
    (\<forall>E u p''. send_batch E p' = (Some u, p'') \<longrightarrow>
       (\<exists>r. send_future_poll (send_future True p'' k) = Ready r))"
proof -
  note p' = producer_ops_futures [OF assms(1,2)]
  have flush: "\<exists>r. send_future_poll (send_future True p'' k) = Ready r"
    if "send_batch E p' = (Some u, p'')" for E u p''
  proof -
    note b = send_batch_futures [OF that conjunct1 [OF p']]
    then have "k < tp_next_future p''" using assms(4) by simp
    from send_future_cases [OF conjunct1 [OF b] this] b show ?thesis by cases auto
  qed
  from conjunct1 [OF p'] assms(4) show ?thesis
  proof (cases rule: send_future_cases)
    case waits
    with flush show ?thesis by auto
  next
    case (settled r)
    have "batch_answer r"
      using all_answers [OF conjunct2 [OF p'] assms(3) map_of_SomeD [OF settled(2)]] by simp
    moreover have "send_future True p'' k = Sent r" if "producer_op\<^sup>*\<^sup>* p' p''" for p''
      using send_future_keeps [OF conjunct2 [OF producer_ops_futures [OF that]]] p' settled(3) by simp
    ultimately show ?thesis using settled flush by simp
  qed
qed

text \<open>While the broker accepts what it is sent, every send of a batching producer returns.\<close>

lemma send_raw_returns:
  assumes "usable p" and "batching p" and "accepted E" and "po_batch_size (tp_options p) = Some n"
  shows "\<exists>p'. send_raw E m p = (Some (Inr (tp_next_future p)), p') \<and> usable p' \<and> batching p' \<and>
    tp_options p' = tp_options p \<and>
    storage p' = (if unat n \<le> Suc (length (storage p)) then []
                  else storage p @ [(tp_next_future p, batched m)])"
proof -
  from assms(2,4) obtain st where st: "tp_batch p = Some \<lparr>batch_length = n, batch_storage = st\<rparr>"
    by (auto simp: batching_def)
  let ?st = "st @ [(tp_next_future p, batched m)]"
  let ?q = "p\<lparr>tp_next_future := Suc (tp_next_future p), tp_batch := Some \<lparr>batch_length = n, batch_storage = []\<rparr>\<rparr>"
  have q: "usable ?q" using assms(1) by (simp add: usable_def)
  obtain p1 where p1: "send_messages E ?st ?q = (Some (), p1)" "usable p1" "tp_batch p1 = tp_batch ?q"
      "tp_options p1 = tp_options ?q"
    by (rule send_messages_accepted [OF q assms(3), where ms = ?st])
  show ?thesis
    using assms st p1
    by (auto simp: send_raw_def Let_def push_back_def is_full_def get_messages_def batching_def storage_def usable_def)
qed

theorem send_futures_settle_witness:
  "\<exists>r p1 p2 p3. send_raw ex_producer_env default_producer_message ex_producer = (Some (Inr 0), p1) \<and>
    send_raw ex_producer_env default_producer_message p1 = (Some (Inr 1), p2) \<and>
    send_raw ex_producer_env default_producer_message p2 = (Some (Inr 2), p3) \<and>
    send_future_poll (send_future True p3 1) = Ready r \<and> batch_answer r \<and>
    send_future_poll (send_future True p3 2) = Pending \<and>
    send_future_poll (send_future False p3 2) = Ready (Inl disconnected_producer)"
proof -
  have sz: "unat (2 :: u32) = 2" by simp
  note ex = ex_producer_ready ex_producer_env_accepts
  let ?send = "send_raw ex_producer_env default_producer_message"
  obtain p1 where p1: "?send ex_producer = (Some (Inr 0), p1)" "usable p1" "batching p1"
      "tp_options p1 = tp_options ex_producer" "length (storage p1) = 1"
    using send_raw_returns [OF ex(1,2,6,4), of default_producer_message] ex(3) sz
    by (auto simp: ex_producer_def)
  note f1 = send_raw_futures [OF p1(1) ex(5)]
  obtain p2 where p2: "?send p1 = (Some (Inr 1), p2)" "usable p2" "batching p2"
      "tp_options p2 = tp_options ex_producer" "storage p2 = []"
    using send_raw_returns [OF p1(2,3) ex(6), of 2 default_producer_message] p1(4,5) ex(4) sz f1
    by (auto simp: ex_producer_def)
  note f2 = send_raw_futures [OF p2(1) conjunct1 [OF f1]]
  obtain p3 where p3: "?send p2 = (Some (Inr 2), p3)" "fst ` set (storage p3) = {2}"
    using send_raw_returns [OF p2(2,3) ex(6), of 2 default_producer_message] p2(4,5) ex(4) sz f1 f2
    by (auto simp: ex_producer_def)
  note f3 = send_raw_futures [OF p3(1) conjunct1 [OF f2]]
  have ops: "producer_op\<^sup>*\<^sup>* ex_producer p3"
    by (meson op_send [OF p1(1)] op_send [OF p2(1)] op_send [OF p3(1)] rtranclp.rtrancl_into_rtrancl
        rtranclp.rtrancl_refl)
  have n: "tp_next_future p3 = 3" using f1 f2 f3 by (simp add: ex_producer_def)
  have "tp_resolved ex_producer = []" by (simp add: ex_producer_def)
  note settle = send_futures_settle [OF ops ex(5) this, unfolded n]
  have "(1 :: nat) \<notin> fst ` set (storage p3)" "(2 :: nat) \<in> fst ` set (storage p3)" using p3(2) by simp_all
  then have first: "send_future_poll (send_future True p3 1) \<noteq> Pending"
    and last: "send_future_poll (send_future True p3 2) = Pending"
    using settle [of 1, THEN conjunct1] settle [of 2, THEN conjunct1] by simp_all
  then obtain r where r: "send_future_poll (send_future True p3 1) = Ready r"
    by (cases "send_future_poll (send_future True p3 1)") simp_all
  moreover have "batch_answer r"
    by (rule settle [of 1, THEN conjunct2, THEN conjunct2, THEN conjunct1, THEN spec, THEN mp, THEN conjunct1, OF _ r])
      simp
  moreover have "send_future_poll (send_future False p3 2) = Ready (Inl disconnected_producer)"
    using settle [of 2, THEN conjunct2, THEN conjunct1] last by simp
  ultimately show ?thesis using p1(1) p2(1) p3(1) last by blast
qed

section \<open>Whose receipt a future gets\<close>

text \<open>The receipt with which the broker answers a send that it accepts.\<close>

definition receipt_of :: "producer_env \<Rightarrow> command_send_receipt" where
  "receipt_of E = (case pe_response E of Answered r \<Rightarrow> the (send_receipt (command r)))"

lemma send_messages_receipts:
  assumes "usable p" and "accepted E"
  shows "tp_resolved (snd (send_messages E ms p)) = tp_resolved p @ map (\<lambda>x. (fst x, Inr (receipt_of E))) ms"
proof -
  let ?m = "batch_message (pe_wire E) (pe_prost E) (map snd ms)"
  from assms(2) obtain r rc where r: "pe_response E = Answered r" "error (command r) = None"
    "send_receipt (command r) = Some rc"
    by (auto simp: accepted_def split: awaited.splits)
  obtain p1 where p1: "send_once E ?m (pe_response E) p = (Inr rc, p1)" "same_futures p p1"
    using send_once_accepted [OF assms(1) r, of ?m] by metis
  have "send_compress E ?m p = (Some (Inr rc), p1)"
    using assms(1) p1(1) by (simp add: send_compress_def compress_def usable_def send_inner_def)
  then show ?thesis
    using p1(2) r by (simp add: send_messages_def receipt_of_def same_futures_def comp_def)
qed

lemma send_raw_receipts:
  assumes "usable p" and "batching p" and "accepted E" and "po_batch_size (tp_options p) = Some n"
  shows "tp_resolved (snd (send_raw E m p)) = tp_resolved p @
    (if unat n \<le> Suc (length (storage p))
     then map (\<lambda>k. (k, Inr (receipt_of E))) (map fst (storage p) @ [tp_next_future p]) else [])"
proof -
  from assms(2,4) obtain st where st: "tp_batch p = Some \<lparr>batch_length = n, batch_storage = st\<rparr>"
    by (auto simp: batching_def)
  let ?st = "st @ [(tp_next_future p, batched m)]"
  let ?q = "p\<lparr>tp_next_future := Suc (tp_next_future p), tp_batch := Some \<lparr>batch_length = n, batch_storage = []\<rparr>\<rparr>"
  have q: "usable ?q" using assms(1) by (simp add: usable_def)
  obtain p1 where p1: "send_messages E ?st ?q = (Some (), p1)"
    by (rule send_messages_accepted [OF q assms(3), where ms = ?st])
  with send_messages_receipts [OF q assms(3), of ?st] have "tp_resolved p1 = tp_resolved p @
      map (\<lambda>x. (fst x, Inr (receipt_of E))) ?st"
    by simp
  then show ?thesis
    using st p1 by (simp add: send_raw_def Let_def push_back_def is_full_def get_messages_def storage_def comp_def)
qed

text \<open>A producer with batches of \<open>n\<close> after the sends \<open>Es\<close>: the futures of every full batch have the receipt
  that came back in the call that filled it, the others wait.\<close>

definition receipts_inv :: "u32 \<Rightarrow> producer_env list \<Rightarrow> TopicProducer \<Rightarrow> bool" where
  "receipts_inv n Es p \<longleftrightarrow>
     usable p \<and> batching p \<and> po_batch_size (tp_options p) = Some n \<and> tp_next_future p = length Es \<and>
     map fst (storage p) = [length Es div unat n * unat n..<length Es] \<and>
     tp_resolved p =
       map (\<lambda>k. (k, Inr (receipt_of (Es ! (k div unat n * unat n + (unat n - 1)))))) [0..<length Es div unat n * unat n]"

lemma div_Suc_full:
  assumes "0 < (n :: nat)" and "n \<le> Suc (k - k div n * n)"
  shows "Suc k = k div n * n + n" and "Suc k div n = Suc (k div n)"
proof -
  have "k mod n < n" using assms(1) by simp
  moreover have "n \<le> Suc (k mod n)" using assms(2) by (simp add: minus_div_mult_eq_mod)
  ultimately have m: "Suc (k mod n) = n" by linarith
  then show "Suc k = k div n * n + n" using div_mult_mod_eq [of k n] by linarith
  show "Suc k div n = Suc (k div n)" using m by (simp add: div_Suc mod_Suc)
qed

lemma div_Suc_partial:
  assumes "0 < (n :: nat)" and "\<not> n \<le> Suc (k - k div n * n)"
  shows "Suc k div n = k div n"
  using assms by (simp add: div_Suc mod_Suc minus_div_mult_eq_mod)

text \<open>The call that fills the batch of a future comes within the full batches.\<close>

lemma filling_call:
  assumes "0 < (n :: nat)" and "j < q * n"
  shows "j div n * n + (n - 1) < q * n"
proof -
  have "j div n < q" using assms by (simp add: div_less_iff_less_mult)
  then have "Suc (j div n) * n \<le> q * n" by (intro mult_right_mono) simp_all
  with assms(1) show ?thesis by simp
qed

lemma upt_split: "a \<le> b \<Longrightarrow> [0..<a] @ [a..<b] = [0..<b]"
  using upt_add_eq_append [of 0 a "b - a"] by simp

lemma receipts_futures_inv: "receipts_inv n Es p \<Longrightarrow> futures_inv p"
  by (simp add: receipts_inv_def futures_inv_def comp_def upt_split)

lemma send_raw_receipts_inv:
  assumes "receipts_inv n Es p" and "accepted E" and "0 < n"
  shows "receipts_inv n (Es @ [E]) (snd (send_raw E m p))"
proof -
  let ?n = "unat n" and ?k = "length Es" and ?p = "snd (send_raw E m p)"
  let ?got = "\<lambda>Es k. (k, Inr (receipt_of (Es ! (k div ?n * ?n + (?n - 1)))))"
  let ?full = "?k div ?n * ?n"
  have i: "usable p" "batching p" "po_batch_size (tp_options p) = Some n" "tp_next_future p = ?k"
      "map fst (storage p) = [?full..<?k]" "tp_resolved p = map (?got Es) [0..<?full]"
    using assms(1) by (simp_all add: receipts_inv_def)
  have n: "0 < ?n" using assms(3) by (simp add: word_less_nat_alt)
  have len: "length (storage p) = ?k - ?full" using arg_cong [OF i(5), of length] by simp
  obtain p' where p': "send_raw E m p = (Some (Inr ?k), p')" "usable p'" "batching p'" "tp_options p' = tp_options p"
      "storage p' = (if ?n \<le> Suc (length (storage p)) then [] else storage p @ [(?k, batched m)])"
    using send_raw_returns [OF i(1,2) assms(2) i(3), of m] i(4) by auto
  have nf: "tp_next_future p' = Suc ?k"
    using send_raw_futures [OF p'(1) receipts_futures_inv [OF assms(1)]] i(4) by simp
  have old: "map (?got (Es @ [E])) [0..<?full] = tp_resolved p"
    unfolding i(6)
  proof (rule map_cong)
    fix j assume "j \<in> set [0..<?full]"
    then have "j div ?n * ?n + (?n - 1) < ?full" using filling_call [OF n] by simp
    then have "j div ?n * ?n + (?n - 1) < ?k" using div_times_less_eq_dividend [of ?k ?n] by linarith
    then show "?got (Es @ [E]) j = ?got Es j" by (simp add: nth_append)
  qed simp
  note r = send_raw_receipts [OF i(1,2) assms(2) i(3), of m, unfolded p'(1) snd_conv]
  have "map fst (storage p') = [Suc ?k div ?n * ?n..<Suc ?k] \<and>
      tp_resolved p' = map (?got (Es @ [E])) [0..<Suc ?k div ?n * ?n]"
  proof (cases "?n \<le> Suc (length (storage p))")
    case True
    note d = div_Suc_full [OF n, of ?k] 
    from True len have d: "Suc ?k = ?full + ?n" "Suc ?k div ?n = Suc (?k div ?n)" using d by simp_all
    then have k: "Suc ?k div ?n * ?n = Suc ?k" by simp
    have new: "map (\<lambda>k. (k, Inr (receipt_of E))) [?full..<Suc ?k] = map (?got (Es @ [E])) [?full..<Suc ?k]"
    proof (rule map_cong)
      fix j assume "j \<in> set [?full..<Suc ?k]"
      then have "j div ?n = ?k div ?n" using d(1) by (intro div_nat_eqI) (simp_all add: mult.commute)
      then have "j div ?n * ?n + (?n - 1) = ?k" using d(1) n by simp
      then show "(j, Inr (receipt_of E)) = ?got (Es @ [E]) j" by simp
    qed simp
    have "tp_resolved p' = tp_resolved p @ map (\<lambda>k. (k, Inr (receipt_of E))) [?full..<Suc ?k]"
      using True r i(4,5) by simp
    also have "\<dots> = map (?got (Es @ [E])) ([0..<?full] @ [?full..<Suc ?k])"
      unfolding new old [symmetric] map_append ..
    also have "[0..<?full] @ [?full..<Suc ?k] = [0..<Suc ?k]" by (rule upt_split) (use d(1) in simp)
    finally show ?thesis using True p'(5) k by simp
  next
    case False
    then have d: "Suc ?k div ?n = ?k div ?n" using div_Suc_partial [OF n] len by simp
    then show ?thesis using False p'(5) r i(5) old div_times_less_eq_dividend [of ?k ?n] by simp
  qed
  with p' nf i(3) show ?thesis by (simp add: receipts_inv_def)
qed

lemma send_raws_receipts:
  assumes "receipts_inv n [] p" and "0 < n" and "list_all (\<lambda>(E, m). accepted E) ms"
  shows "receipts_inv n (map fst ms) (send_raws ms p)"
  using assms(3)
proof (induction ms rule: rev_induct)
  case Nil
  show ?case using assms(1) by (simp add: send_raws_def)
next
  case (snoc x ms)
  then have "receipts_inv n (map fst ms) (send_raws ms p)" "accepted (fst x)" by (auto simp: list_all_iff)
  from send_raw_receipts_inv [OF this assms(2), of "snd x"] show ?case
    by (simp add: send_raws_def case_prod_beta)
qed

lemma send_future_receipts:
  assumes "receipts_inv n Es p" and "k < length Es"
  shows "send_future True p k =
    (if k < length Es div unat n * unat n
     then Sent (Inr (receipt_of (Es ! (k div unat n * unat n + (unat n - 1))))) else Waiting)"
proof -
  let ?full = "length Es div unat n * unat n"
  have "fst ` set (storage p) = set (map fst (storage p))" by simp
  also have "\<dots> = {?full..<length Es}" using assms(1) by (simp add: receipts_inv_def)
  finally show ?thesis
    using assms by (simp add: receipts_inv_def send_future_def map_of_map_restrict restrict_map_def)
qed

text \<open>C22: A future gets the receipt of its own batch. When a new producer with batches of \<open>n\<close> messages sends
  messages that the broker accepts, the future of the \<open>k\<close>-th message is completed with the receipt
  that the broker gave for batch \<open>k div n\<close>, the one that was sent by the call that filled it; the
  futures of the messages that do not fill a batch yet wait.\<close>

theorem futures_get_receipt_of_their_batch:
  assumes "usable p" and "batching p" and "po_batch_size (tp_options p) = Some n" and "0 < n"
    and "storage p = []" and "tp_next_future p = 0" and "tp_resolved p = []"
    and "list_all (\<lambda>(E, m). accepted E) ms" and "k < length ms"
  shows "send_future_poll (send_future True (send_raws ms p) k) =
    (if k < length ms div unat n * unat n
     then Ready (Inr (receipt_of (fst (ms ! (k div unat n * unat n + (unat n - 1)))))) else Pending)"
proof -
  let ?full = "length ms div unat n * unat n"
  have "receipts_inv n [] p" using assms(1-7) by (simp add: receipts_inv_def)
  from send_raws_receipts [OF this assms(4,8)] have "receipts_inv n (map fst ms) (send_raws ms p)" .
  moreover have "k div unat n * unat n + (unat n - 1) < length ms" if "k < ?full"
  proof -
    have "0 < unat n" using assms(4) by (simp add: word_less_nat_alt)
    from filling_call [OF this that] show ?thesis using div_times_less_eq_dividend [of "length ms" "unat n"] by linarith
  qed
  ultimately show ?thesis using send_future_receipts [of n "map fst ms" _ k] assms(9) by simp
qed

theorem futures_get_receipt_of_their_batch_witness:
  "(let p = send_raws (replicate 3 (ex_producer_env, default_producer_message)) ex_producer in
    send_future_poll (send_future True p 1) = Ready (Inr (CommandSendReceipt 3 0 None)) \<and>
    send_future_poll (send_future True p 2) = Pending)"
proof -
  have sz: "unat (2 :: u32) = 2" by simp
  have new: "tp_next_future ex_producer = 0" "tp_resolved ex_producer = []" by (simp_all add: ex_producer_def)
  have "0 < (2 :: u32)" by simp
  note f = futures_get_receipt_of_their_batch [OF ex_producer_ready(1,2,4) this ex_producer_ready(3) new,
      of "replicate 3 (ex_producer_env, default_producer_message)", unfolded sz]
  have "receipt_of ex_producer_env = CommandSendReceipt 3 0 None"
    by (simp add: receipt_of_def ex_producer_env_def ex_receipt_def proto_simps)
  then show ?thesis
    using f [of 1] f [of 2] ex_producer_env_accepts by (simp add: Let_def list_all_iff nth_Cons')
qed

text \<open>The check of a producer of partitions succeeds exactly if every partition answers its ping, and
  one partition that fails is enough for the whole check to fail.\<close>

theorem partitions_checked:
  "fst (inner_check_connection A (Partitioned q)) = Some (Inr ()) \<longleftrightarrow>
     list_all (\<lambda>p. fst (check_partition (A p) p) = Some (Inr ())) (pp_producers q)"
proof -
  let ?rs = "map (\<lambda>p. fst (check_partition (A p) p)) (pp_producers q)"
  have "(\<exists>us. try_join_all ?rs = Some (Inr us)) \<longleftrightarrow> list_all (\<lambda>r. r = Some (Inr ())) ?rs"
  proof
    assume "\<exists>us. try_join_all ?rs = Some (Inr us)"
    then obtain us where "?rs = map (\<lambda>x. Some (Inr x)) us" using try_join_all_Inr by blast
    then show "list_all (\<lambda>r. r = Some (Inr ())) ?rs" by (simp add: list_all_iff)
  next
    assume "list_all (\<lambda>r. r = Some (Inr ())) ?rs"
    then have "?rs = map (\<lambda>p. Some (Inr ())) (pp_producers q)" by (simp add: list_all_iff)
    with try_join_all_ok [of "\<lambda>p. ()" "pp_producers q"] show "\<exists>us. try_join_all ?rs = Some (Inr us)" by metis
  qed
  moreover have "fst (inner_check_connection A (Partitioned q)) = Some (Inr ()) \<longleftrightarrow>
      (\<exists>us. try_join_all ?rs = Some (Inr us))"
    by (cases "try_join_all ?rs"; cases "the (try_join_all ?rs)")
      (simp_all add: inner_check_connection_def Let_def comp_def bind_res_def)
  ultimately show ?thesis by (simp add: list_all_iff)
qed

end
