(* ===== verification/Spec2Isabelle.thy ===== *)
theory Spec2Isabelle
  imports Reconnection Tasks Exchange ReceiverTables SendFutures
begin

text \<open>
  A verification library for the Rust client of Apache Pulsar (\<open>src/src\<close>).

  \<^bold>\<open>The program.\<close> An application holds a \<^verbatim>\<open>Pulsar\<close> client (\<open>client.rs\<close>). Its connection manager
  (\<open>connection_manager.rs\<close>) keeps one connection per broker address, opened on demand with retries;
  the service discovery (\<open>service_discovery.rs\<close>) asks brokers where a topic lives. A connection
  (\<open>connection.rs\<close>) is a sender that numbers requests, a writer task, and a receiver task that gives
  every response to the request that waits for it and every message to its consumer. Bytes become
  commands and back in \<open>message.rs\<close>. A producer (\<open>producer.rs\<close>) batches, compresses and sends; a
  consumer (\<open>consumer.rs\<close>) is a handle and an engine task that grants permits, unpacks batches,
  acknowledges and asks for redelivery; a consumer of many topics polls many handles in turn; a
  reader (\<open>reader.rs\<close>) acknowledges what it returns. Providers of \<open>authentication.rs\<close> supply what the
  connect command carries. Errors are the types of \<open>error.rs\<close>. All tasks, intervals and delays go
  through the executor of \<open>executor.rs\<close>, Tokio or async-std.

  \<^bold>\<open>The theories\<close>, in the order of import:
  \<^item> \<open>Prelude\<close>: machine integers as words, results as sums, \<open>try_join_all\<close>, polls, decimal texts, and
    the collections of simplification rules. \<open>Executor\<close>: the trait of \<open>executor.rs\<close> as the locale
    \<open>executor\<close>, interpreted for both runtimes and for a shared pointer, its handles, and loops over
    an interval.
  \<^item> \<open>Proto\<close>, \<open>Errors\<close>, \<open>Message\<close>: the protocol messages (\<open>PulsarApi.proto\<close>), \<open>error.rs\<close> with its shared
    error cell, and the keys under which requests are answered.
  \<^item> \<open>Wire\<close>, \<open>Codec\<close>, \<open>Framing\<close>: the contracts of nom and prost as parameters, both encoders and decoders
    of \<open>message.rs\<close> and the batch format, round trips, and that the cutting of a stream into reads does
    not matter (locale \<open>framing\<close>, interpreted for both codecs).
  \<^item> \<open>Messages\<close>: the command builders of \<open>connection.rs\<close> and the option records they read.
  \<^item> \<open>Correlation\<close>: requests, responses and what it means to match them, as a locale; \<open>Receiver\<close>:
    \<open>Receiver::poll\<close> with its tables, an interpretation of it; \<open>Sender\<close>: \<open>ConnectionSender\<close> and all its
    requests; \<open>Connection\<close>: opening, handshake, writer task, validity.
  \<^item> \<open>Retry\<close>: the loop that repeats an operation while the broker is not ready, shared by producers and
    consumers; \<open>Manager\<close>: the pool as a system of interleaved tasks (an inductive step relation), with
    backoff; \<open>Discovery\<close>: lookups, redirects, partitions.
  \<^item> \<open>Engine\<close>: \<open>ConsumerEngine\<close>, turn by turn; \<open>Producer\<close>: batches, creation, sending, reconnection,
    producers of partitions and of many topics, and the builders.
    \<open>SendFutures\<close>: the futures an application holds of its sends, over all operations of a producer.
  \<^item> \<open>TreeMap\<close>: the contract of an ordered map (locale \<open>tree_map\<close>) and ordered association lists as its
    model; \<open>Consumer\<close>: \<open>TopicConsumer\<close>; \<open>MultiConsumer\<close>: \<open>MultiTopicConsumer\<close> and the public \<open>Consumer\<close>;
    \<open>Reader\<close>: \<open>reader.rs\<close>; \<open>ConsumerBuilder\<close>: the checks and the creation of consumers and readers.
  \<^item> \<open>Auth\<close>: the trait as locale \<open>authentication\<close> with its three implementations; \<open>Client\<close>: \<open>client.rs\<close>, with
    the message formats as locale \<open>message_format\<close>.
  \<^item> \<open>Tasks\<close>: the periodic tasks on their intervals: heartbeat, check of the pool, redelivery ticker.
  \<^item> \<open>ReceiverTables\<close>: the receiver once more, on ordered trees under the derived order of \<open>RequestKey\<close> (an
    instance of \<open>linorder\<close>), which refine the maps of \<open>Receiver\<close>.
  \<^item> \<open>Exchange\<close>: sender and receiver of a connection together, for all operations of clients and producers.
  \<^item> \<open>Session\<close>: transport, receiver, engine and handle of one subscription as a system of interleaved
    steps, which refines an abstract queue (locale \<open>queue_refinement\<close>, interpreted for the system).
    \<open>Reconnection\<close>: its whole life, over any number of connections. There the turn of the engine is taken apart: the
    beginning with the check of the connection, and the wait, during which the connection may break, the
    broker may close the consumer, or the message channel may end.

  \<^bold>\<open>How code becomes definitions.\<close> A struct is a record, an operation a function that returns its result
  and the changed record; \<open>?\<close> and early returns are branches of a sum, panics are \<open>None\<close> or \<open>Panics\<close>.
  Unsigned integers are words of their width and wrap around (a debug build would panic there).
  What an operation awaits (answers of the broker or of another task, the clock, random numbers,
  whether the executor takes a task) is an argument, so that a theorem holds for every behaviour of
  the surroundings. A loop that may run forever takes the list of what its rounds meet; its result is
  \<open>None\<close> or \<open>Unfinished\<close> when the list is used up, and the theorems on termination say how long a list
  is enough (one round more than the configured retries). Channels are lists with a flag that says
  whether the other end is still there. Tasks that run concurrently are sequences of steps: of the
  manager (calls that are dropped included), of the client with its background task and of a subscription in any
  interleaving, of the receiver and the engine poll by poll and turn by turn.

  \<^bold>\<open>Simplifications.\<close> A channel is an unbounded list, also the one from the engine to the application, which in the
  code holds a thousand messages: an engine that would wait for room there is one that takes its next step
  later. Operations of a producer and, outside \<open>Reconnection\<close>, turns of the engine are atomic: the
  connection does not break in the middle, and the futures of a batch in flight are not seen as pending. In
  \<open>Session\<close> and \<open>Reconnection\<close> the broker sends no message that goes to the dead letter topic (\<open>Engine\<close> has
  these).

  \<^bold>\<open>What is proved.\<close> Requests and responses (\<open>Exchange\<close>, \<open>Receiver\<close>, \<open>Sender\<close>): exactly the arrived answers
  complete exactly the requests that drew their number and the messages that have their sequence
  number. Data (\<open>Codec\<close>, \<open>Framing\<close>,
  \<open>batch_end_to_end\<close>, \<open>strings_end_to_end\<close>): what is encoded, batched and compressed at one end is what
  the application at the other end reads, in order. Flow control, redelivery and dead letters
  (\<open>Engine\<close>): permits balance with the window on a working connection, and what redelivery asks for. Connections
  (\<open>Manager\<close>, \<open>Connection\<close>, \<open>Discovery\<close>): no task waits for a connection nobody opens, unless the call that
  opened it was dropped or its executor refused a task; retries and delays are
  bounded, addresses are sound. Producing (\<open>Producer\<close>, \<open>Client\<close>): batches are cut in order, every future
  is completed once, with the receipt of its batch, and settles (\<open>SendFutures\<close>); every send of the client is answered
  at most once, with its own result. Consuming (\<open>Consumer\<close>, \<open>MultiConsumer\<close>,
  \<open>Reader\<close>, \<open>ConsumerBuilder\<close>): handles yield what the engine forwards, no topic starves, the queue of
  topics and the map of handles agree, readers acknowledge what they return and the
  acknowledgements reach the broker (\<open>reader_acks_reach_broker\<close>). Credentials (\<open>Auth\<close>): no stale token.
  A whole subscription (\<open>Session\<close>): under any interleaving it behaves as a queue, what is under way can
  always be received, stays within the window if the broker obeys it and no notice is counted as a message, and
  acknowledgements keep their order. Over any number of connections (\<open>Reconnection\<close>): what the engine has taken reaches
  the application once and in order, on whichever channel it was taken; acknowledgements go out in order,
  except those taken when the writer had gone, which are lost; and what is under way on the present connection
  is received if the engine listens on its present channel. Tasks
  (\<open>Tasks\<close>): a broker that stops answering is found by the heartbeat and not used again.
  Some theorems state behaviour that is probably not meant: windows that stop moving, permits
  granted twice after a reconnection, an old channel kept after a reconnection, calls that wait forever
  after another call was dropped, a token that lasts too long, a reader that panics when it is built from a pattern.

  \<^bold>\<open>Not modelled.\<close> The crate root with its re-exports and integration tests (\<open>lib.rs\<close>), the examples and the test modules;
  the two runtimes, sockets, TLS, DNS, compression, checksums, protobuf, regular expressions, HTTP and JSON, which are
  parameters with the laws the theorems name; log output.
\<close>

section \<open>From producer to consumer\<close>

text \<open>
  What the two sides rely on of the compression libraries: what a producer compresses, the
  decompressor of the same name compiled into the consumer gives back.
\<close>

definition codecs_invert :: "compressors \<Rightarrow> codecs \<Rightarrow> bool" where
  "codecs_invert Z C \<longleftrightarrow>
     (\<forall>f. z_lz4 Z = Some f \<longrightarrow> (\<exists>g. c_lz4 C = Some g \<and>
        (\<forall>bs zs. f bs = Inr zs \<longrightarrow> g zs (Some (of_nat (length bs))) = Inr bs))) \<and>
     (\<forall>f. z_zlib Z = Some f \<longrightarrow> (\<exists>g. c_zlib C = Some g \<and> (\<forall>bs zs. f bs = Inr zs \<longrightarrow> g zs = Inr bs))) \<and>
     (\<forall>f. z_zstd Z = Some f \<longrightarrow> (\<exists>g. c_zstd C = Some g \<and> (\<forall>bs zs. f bs = Inr zs \<longrightarrow> g zs = Inr bs))) \<and>
     (\<forall>f. z_snappy Z = Some f \<longrightarrow> (\<exists>g. c_snappy C = Some g \<and> (\<forall>bs zs. f bs = Inr zs \<longrightarrow> g zs = Inr bs)))"

definition sent_payload :: "u64 \<Rightarrow> u64 \<Rightarrow> string \<Rightarrow> u64 \<Rightarrow> ProducerMessage \<Rightarrow> payload" where
  "sent_payload now i name seq m = the (payload (messages_send now i name seq m))"

text \<open>Compressing the payload of a message and decompressing what was sent gives the payload back;
  the metadata that the consumer reads further is not changed by compression.\<close>

lemma decompress_sent:
  assumes "codecs_invert Z C" and "compress Z c m = Some (Inr m')" and "pm_compression m = None"
  shows "\<exists>md. decompress C sh (sent_payload now i name seq m') = Inr \<lparr>metadata = md, data = pm_payload m\<rparr> \<and>
    num_messages_in_batch md = pm_num_messages_in_batch m"
proof -
  let ?run = "\<lambda>z k. map_option (\<lambda>f. bind_res (map_err (\<lambda>err. EProducer (ProdIo err)) (f (pm_payload m)))
    (\<lambda>bs. Inr (m\<lparr>pm_uncompressed_size := Some (of_nat (length (pm_payload m))),
                 pm_payload := bs, pm_compression := Some k\<rparr>))) z"
  have run: "\<exists>f zs. z = Some f \<and> f (pm_payload m) = Inr zs \<and>
      m' = m\<lparr>pm_uncompressed_size := Some (of_nat (length (pm_payload m))), pm_payload := zs,
             pm_compression := Some k\<rparr>"
    if "?run z k = Some (Inr m')" for z and k :: i32
    using that by (cases z; cases "the z (pm_payload m)") (auto simp: map_err_def)
  note defs = sent_payload_def messages_send_def decompress_def codecs_invert_def
  consider (plain) "m' = m" | (lz4) "?run (z_lz4 Z) 1 = Some (Inr m')"
    | (zlib) "?run (z_zlib Z) 2 = Some (Inr m')" | (zstd) "?run (z_zstd Z) 3 = Some (Inr m')"
    | (snappy) "?run (z_snappy Z) 4 = Some (Inr m')"
    using assms(2) by (auto simp: compress_def split: option.splits compression_type.splits)
  then show ?thesis
  proof cases
    case plain
    with assms(3) show ?thesis by (simp add: defs)
  next
    case lz4
    with run assms(1) show ?thesis by (fastforce simp: defs)
  next
    case zlib
    with run assms(1) show ?thesis by (fastforce simp: defs)
  next
    case zstd
    with run assms(1) show ?thesis by (fastforce simp: defs)
  next
    case snappy
    with run assms(1) show ?thesis by (fastforce simp: defs)
  qed
qed

text \<open>What a consumer sees of a message of a batch, and what the producer was given.\<close>

definition received_view :: "message_id_data \<times> payload \<Rightarrow> i32 option \<times> bytes \<times> key_value list \<times> string option \<times> u64 option" where
  "received_view x =
     (batch_index (fst x), data (snd x), properties (metadata (snd x)),
      partition_key (metadata (snd x)), event_time (metadata (snd x)))"

definition given_view :: "nat \<times> ProducerMessage \<Rightarrow> i32 option \<times> bytes \<times> key_value list \<times> string option \<times> u64 option" where
  "given_view x =
     (Some (of_nat (fst x)), pm_payload (snd x), pm_properties (snd x), pm_partition_key (snd x),
      pm_event_time (snd x))"

lemma batch_items_view:
  "map received_view (batch_items i md k (map batched ms)) = map given_view (enumerate k ms)"
  by (induction ms arbitrary: k)
    (simp_all add: received_view_def given_view_def batch_item_def batched_def with_batch_index_def)

lemma batch_arrives:
  assumes "wire_format (ee_wire E)" and "\<forall>m \<in> set ms. batchable (ee_prost E) (batched m)"
    and "length ms < 2 ^ 32" and "codecs_invert Z (ee_codecs E)"
    and "compress Z c (batch_message (ee_wire E) (ee_prost E) (map batched ms)) = Some (Inr pm)"
    and "e_tx_open e"
  shows "\<exists>e1 items. process_payload E m (sent_payload now i name seq pm) e = (Inr (), e1) \<and>
    e_tx e1 = e_tx e @ map Inr items \<and> map received_view items = map given_view (enumerate 0 ms)"
proof -
  let ?W = "ee_wire E" and ?S = "ee_prost E"
  let ?bs = "map batched ms"
  let ?pm = "batch_message ?W ?S ?bs"
  have "pm_compression ?pm = None" "pm_payload ?pm = fold (serialize ?W ?S) ?bs []"
    "pm_num_messages_in_batch ?pm = Some (of_nat (length ms))"
    by (simp_all add: batch_message_def default_producer_message_def)
  with decompress_sent [OF assms(4,5), of "ee_show_i32 E" now i name seq] obtain md where
    md: "decompress (ee_codecs E) (ee_show_i32 E) (sent_payload now i name seq pm) =
        Inr \<lparr>metadata = md, data = fold (serialize ?W ?S) ?bs []\<rparr>"
      "num_messages_in_batch md = Some (of_nat (length ms))"
    by auto
  have "count_batched ?W ?S (length ?bs) (fold (serialize ?W ?S) ?bs []) = Inr ([], ?bs)"
    using wire_format.count_batched_printed [OF assms(1), of ?bs ?S "[]"] assms(2)
    by (simp add: fold_serialize)
  then have "parse_batched_message ?W ?S (of_nat (length ms)) (fold (serialize ?W ?S) ?bs []) = Inr ?bs"
    using assms(3) by (simp add: parse_batched_message_def)
  then have "process_payload E m (sent_payload now i name seq pm) e =
      deliver_batch (ee_now E) \<lparr>it_messages = ?bs, it_message_id = msg_message_id m, it_metadata = md,
        it_total_messages = of_nat (length ms), it_current_index = of_nat 0\<rparr> e"
    using md by (simp add: process_payload_def iterator_new_def)
  moreover obtain e1 where "deliver_batch (ee_now E) \<lparr>it_messages = ?bs,
      it_message_id = msg_message_id m, it_metadata = md, it_total_messages = of_nat (length ms),
      it_current_index = of_nat 0\<rparr> e = (Inr (), e1)"
    "e_tx e1 = e_tx e @ map Inr (batch_items (msg_message_id m) md 0 ?bs)"
    using deliver_batch_items [OF assms(6), of 0 ?bs "of_nat (length ms)" "ee_now E"
        "msg_message_id m" md] assms(3) by auto
  ultimately show ?thesis using batch_items_view by auto
qed

text \<open>C4: from producer to consumer. A batching producer packs messages into one payload, compresses it
  and sends it. If the broker hands the metadata and the data of that payload to a consumer whose
  compression libraries match, the consumer delivers exactly the messages the producer was given:
  as many, in the same order, numbered by their place in the batch, each with its payload,
  properties, partition key and event time.\<close>

theorem batch_end_to_end:
  assumes "wire_format (ee_wire E)" and "\<forall>m \<in> set ms. batchable (ee_prost E) (batched m)"
    and "length ms < 2 ^ 32" and "codecs_invert Z (ee_codecs E)"
    and "compress Z c (batch_message (ee_wire E) (ee_prost E) (map batched ms)) = Some (Inr pm)"
    and "e_tx_open e"
  shows "\<exists>e1 items. process_payload E m (sent_payload now i name seq pm) e = (Inr (), e1) \<and>
    e_tx e1 = e_tx e @ map Inr items \<and> map received_view items = map given_view (enumerate 0 ms)"
  using assms by (rule batch_arrives)

definition ex_reverser :: "bytes \<Rightarrow> (io_error, bytes) res" where
  "ex_reverser bs = Inr (rev bs)"

definition ex_compressors :: compressors where
  "ex_compressors = \<lparr>z_lz4 = None, z_zlib = Some ex_reverser, z_zstd = None, z_snappy = None\<rparr>"

definition ex_codec_env :: engine_env where
  "ex_codec_env = ex_env\<lparr>ee_codecs :=
     \<lparr>c_lz4 = None, c_zlib = Some ex_reverser, c_zstd = None, c_snappy = None\<rparr>\<rparr>"

definition ex_given :: "bytes \<Rightarrow> ProducerMessage" where
  "ex_given bs = default_producer_message\<lparr>pm_payload := bs\<rparr>"

lemma batched_ex_given: "batched (ex_given bs) = ex_batched bs"
  by (simp add: batched_def ex_given_def ex_batched_def default_producer_message_def
      default_single_message_metadata_def)

definition ex_compressed :: ProducerMessage where
  "ex_compressed = projr (the (compress ex_compressors (Some Zlib)
     (batch_message be_wire ex_single (map batched [ex_given [7], ex_given [8, 9]]))))"

theorem batch_end_to_end_witness:
  "\<exists>e1 items. process_payload ex_codec_env
      (CommandMessage 2 (MessageIdData 1 7 None None [] None None) None)
      (sent_payload 5 3 ''p'' 0 ex_compressed) (ex_engine 10) = (Inr (), e1) \<and>
    e_tx e1 = e_tx (ex_engine 10) @ map Inr items \<and>
    map received_view items = map given_view (enumerate 0 [ex_given [7], ex_given [8, 9]])"
proof (rule batch_end_to_end [where Z = ex_compressors and c = "Some Zlib"])
  show "wire_format (ee_wire ex_codec_env)"
    by (simp add: ex_codec_env_def ex_env_def be.wire_format_axioms)
  show "\<forall>m \<in> set [ex_given [7], ex_given [8, 9]]. batchable (ee_prost ex_codec_env) (batched m)"
    by (simp add: ex_codec_env_def ex_env_def batched_ex_given batchable_ex_batched)
  show "codecs_invert ex_compressors (ee_codecs ex_codec_env)"
    by (auto simp: codecs_invert_def ex_compressors_def ex_codec_env_def ex_reverser_def)
  show "compress ex_compressors (Some Zlib) (batch_message (ee_wire ex_codec_env)
      (ee_prost ex_codec_env) (map batched [ex_given [7], ex_given [8, 9]])) = Some (Inr ex_compressed)"
    by (simp add: ex_compressed_def compress_def ex_compressors_def ex_reverser_def ex_codec_env_def
        ex_env_def)
qed (simp_all add: ex_engine_defs)

section \<open>Strings from one application to the other\<close>

definition written :: "string \<Rightarrow> ProducerMessage" where
  "written s = producer_message_from (projr (serialize_string s))"

lemma oks_map_Inr: "oks (map (\<lambda>x. Inr (f x)) xs) = map f xs"
  by (induction xs) simp_all

lemma received_data:
  assumes "map received_view items = map given_view (enumerate 0 (map written xs))"
  shows "map (\<lambda>x. data (snd x)) items = map into_bytes xs"
proof -
  have "map (\<lambda>v. fst (snd v)) (map received_view items) =
      map (\<lambda>v. fst (snd v)) (map given_view (enumerate 0 (map written xs)))"
    using assms by simp
  then have "map (\<lambda>x. data (snd x)) items = map (\<lambda>x. pm_payload (snd x)) (enumerate 0 (map written xs))"
    by (simp add: received_view_def given_view_def comp_def)
  also have "\<dots> = map pm_payload (map snd (enumerate 0 (map written xs)))" by (simp only: map_map comp_def)
  also have "\<dots> = map into_bytes xs"
    by (simp only: map_snd_enumerate)
      (simp add: written_def serialize_string_def producer_message_from_def comp_def)
  finally show ?thesis .
qed

text \<open>C5: Strings from application to application. Strings that a batching, compressing producer is given are
  what the application at the other end reads: the engine of the consumer forwards the batch, the
  consumer handle yields one message per string, and deserializing them gives the strings, in
  order.\<close>

theorem strings_end_to_end:
  assumes "list_all (\<lambda>s. utf8_valid (into_bytes s)) xs"
    and "wire_format (ee_wire E)" and "\<forall>m \<in> set (map written xs). batchable (ee_prost E) (batched m)"
    and "length xs < 2 ^ 32" and "codecs_invert Z (ee_codecs E)"
    and "compress Z c (batch_message (ee_wire E) (ee_prost E) (map batched (map written xs))) = Some (Inr pm)"
    and "e_tx_open e" and "e_tx e = []" and "length ts = length xs"
  shows "\<exists>e1. process_payload E m (sent_payload now i name seq pm) e = (Inr (), e1) \<and>
    map (cm_deserialize deserialize_string) (oks (fst (tc_polls ts (h\<lparr>tc_messages := e_tx e1\<rparr>)))) = map Inr xs"
proof -
  from batch_arrives [OF assms(2,3) _ assms(5,6,7), of m now i name seq] assms(4)
  obtain e1 items where p: "process_payload E m (sent_payload now i name seq pm) e = (Inr (), e1)"
    and tx: "e_tx e1 = e_tx e @ map Inr items"
    and v: "map received_view items = map given_view (enumerate 0 (map written xs))"
    by auto
  let ?h = "h\<lparr>tc_messages := e_tx e1\<rparr>"
  note bytes = received_data [OF v]
  have len: "length items = length xs" using map_eq_imp_length_eq [OF bytes] .
  have "fst (tc_polls ts ?h) = map (yielded ?h) (map Inr items)"
    using tc_polls_exact [of ts ?h] assms(8,9) tx len by simp
  then have "oks (fst (tc_polls ts ?h)) = map (\<lambda>x. create_message ?h (fst x) (snd x)) items"
    by (simp add: yielded_def case_prod_beta' comp_def oks_map_Inr)
  moreover have "map deserialize_string (map snd items) = map Inr xs"
  proof (rule string_format.all_read_back [OF assms(1)])
    show "map serialize_string xs = map Inr (map (\<lambda>s. projr (serialize_string s)) xs)"
      by (simp add: serialize_string_def)
    show "map data (map snd items) = map m_payload (map (\<lambda>s. projr (serialize_string s)) xs)"
      using bytes by (simp add: serialize_string_def comp_def)
  qed
  ultimately have "map (cm_deserialize deserialize_string) (oks (fst (tc_polls ts ?h))) = map Inr xs"
    by (simp add: cm_deserialize_def create_message_def comp_def)
  with p show ?thesis by blast
qed

lemma written_ex_given: "written s = ex_given (into_bytes s)"
  by (simp add: written_def ex_given_def serialize_string_def producer_message_from_def default_message_def
      default_producer_message_def)

definition ex_compressed_strings :: ProducerMessage where
  "ex_compressed_strings = projr (the (compress ex_compressors (Some Zlib)
     (batch_message be_wire ex_single (map batched (map written [''a'', ''hi''])))))"

theorem strings_end_to_end_witness:
  "\<exists>e1. process_payload ex_codec_env
      (CommandMessage 2 (MessageIdData 1 7 None None [] None None) None)
      (sent_payload 5 3 ''p'' 0 ex_compressed_strings) (ex_engine 10) = (Inr (), e1) \<and>
    map (cm_deserialize deserialize_string)
      (oks (fst (tc_polls [1, 2] ((rd_consumer ex_reader)\<lparr>tc_messages := e_tx e1\<rparr>)))) =
    map Inr [''a'', ''hi'']"
proof (rule strings_end_to_end [where Z = ex_compressors and c = "Some Zlib"])
  show "list_all (\<lambda>s. utf8_valid (into_bytes s)) [''a'', ''hi'']" by (simp add: into_bytes_def)
  show "wire_format (ee_wire ex_codec_env)"
    by (simp add: ex_codec_env_def ex_env_def be.wire_format_axioms)
  show "\<forall>m \<in> set (map written [''a'', ''hi'']). batchable (ee_prost ex_codec_env) (batched m)"
    by (simp add: ex_codec_env_def ex_env_def written_ex_given batched_ex_given into_bytes_def batchable_def
        prost_inverse_def ex_single_def table_prost_def ex_batched_def default_single_message_metadata_def)
  show "codecs_invert ex_compressors (ee_codecs ex_codec_env)"
    by (auto simp: codecs_invert_def ex_compressors_def ex_codec_env_def ex_reverser_def)
  show "compress ex_compressors (Some Zlib) (batch_message (ee_wire ex_codec_env)
      (ee_prost ex_codec_env) (map batched (map written [''a'', ''hi'']))) = Some (Inr ex_compressed_strings)"
    by (simp add: ex_compressed_strings_def compress_def ex_compressors_def ex_reverser_def ex_codec_env_def
        ex_env_def)
qed (simp_all add: ex_engine_defs)

section \<open>Acknowledgements from the reader to the broker\<close>

lemma engine_step_ack:
  assumes "working e"
  obtains e1 where "engine_step E (EngineNext (Some (EngineAck m cum))) e = (Continue, e1)" "working e1"
    "e_id e1 = e_id e" "acks_of (engine_tx e1) = acks_of (engine_tx e) @ [messages_ack (e_id e) [md_id m] cum]"
proof -
  obtain e1 where r: "refill E e = (Inr (), e1)" "working e1" "e_id e1 = e_id e"
    "acks_of (engine_tx e1) = acks_of (engine_tx e)"
    by (rule refill_working [OF assms, of E]) (auto simp: same_engine_def)
  obtain ch where ch: "listening e1 = Some ch" using r(2) by (auto simp: working_def)
  let ?t = "e1\<lparr>e_held := None, e_messages_rx := Some ch,
      e_unacked_messages := AList.delete (md_id m) (e_unacked_messages e1)\<rparr>"
  let ?e2 = "engine_ack m cum (e1\<lparr>e_held := None, e_messages_rx := Some ch\<rparr>)"
  have t: "healthy ?t" using r(2) by (simp add: working_def healthy_def)
  have step: "engine_step E (EngineNext (Some (EngineAck m cum))) e = (Continue, ?e2)"
    using r(1) ch assms
    by (simp add: engine_step_def check_connection_healthy working_def wait_for_event_def Let_def)
  have e2: "?e2 = snd (on_sender (send_ack (e_id e1) [md_id m] cum) ?t)" by (simp add: engine_ack_def)
  show thesis
    by (rule that [OF step])
      (use t r in \<open>simp_all add: e2 on_sender_healthy working_def healthy_def is_valid_def listening_def
        engine_tx_def\<close>)
qed

lemma engine_run_acks:
  assumes "working e"
  shows "\<exists>e1. engine_run (map2 (\<lambda>E m. (E, EngineNext (Some (ack_of m)))) Es ms) e = (Continue, e1) \<and>
    working e1 \<and> e_id e1 = e_id e \<and>
    acks_of (engine_tx e1) =
      acks_of (engine_tx e) @ map (\<lambda>m. messages_ack (e_id e) [cm_id m] False) (take (length Es) ms)"
  using assms
proof (induction Es arbitrary: ms e)
  case Nil
  then show ?case by simp
next
  case (Cons E Es)
  show ?case
  proof (cases ms)
    case Nil
    then show ?thesis using Cons.prems by simp
  next
    case (Cons m ms')
    obtain e1 where s: "engine_step E (EngineNext (Some (ack_of m))) e = (Continue, e1)" "working e1"
        "e_id e1 = e_id e" "acks_of (engine_tx e1) = acks_of (engine_tx e) @ [messages_ack (e_id e) [cm_id m] False]"
      unfolding ack_of_def cm_id_def by (rule engine_step_ack [OF Cons.prems, of E]) blast
    from Cons.IH [OF s(2), of ms'] s show ?thesis by (auto simp: Cons)
  qed
qed

lemma map2_engine_next:
  "map2 (\<lambda>E m. (E, EngineNext (Some (f m)))) Es ms = zip Es (map (\<lambda>x. EngineNext (Some x)) (map f ms))"
  by (simp add: zip_map2 comp_def)

text \<open>C8: Acknowledgements reach the broker. When the engine behind a reader takes what the reader sent to it,
  the acknowledgements that go out on its connection are exactly those of the messages the reader
  returned, one each, in order, whatever else (permits) goes out between them.\<close>

theorem reader_acks_reach_broker:
  assumes "rd_state r \<noteq> None" and "reader_polls ps r = Some (items, r')" and "working e"
    and "length Es = length (oks items)"
  shows "\<exists>e1. engine_run (zip Es (map (\<lambda>x. EngineNext (Some x))
        (drop (length (tc_engine_tx (rd_consumer r))) (tc_engine_tx (rd_consumer r'))))) e = (Continue, e1) \<and>
    acks_of (engine_tx e1) =
      acks_of (engine_tx e) @ map (\<lambda>m. messages_ack (e_id e) [cm_id m] False) (oks items)"
proof -
  have "drop (length (tc_engine_tx (rd_consumer r))) (tc_engine_tx (rd_consumer r')) = map ack_of (oks items)"
    using reader_polls_facts [OF assms(1), of ps] assms(2) by auto
  with engine_run_acks [OF assms(3), of Es "oks items"] assms(4) show ?thesis
    by (auto simp: map2_engine_next)
qed

lemma ex_engine_working: "working (ex_engine 10)"
proof -
  have "listening (ex_engine 10) \<noteq> None" by (simp add: listening_def ex_engine_def engine_new_def)
  then show ?thesis by (simp add: working_def)
qed

theorem reader_acks_reach_broker_witness:
  "\<exists>items r' e1. reader_polls [(4, True), (5, True)] ex_reader = Some (items, r') \<and>
    engine_run (zip (replicate (length (oks items)) ex_env) (map (\<lambda>x. EngineNext (Some x))
      (drop (length (tc_engine_tx (rd_consumer ex_reader))) (tc_engine_tx (rd_consumer r')))))
      (ex_engine 10) = (Continue, e1) \<and>
    acks_of (engine_tx e1) = acks_of (engine_tx (ex_engine 10)) @
      map (\<lambda>m. messages_ack (e_id (ex_engine 10)) [cm_id m] False) (oks items)"
proof -
  have st: "rd_state ex_reader \<noteq> None" by (simp add: ex_reader_def)
  then obtain items r' where p: "reader_polls [(4, True), (5, True)] ex_reader = Some (items, r')"
    using reader_polls_facts by blast
  from reader_acks_reach_broker [OF st p ex_engine_working, of "replicate (length (oks items)) ex_env"] p
  show ?thesis by (metis length_replicate)
qed

end
